(* ===== verification/Prelude.thy ===== *)
theory Prelude
  imports Main "HOL-Library.Word" "HOL-Library.Signed_Division"
    "HOL-Library.List_Lexorder" "HOL-Library.Multiset"
begin

text \<open>
  The vocabulary every component theory shares: Go's bytes, strings and 64-bit integers,
  its truncating division, big-endian fields (package \<open>encoding/binary\<close>), and the
  list lemmas the components need. Two collections carry the automation:
  \<open>go_arith\<close> (how the integer model computes) and \<open>bytes_simps\<close> (how byte
  strings and big-endian fields compute).
\<close>

named_theorems go_arith
named_theorems bytes_simps

section \<open>Bytes and strings\<close>

type_synonym byte = "8 word"

text \<open>A Go string is a sequence of bytes, and so is a \<open>[]byte\<close>.\<close>

type_synonym bytes = "byte list"

text \<open>A string literal of the source: the bytes of its (ASCII) characters.\<close>

definition bs :: "string \<Rightarrow> bytes" where
  "bs s = map of_char s"

lemma bs_Nil [simp]: "bs [] = []"
  and bs_Cons [simp]: "bs (c # s) = of_char c # bs s"
  and length_bs [simp]: "length (bs s) = length s"
  by (simp_all add: bs_def)

text \<open>A call that can fail returns an error on the left or its value on the right.\<close>

type_synonym ('e, 'a) result = "'e + 'a"

fun is_ok :: "('e, 'a) result \<Rightarrow> bool" where
  "is_ok (Inl e) = False"
| "is_ok (Inr v) = True"

lemma is_ok_iff: "is_ok r \<longleftrightarrow> (\<exists>v. r = Inr v)"
  by (cases r) auto

lemma map_sum_Inr_iff [simp]: "map_sum id f r = Inr y \<longleftrightarrow> (\<exists>x. r = Inr x \<and> y = f x)"
  by (cases r) auto

lemma map_sum_Inl_iff [simp]: "map_sum id f r = Inl e \<longleftrightarrow> r = Inl e"
  by (cases r) auto

section \<open>Go's integers\<close>

text \<open>
  \<open>int\<close> and \<open>int64\<close> are both 64-bit two's complement on the platforms this client
  targets. A value is an \<^typ>\<open>int\<close>; every addition, subtraction and multiplication whose
  result can leave the range is wrapped with \<open>i64\<close>. Division and remainder truncate
  towards zero: \<open>sdiv\<close> and \<open>smod\<close> of \<open>HOL-Library.Signed_Division\<close>.
\<close>

definition i64 :: "int \<Rightarrow> int" where
  "i64 x = (x + 2 ^ 63) mod 2 ^ 64 - 2 ^ 63"

abbreviation int64_ok :: "int \<Rightarrow> bool" where
  "int64_ok x \<equiv> - (2 ^ 63) \<le> x \<and> x < 2 ^ 63"

lemma i64_id [go_arith]: "- (2 ^ 63) \<le> x \<Longrightarrow> x < 2 ^ 63 \<Longrightarrow> i64 x = x"
  by (simp add: i64_def)

lemma i64_range: "int64_ok (i64 x)"
proof -
  have "0 \<le> (x + 2 ^ 63) mod 2 ^ 64" and "(x + 2 ^ 63) mod 2 ^ 64 < (2 ^ 64 :: int)"
    by simp_all
  then show ?thesis by (simp add: i64_def)
qed

text \<open>On operands of one sign truncation is the floor, which the library reasons about.\<close>

lemma sdiv_nonneg [go_arith]: "0 \<le> a \<Longrightarrow> 0 < b \<Longrightarrow> a sdiv b = a div b" for a b :: int
  by (cases "a = 0") (simp_all add: signed_divide_int_def)

lemma smod_nonneg [go_arith]: "0 \<le> a \<Longrightarrow> 0 < b \<Longrightarrow> a smod b = a mod b" for a b :: int
  by (cases "a = 0") (simp_all add: signed_modulo_int_def)

section \<open>Big-endian fields\<close>

text \<open>\<open>binary.BigEndian.PutUint32\<close> of \<open>uint32(n)\<close>: the conversion keeps the low 32 bits.\<close>

definition put_u32 :: "int \<Rightarrow> bytes" where
  "put_u32 n = [of_int (n div 2 ^ 24), of_int (n div 2 ^ 16), of_int (n div 2 ^ 8), of_int n]"

text \<open>\<open>binary.BigEndian.Uint32\<close> and \<open>Uint16\<close>: the source calls them on slices of that length.\<close>

fun get_u32 :: "bytes \<Rightarrow> int" where
  "get_u32 (a # b # c # d # _) = uint a * 2 ^ 24 + uint b * 2 ^ 16 + uint c * 2 ^ 8 + uint d"
| "get_u32 _ = 0"

fun get_u16 :: "bytes \<Rightarrow> int" where
  "get_u16 (a # b # _) = uint a * 2 ^ 8 + uint b"
| "get_u16 _ = 0"

lemma length_put_u32 [simp, bytes_simps]: "length (put_u32 n) = 4"
  by (simp add: put_u32_def)

lemma uint_byte_bounds [simp]: "0 \<le> uint (b :: byte)" "uint (b :: byte) < 256"
  using uint_lt2p [of b] by simp_all

lemma get_u32_bounds: "0 \<le> get_u32 xs \<and> get_u32 xs < 2 ^ 32"
proof (induction xs rule: get_u32.induct)
  case (1 a b c d uu)
  have "uint a \<le> 255" "uint b \<le> 255" "uint c \<le> 255" "uint d \<le> 255"
    using uint_byte_bounds(2) [of a] uint_byte_bounds(2) [of b]
      uint_byte_bounds(2) [of c] uint_byte_bounds(2) [of d] by linarith+
  then show ?case by simp
qed simp_all

lemma get_u16_bounds: "0 \<le> get_u16 xs \<and> get_u16 xs < 2 ^ 16"
proof (induction xs rule: get_u16.induct)
  case (1 a b uu)
  have "uint a \<le> 255" "uint b \<le> 255"
    using uint_byte_bounds(2) [of a] uint_byte_bounds(2) [of b] by linarith+
  then show ?case by simp
qed simp_all

lemma uint_of_int_byte: "uint (of_int n :: byte) = n mod 256"
  by (simp add: uint_word_of_int)

lemma get_put_u32 [bytes_simps]:
  assumes "0 \<le> n" "n < 2 ^ 32"
  shows "get_u32 (put_u32 n @ xs) = n"
proof -
  define a where "a = n div 256"
  define b where "b = a div 256"
  define c where "c = b div 256"
  have d: "n div 2 ^ 8 = a" "n div 2 ^ 16 = b" "n div 2 ^ 24 = c"
    by (simp_all add: a_def b_def c_def flip: zdiv_zmult2_eq)
  have m: "n = 256 * a + n mod 256" "a = 256 * b + a mod 256" "b = 256 * c + b mod 256"
    unfolding a_def b_def c_def by (rule mult_div_mod_eq [symmetric])+
  have "0 \<le> c" "c < 256"
    using assms unfolding d(3) [symmetric] by (simp_all add: div_less_iff_less_mult pos_imp_zdiv_nonneg_iff)
  then have "c mod 256 = c" by simp
  then have "get_u32 (put_u32 n @ xs)
      = c * 16777216 + (b mod 256) * 65536 + (a mod 256) * 256 + n mod 256"
    unfolding put_u32_def d append_Cons append_Nil get_u32.simps uint_of_int_byte by simp
  also have "\<dots> = n" using m by linarith
  finally show ?thesis .
qed

lemma get_put_u32' [bytes_simps]: "0 \<le> n \<Longrightarrow> n < 2 ^ 32 \<Longrightarrow> get_u32 (put_u32 n) = n"
  using get_put_u32 [of n "[]"] by simp

lemma get_u32_take [bytes_simps]: "get_u32 (take 4 xs) = get_u32 xs"
  by (cases xs rule: get_u32.cases) (simp_all add: numeral_eq_Suc)

section \<open>Slices\<close>

text \<open>The Go slice \<open>xs[s:e]\<close> for offsets in range.\<close>

definition slice_of :: "'a list \<Rightarrow> int \<Rightarrow> int \<Rightarrow> 'a list" where
  "slice_of xs s e = take (nat (e - s)) (drop (nat s) xs)"

lemma slice_of_append:
  "nat s = length xs \<Longrightarrow> nat (e - s) = length ys \<Longrightarrow> slice_of (xs @ ys @ zs) s e = ys"
  by (simp add: slice_of_def)

lemma length_slice_of:
  "0 \<le> s \<Longrightarrow> s \<le> e \<Longrightarrow> e \<le> int (length xs) \<Longrightarrow> length (slice_of xs s e) = nat (e - s)"
  by (simp add: slice_of_def min_def nat_diff_distrib) linarith

text \<open>
  The Go built-in \<open>copy(dst[off:], src)\<close>: overwrite from \<open>off\<close>, as much as fits.
\<close>

definition copy_at :: "'a list \<Rightarrow> nat \<Rightarrow> 'a list \<Rightarrow> 'a list" where
  "copy_at dst off src =
     take off dst @ take (length dst - off) src @ drop (off + length src) dst"

lemma length_copy_at [simp]: "off \<le> length dst \<Longrightarrow> length (copy_at dst off src) = length dst"
  by (auto simp: copy_at_def min_def)

lemma nth_copy_at:
  assumes "off + length src \<le> length dst" "k < length dst"
  shows "copy_at dst off src ! k =
    (if off \<le> k \<and> k < off + length src then src ! (k - off) else dst ! k)"
  using assms by (auto simp: copy_at_def nth_append min_def)

section \<open>Lists\<close>

text \<open>\<open>make([]T, n)\<close> is \<open>replicate\<close>; a negative length panics and is handled where it can occur.\<close>

fun chunks :: "nat \<Rightarrow> 'a list \<Rightarrow> 'a list list" where
  "chunks n [] = []"
| "chunks n (x # xs) = (if n = 0 then [] else take n (x # xs) # chunks n (drop n (x # xs)))"

lemma chunks_concat: "0 < n \<Longrightarrow> concat (chunks n xs) = xs"
  by (induction n xs rule: chunks.induct) (auto simp: append_take_drop_id)

lemma chunks_length: "0 < n \<Longrightarrow> n dvd length xs \<Longrightarrow> c \<in> set (chunks n xs) \<Longrightarrow> length c = n"
proof (induction n xs rule: chunks.induct)
  case (2 n x xs)
  have le: "n \<le> length (x # xs)"
    using "2.prems"(2) by (intro dvd_imp_le) auto
  have "n dvd length (drop n (x # xs))"
    using "2.prems"(2) le by (simp only: length_drop) (rule dvd_diff_nat, auto)
  then show ?case using "2.IH" "2.prems" le by (auto simp: min_def)
qed simp

lemma chunks_count: "0 < n \<Longrightarrow> n dvd length xs \<Longrightarrow> length (chunks n xs) = length xs div n"
proof (induction n xs rule: chunks.induct)
  case (2 n x xs)
  have le: "n \<le> length (x # xs)"
    using "2.prems"(2) by (intro dvd_imp_le) auto
  have dv: "n dvd length (drop n (x # xs))"
    using "2.prems"(2) le by (simp only: length_drop) (rule dvd_diff_nat, auto)
  have "length (chunks n (x # xs)) = Suc (length (chunks n (drop n (x # xs))))"
    using "2.prems"(1) by simp
  also have "\<dots> = Suc (length (drop n (x # xs)) div n)"
    using "2.IH" "2.prems"(1) dv by simp
  also have "\<dots> = length (x # xs) div n"
    using le "2.prems"(1) by (simp only: length_drop) (simp add: le_div_geq)
  finally show ?case .
qed simp

lemma size_list_mset_cong: "mset xs = mset ys \<Longrightarrow> size_list f xs = size_list f ys"
proof -
  assume "mset xs = mset ys"
  moreover have "size_list f zs = size (mset zs) + sum_mset (image_mset f (mset zs))" for zs
    by (induction zs) auto
  ultimately show ?thesis by metis
qed

lemma size_list_sort_key [simp]: "size_list f (sort_key k xs) = size_list f xs"
  by (rule size_list_mset_cong) simp

lemma takeWhile_split_first:
  "x \<in> set xs \<Longrightarrow> xs = takeWhile (\<lambda>y. y \<noteq> x) xs @ x # drop (Suc (length (takeWhile (\<lambda>y. y \<noteq> x) xs))) xs"
  by (induction xs) auto

end
