(* ===== verification/Rates.thy ===== *)
theory Rates
  imports Complex_Main Prelude
begin

text \<open>
  Package \<open>download\<close>: the rolling-window rates behind the choking decisions (\<open>rates.go\<close>) and the
  progress counters (\<open>progress.go\<close>, \<open>queue.go\<close>). Times are nanoseconds read from the clock, passed as
  an argument. \<open>float64\<close> values are rationals: the rounding of the last bit is left out. A method on
  a nil receiver is a no-op, so the trackers are optional.
\<close>

section \<open>Durations and windows (\<open>config.go\<close>)\<close>

definition Second :: int where "Second = 10 ^ 9"
definition rateWindow :: int where "rateWindow = 10 * Second"
definition rateSampleWindow :: int where "rateSampleWindow = 20 * Second"

record rate_sample =
  stamp :: int
  sbytes :: int

section \<open>Windows of samples\<close>

text \<open>Both \<open>prune\<close> and \<open>recordAndPrune\<close> drop the leading samples older than the window.\<close>

definition prune_before :: "int \<Rightarrow> rate_sample list \<Rightarrow> rate_sample list" where
  "prune_before cutoff samples = dropWhile (\<lambda>s. stamp s < cutoff) samples"

definition prune :: "rate_sample list \<Rightarrow> int \<Rightarrow> rate_sample list" where
  "prune samples now = prune_before (now - rateSampleWindow) samples"

definition window_rate :: "int \<Rightarrow> int \<Rightarrow> rate_sample list \<Rightarrow> rat" where
  "window_rate window now samples =
     (if length samples < 2 then 0
      else let first = hd samples; last = List.last samples in
           if now - stamp last > window then 0
           else let elapsed = of_int (stamp last - stamp first) / of_int Second in
                if elapsed \<le> 0 then 0 else of_int (sbytes last - sbytes first) / elapsed)"

definition rate :: "int \<Rightarrow> rate_sample list \<Rightarrow> rat" where
  "rate now samples = window_rate rateSampleWindow now samples"

section \<open>\<open>RateTracker\<close>\<close>

record peer_rate =
  downSamples :: "rate_sample list"
  upSamples :: "rate_sample list"
  downTotal :: int
  upTotal :: int

definition empty_rate :: peer_rate where
  "empty_rate = \<lparr>downSamples = [], upSamples = [], downTotal = 0, upTotal = 0\<rparr>"

type_synonym 'a rates = "'a \<rightharpoonup> peer_rate"

definition NewRateTracker :: "'a rates" where
  "NewRateTracker = Map.empty"

definition record_bytes :: "int \<Rightarrow> 'a \<Rightarrow> int \<Rightarrow> bool \<Rightarrow> 'a rates \<Rightarrow> 'a rates" where
  "record_bytes now a n download rt =
     (let pr = (case rt a of None \<Rightarrow> empty_rate | Some pr \<Rightarrow> pr) in
      if download then
        let tot = i64 (downTotal pr + n) in
        rt(a \<mapsto> pr\<lparr>downTotal := tot,
                   downSamples := prune (downSamples pr @ [\<lparr>stamp = now, sbytes = tot\<rparr>]) now\<rparr>)
      else
        let tot = i64 (upTotal pr + n) in
        rt(a \<mapsto> pr\<lparr>upTotal := tot,
                   upSamples := prune (upSamples pr @ [\<lparr>stamp = now, sbytes = tot\<rparr>]) now\<rparr>))"

definition AddDownloaded :: "int \<Rightarrow> 'a \<Rightarrow> int \<Rightarrow> 'a rates option \<Rightarrow> 'a rates option" where
  "AddDownloaded now a n rt = map_option (record_bytes now a n True) rt"

definition AddUploaded :: "int \<Rightarrow> 'a \<Rightarrow> int \<Rightarrow> 'a rates option \<Rightarrow> 'a rates option" where
  "AddUploaded now a n rt = map_option (record_bytes now a n False) rt"

definition DownloadRate :: "int \<Rightarrow> 'a rates option \<Rightarrow> 'a \<Rightarrow> rat" where
  "DownloadRate now rt a =
     (case rt of None \<Rightarrow> 0 | Some m \<Rightarrow> (case m a of None \<Rightarrow> 0 | Some pr \<Rightarrow> rate now (downSamples pr)))"

definition UploadRate :: "int \<Rightarrow> 'a rates option \<Rightarrow> 'a \<Rightarrow> rat" where
  "UploadRate now rt a =
     (case rt of None \<Rightarrow> 0 | Some m \<Rightarrow> (case m a of None \<Rightarrow> 0 | Some pr \<Rightarrow> rate now (upSamples pr)))"

definition Remove :: "'a \<Rightarrow> 'a rates option \<Rightarrow> 'a rates option" where
  "Remove a rt = map_option (\<lambda>m. m(a := None)) rt"

section \<open>\<open>Progress\<close>\<close>

record progress =
  ProgressPieces :: int
  bytesDownloaded :: int
  bytesUploaded :: int
  activePeers :: int
  peakPeers :: int
  uploadSamples :: "rate_sample list"
  connectAttempts :: int
  connectSuccesses :: int
  hashFailures :: int
  panics :: int
  duplicateAssignments :: int
  piecesDone :: int
  samples :: "rate_sample list"

definition NewProgress :: "int \<Rightarrow> progress" where
  "NewProgress n = \<lparr>ProgressPieces = n, bytesDownloaded = 0, bytesUploaded = 0, activePeers = 0,
     peakPeers = 0, uploadSamples = [], connectAttempts = 0, connectSuccesses = 0, hashFailures = 0,
     panics = 0, duplicateAssignments = 0, piecesDone = 0, samples = []\<rparr>"

definition recordAndPrune :: "int \<Rightarrow> rate_sample list \<Rightarrow> int \<Rightarrow> rate_sample list" where
  "recordAndPrune now ss n = prune_before (now - rateWindow) (ss @ [\<lparr>stamp = now, sbytes = n\<rparr>])"

definition rateFromSamples :: "int \<Rightarrow> rate_sample list \<Rightarrow> rat" where
  "rateFromSamples now ss = window_rate rateWindow now ss"

definition AddBytes :: "int \<Rightarrow> progress \<Rightarrow> progress" where
  "AddBytes n p = p\<lparr>bytesDownloaded := i64 (bytesDownloaded p + n)\<rparr>"

definition AddUploadedBytes :: "int \<Rightarrow> int \<Rightarrow> progress \<Rightarrow> progress" where
  "AddUploadedBytes now n p =
     (let tot = i64 (bytesUploaded p + n) in
      p\<lparr>bytesUploaded := tot, uploadSamples := recordAndPrune now (uploadSamples p) tot\<rparr>)"

definition ProgressUploadRate :: "int \<Rightarrow> progress \<Rightarrow> rat" where
  "ProgressUploadRate now p = rateFromSamples now (uploadSamples p)"

text \<open>The compare-and-swap loop of \<open>PeerConnected\<close> ends with the maximum.\<close>

definition PeerConnected :: "progress \<Rightarrow> progress" where
  "PeerConnected p =
     (let n = activePeers p + 1 in
      p\<lparr>activePeers := n, peakPeers := if n \<le> peakPeers p then peakPeers p else n\<rparr>)"

definition PeerDisconnected :: "progress \<Rightarrow> progress" where
  "PeerDisconnected p = p\<lparr>activePeers := activePeers p - 1\<rparr>"

definition ConnectAttempted where "ConnectAttempted p = p\<lparr>connectAttempts := connectAttempts p + 1\<rparr>"
definition ConnectSucceeded where "ConnectSucceeded p = p\<lparr>connectSuccesses := connectSuccesses p + 1\<rparr>"
definition ConnectStats where "ConnectStats p = (connectAttempts p, connectSuccesses p)"
definition HashFailed where "HashFailed p = p\<lparr>hashFailures := hashFailures p + 1\<rparr>"
definition PanicRecovered where "PanicRecovered p = p\<lparr>panics := panics p + 1\<rparr>"
definition DuplicateAssignment where
  "DuplicateAssignment p = p\<lparr>duplicateAssignments := duplicateAssignments p + 1\<rparr>"

text \<open>The getters, which answer 0 for a nil \<open>*Progress\<close>.\<close>

definition BytesDownloaded :: "progress option \<Rightarrow> int" where
  "BytesDownloaded p = (case p of None \<Rightarrow> 0 | Some p \<Rightarrow> bytesDownloaded p)"

definition BytesUploaded :: "progress option \<Rightarrow> int" where
  "BytesUploaded p = (case p of None \<Rightarrow> 0 | Some p \<Rightarrow> bytesUploaded p)"

definition ActivePeers :: "progress option \<Rightarrow> int" where
  "ActivePeers p = (case p of None \<Rightarrow> 0 | Some p \<Rightarrow> activePeers p)"

definition PeakPeers :: "progress option \<Rightarrow> int" where
  "PeakPeers p = (case p of None \<Rightarrow> 0 | Some p \<Rightarrow> peakPeers p)"

definition HashFailures :: "progress option \<Rightarrow> int" where
  "HashFailures p = (case p of None \<Rightarrow> 0 | Some p \<Rightarrow> hashFailures p)"

definition Panics :: "progress option \<Rightarrow> int" where
  "Panics p = (case p of None \<Rightarrow> 0 | Some p \<Rightarrow> panics p)"

definition DuplicateAssignments :: "progress option \<Rightarrow> int" where
  "DuplicateAssignments p = (case p of None \<Rightarrow> 0 | Some p \<Rightarrow> duplicateAssignments p)"

definition PieceCompleted :: "int \<Rightarrow> progress \<Rightarrow> progress" where
  "PieceCompleted now p =
     p\<lparr>piecesDone := piecesDone p + 1, samples := recordAndPrune now (samples p) (bytesDownloaded p)\<rparr>"

definition Rate :: "int \<Rightarrow> progress \<Rightarrow> rat" where
  "Rate now p = rateFromSamples now (samples p)"

definition Percent :: "progress \<Rightarrow> rat" where
  "Percent p = (if ProgressPieces p = 0 then 0 else 100 * of_int (piecesDone p) / of_int (ProgressPieces p))"

text \<open>\<open>time.Duration(remaining / rate)\<close> truncates to whole seconds; the product with a second can overflow.\<close>

definition ETA :: "int \<Rightarrow> int \<Rightarrow> progress \<Rightarrow> int" where
  "ETA now totalBytes p =
     (let r = Rate now p in
      if r \<le> 0 then 0
      else let remaining = of_int totalBytes - of_int (bytesDownloaded p);
               remaining = (if remaining < 0 then 0 else remaining)
           in i64 (\<lfloor>remaining / r\<rfloor> * Second))"

definition barWidth :: int where "barWidth = 40"

text \<open>The filled part of the progress bar, capped at its width.\<close>

definition bar_filled :: "progress \<Rightarrow> int" where
  "bar_filled p = (let filled = \<lfloor>Percent p / 100 * of_int barWidth\<rfloor> in if filled > barWidth then barWidth else filled)"

section \<open>What a window holds\<close>

text \<open>The records of one direction of one peer, oldest first: when, and how many bytes.\<close>

type_synonym history = "(int \<times> int) list"

fun totals_from :: "int \<Rightarrow> history \<Rightarrow> rate_sample list" where
  "totals_from k [] = []"
| "totals_from k ((t, n) # h) = \<lparr>stamp = t, sbytes = k + n\<rparr> # totals_from (k + n) h"

definition bytes_of :: "history \<Rightarrow> int" where
  "bytes_of h = sum_list (map snd h)"

lemma totals_from_append:
  "totals_from k (h @ h') = totals_from k h @ totals_from (k + bytes_of h) h'"
  by (induction k h rule: totals_from.induct) (simp_all add: bytes_of_def add.assoc)

lemma totals_from_stamps: "map stamp (totals_from k h) = map fst h"
  by (induction k h rule: totals_from.induct) simp_all

lemma totals_from_last: "h \<noteq> [] \<Longrightarrow> sbytes (last (totals_from k h)) = k + bytes_of h"
proof (induction h rule: rev_induct)
  case (snoc x h)
  then show ?case by (cases x) (simp add: totals_from_append bytes_of_def)
qed simp

lemma totals_from_dropWhile:
  "dropWhile (\<lambda>s. stamp s < c) (totals_from k h) =
    totals_from (k + bytes_of (takeWhile (\<lambda>r. fst r < c) h)) (dropWhile (\<lambda>r. fst r < c) h)"
  by (induction k h rule: totals_from.induct) (simp_all add: bytes_of_def add.assoc)

lemma dropWhile_dropWhile_le:
  fixes c c' :: int
  assumes "c \<le> c'"
  shows "dropWhile (\<lambda>r. f r < c') (dropWhile (\<lambda>r. f r < c) h @ h') = dropWhile (\<lambda>r. f r < c') (h @ h')"
proof (induction h)
  case (Cons x h)
  then show ?case using assms by (cases "f x < c") auto
qed simp

definition clock_ok :: "history \<Rightarrow> bool" where
  "clock_ok h \<longleftrightarrow> sorted (map fst h)"

definition no_wrap :: "history \<Rightarrow> bool" where
  "no_wrap h \<longleftrightarrow> (\<forall>k. int64_ok (bytes_of (take k h)))"

text \<open>The tracker after a history of downloads from one peer.\<close>

definition downloads :: "'a \<Rightarrow> history \<Rightarrow> 'a rates \<Rightarrow> 'a rates" where
  "downloads a h rt = foldl (\<lambda>rt (t, n). record_bytes t a n True rt) rt h"

lemma downloads_state:
  assumes "clock_ok h" "no_wrap h" "h \<noteq> []"
  shows "\<exists>pr. downloads a h NewRateTracker a = Some pr \<and> downTotal pr = bytes_of h \<and>
    downSamples pr = dropWhile (\<lambda>s. stamp s < fst (last h) - rateSampleWindow) (totals_from 0 h)"
  using assms
proof (induction h rule: rev_induct)
  case (snoc x h)
  obtain t n where x: "x = (t, n)" by (cases x)
  have bx: "bytes_of (h @ [x]) = bytes_of h + n" by (simp add: bytes_of_def x)
  have "int64_ok (bytes_of (take (length (h @ [x])) (h @ [x])))"
    using snoc.prems(2) by (simp only: no_wrap_def)
  then have "int64_ok (bytes_of (h @ [x]))" by (simp only: take_all order_refl)
  then have tot: "i64 (bytes_of h + n) = bytes_of (h @ [x])" unfolding bx by (simp add: i64_id)
  show ?case
  proof (cases "h = []")
    case True
    then show ?thesis
      using tot x by (simp add: downloads_def record_bytes_def NewRateTracker_def empty_rate_def Let_def
          prune_def prune_before_def bytes_of_def)
  next
    case False
    have "clock_ok h" using snoc.prems(1) by (simp add: clock_ok_def sorted_append)
    moreover have "no_wrap h"
      unfolding no_wrap_def
    proof
      fix k
      have "take k h = take (min k (length h)) (h @ [x])" by (simp add: min_def)
      then show "int64_ok (bytes_of (take k h))" using snoc.prems(2) by (simp only: no_wrap_def)
    qed
    ultimately obtain pr where pr: "downloads a h NewRateTracker a = Some pr" "downTotal pr = bytes_of h"
        "downSamples pr = dropWhile (\<lambda>s. stamp s < fst (last h) - rateSampleWindow) (totals_from 0 h)"
      using snoc.IH False by blast
    have le: "fst (last h) - rateSampleWindow \<le> t - rateSampleWindow"
      using snoc.prems(1) False x by (simp add: clock_ok_def sorted_append)
    have "downSamples (the (downloads a (h @ [x]) NewRateTracker a)) =
        dropWhile (\<lambda>s. stamp s < t - rateSampleWindow)
          (dropWhile (\<lambda>s. stamp s < fst (last h) - rateSampleWindow) (totals_from 0 h) @
            [\<lparr>stamp = t, sbytes = bytes_of (h @ [x])\<rparr>])"
      using pr tot x by (simp add: downloads_def record_bytes_def Let_def prune_def prune_before_def)
    also have "\<dots> = dropWhile (\<lambda>s. stamp s < t - rateSampleWindow) (totals_from 0 (h @ [x]))"
      unfolding dropWhile_dropWhile_le [OF le] by (simp add: totals_from_append x bytes_of_def)
    finally show ?thesis
      using pr tot x by (simp add: downloads_def record_bytes_def Let_def)
  qed
qed simp

section \<open>Properties\<close>



text \<open>
  The progress figures stay in range: whatever the counters are, as long as no more pieces are
  counted than exist the percentage is between 0 and 100 and the bar between empty and full, and the
  peak of simultaneous peers never falls and is never below the current number.
\<close>

theorem progress_in_range:
  assumes "0 \<le> piecesDone p" "piecesDone p \<le> ProgressPieces p"
  shows "0 \<le> Percent p \<and> Percent p \<le> 100 \<and> 0 \<le> bar_filled p \<and> bar_filled p \<le> barWidth \<and>
    peakPeers p \<le> peakPeers (PeerConnected p) \<and> activePeers (PeerConnected p) \<le> peakPeers (PeerConnected p)"
proof -
  have q: "0 \<le> Percent p" "Percent p \<le> 100"
    using assms by (auto simp: Percent_def divide_le_eq)
  then have "0 \<le> Percent p / 100 * of_int barWidth" by (simp add: barWidth_def)
  then have "0 \<le> \<lfloor>Percent p / 100 * of_int barWidth\<rfloor>" by simp
  then show ?thesis
    using q by (simp add: bar_filled_def Let_def PeerConnected_def barWidth_def)
qed

theorem progress_in_range_witness:
  "0 \<le> Percent (PieceCompleted 5 (NewProgress 3)) \<and> Percent (PieceCompleted 5 (NewProgress 3)) \<le> 100"
  using progress_in_range [of "PieceCompleted 5 (NewProgress 3)"]
  by (simp add: PieceCompleted_def NewProgress_def)

end
