(* ===== verification/Bitfield.thy ===== *)
theory Bitfield
  imports Prelude
begin

text \<open>
  Package \<open>peer\<close>, \<open>bitfield.go\<close>: which pieces a peer has, one bit per piece, most significant bit
  first. The locale \<open>piece_set\<close> is what the coordinator and the sessions rely on - a finite set of
  piece indices below a capacity, with membership, insertion and a count - and is interpreted on
  the byte representation.
\<close>

unbundle bit_operations_syntax

section \<open>The code\<close>

type_synonym bitfield = bytes

definition HasPiece :: "bitfield \<Rightarrow> int \<Rightarrow> bool" where
  "HasPiece bf index =
     (let byteIndex = index sdiv 8; bitOffset = 7 - (index smod 8) in
      if byteIndex < 0 \<or> byteIndex \<ge> int (length bf) then False
      else drop_bit (nat bitOffset) (bf ! nat byteIndex) AND 1 \<noteq> 0)"

definition SetPiece :: "bitfield \<Rightarrow> int \<Rightarrow> bitfield" where
  "SetPiece bf index =
     (let byteIndex = index sdiv 8; bitOffset = 7 - (index smod 8) in
      if byteIndex < 0 \<or> byteIndex \<ge> int (length bf) then bf
      else bf[nat byteIndex := bf ! nat byteIndex OR push_bit (nat bitOffset) 1])"

text \<open>The two nested loops of \<open>Count\<close>: over the bytes, and over the bits of a byte.\<close>

fun count_bits :: "nat \<Rightarrow> byte \<Rightarrow> int \<Rightarrow> int" where
  "count_bits 0 b n = n"
| "count_bits (Suc k) b n =
     count_bits k b (if drop_bit (8 - Suc k) b AND 1 \<noteq> 0 then n + 1 else n)"

fun count_bytes :: "bitfield \<Rightarrow> int \<Rightarrow> int" where
  "count_bytes [] n = n"
| "count_bytes (b # bf) n = count_bytes bf (count_bits 8 b n)"

definition Count :: "bitfield \<Rightarrow> int" where
  "Count bf = count_bytes bf 0"

datatype bitfield_error = BitfieldLength int int int

definition Validate :: "bitfield \<Rightarrow> int \<Rightarrow> bitfield_error option" where
  "Validate bf pieceCount =
     (let want = (pieceCount + 7) sdiv 8 in
      if int (length bf) \<noteq> want then Some (BitfieldLength (int (length bf)) want pieceCount) else None)"

text \<open>\<open>make(peer.Bitfield, (pieceCount+7)/8)\<close>, as the callers allocate an empty one.\<close>

definition empty_bitfield :: "int \<Rightarrow> bitfield" where
  "empty_bitfield pieceCount = replicate (nat ((pieceCount + 7) sdiv 8)) 0"

section \<open>A set of pieces\<close>

locale piece_set =
  fixes cap :: "'s \<Rightarrow> int" and has :: "'s \<Rightarrow> int \<Rightarrow> bool" and put :: "'s \<Rightarrow> int \<Rightarrow> 's" and cnt :: "'s \<Rightarrow> int"
  assumes has_range: "has s i \<Longrightarrow> 0 \<le> i \<and> i < cap s"
    and cap_put [simp]: "cap (put s i) = cap s"
    and has_put: "has (put s i) j \<longleftrightarrow> has s j \<or> (j = i \<and> 0 \<le> i \<and> i < cap s)"
    and cnt_card: "cnt s = int (card {i. has s i})"
begin

lemma has_mono: "has s j \<Longrightarrow> has (put s i) j"
  by (simp add: has_put)

lemma finite_has [simp]: "finite {i. has s i}"
  by (rule finite_subset [of _ "{0..<cap s}"]) (auto dest: has_range)

lemma cnt_put: "cnt (put s i) = cnt s + (if 0 \<le> i \<and> i < cap s \<and> \<not> has s i then 1 else 0)"
proof -
  have "{j. has (put s i) j} = (if 0 \<le> i \<and> i < cap s then insert i {j. has s j} else {j. has s j})"
    by (auto simp: has_put)
  then show ?thesis by (simp add: cnt_card card_insert_if)
qed

lemma cnt_bounds: "0 \<le> cnt s \<and> cnt s \<le> max 0 (cap s)"
proof -
  have "card {i. has s i} \<le> card {0..<cap s}"
    by (rule card_mono) (auto dest: has_range)
  then show ?thesis by (simp add: cnt_card)
qed

lemma has_put_all: "has (foldl put s is) j \<longleftrightarrow> has s j \<or> (j \<in> set is \<and> 0 \<le> j \<and> j < cap s)"
proof (induction "is" arbitrary: s)
  case (Cons i "is")
  then show ?case using cap_put [of s i] by (auto simp: has_put)
qed simp

lemma cap_put_all [simp]: "cap (foldl put s is) = cap s"
  by (induction "is" arbitrary: s) simp_all

end

section \<open>Bytes as sets of bits\<close>

text \<open>Bit \<open>i\<close> of the field, counted from the most significant bit of the first byte.\<close>

definition field_bit :: "bitfield \<Rightarrow> nat \<Rightarrow> bool" where
  "field_bit bf i \<longleftrightarrow> i < 8 * length bf \<and> bit (bf ! (i div 8)) (7 - i mod 8)"

lemma test_bit_and: "drop_bit n b AND 1 \<noteq> 0 \<longleftrightarrow> bit b n" for b :: byte
  by (simp add: and_one_eq bit_iff_odd_drop_bit mod_2_eq_odd)

lemma neg_byte_index: "i < 0 \<Longrightarrow> i sdiv 8 < 0 \<or> (i sdiv 8 = 0 \<and> 7 < 7 - (i smod 8) \<and> - 8 < i)" for i :: int
proof -
  assume i: "i < 0"
  have d: "i sdiv 8 = - (- i div 8)" "i smod 8 = - (- i mod 8)"
    using i by (simp_all add: signed_divide_int_def signed_modulo_int_def minus_mod_eq_mult_div [symmetric])
  have "- i = 8 * (- i div 8) + - i mod 8" by simp
  moreover have "0 \<le> - i mod 8" "- i mod 8 < 8" by simp_all
  ultimately show ?thesis using i d by linarith
qed

lemma HasPiece_bit: "HasPiece bf i \<longleftrightarrow> 0 \<le> i \<and> field_bit bf (nat i)"
proof (cases "0 \<le> i")
  case True
  then have *: "nat (i div 8) = nat i div 8" "nat (7 - i mod 8) = 7 - nat i mod 8"
    by (simp_all add: nat_div_distrib nat_mod_distrib nat_diff_distrib)
  have "i div 8 < int (length bf) \<longleftrightarrow> nat i < 8 * length bf" using True by linarith
  then show ?thesis
    using True * by (auto simp: HasPiece_def Let_def sdiv_nonneg smod_nonneg test_bit_and field_bit_def)
next
  case False
  then have "i sdiv 8 < 0 \<or> 8 \<le> nat (7 - i smod 8)" using neg_byte_index [of i] by linarith
  then have "\<not> HasPiece bf i"
    by (auto simp: HasPiece_def Let_def test_bit_and dest!: bit_imp_le_length)
  then show ?thesis using False by simp
qed

lemma SetPiece_length [simp]: "length (SetPiece bf i) = length bf"
  by (simp add: SetPiece_def Let_def)

lemma SetPiece_neg: "i < 0 \<Longrightarrow> SetPiece bf i = bf"
proof -
  assume "i < 0"
  then consider "i sdiv 8 < 0" | "i sdiv 8 = 0" "8 \<le> nat (7 - i smod 8)" using neg_byte_index [of i] by linarith
  then show ?thesis
  proof cases
    case 2
    have "push_bit (nat (7 - i smod 8)) (1 :: byte) = 0"
    proof (rule bit_word_eqI)
      fix n assume "n < LENGTH(8)"
      then show "bit (push_bit (nat (7 - i smod 8)) (1 :: byte)) n = bit (0 :: byte) n"
        using 2(2) by (simp add: bit_exp_iff)
    qed
    then show ?thesis unfolding SetPiece_def Let_def by (simp only: or.right_neutral list_update_id if_cancel)
  qed (simp add: SetPiece_def)
qed

lemma pos_mod_bound8: "n mod 8 < 8" for n :: nat
  by simp

lemma HasPiece_SetPiece:
  "HasPiece (SetPiece bf i) j \<longleftrightarrow> HasPiece bf j \<or> (j = i \<and> 0 \<le> i \<and> i < 8 * int (length bf))"
proof (cases "0 \<le> i \<and> i < 8 * int (length bf) \<and> 0 \<le> j")
  case True
  then have s: "SetPiece bf i = bf[nat i div 8 := bf ! (nat i div 8) OR push_bit (7 - nat i mod 8) 1]"
    by (auto simp: SetPiece_def Let_def sdiv_nonneg smod_nonneg nat_div_distrib nat_mod_distrib nat_diff_distrib)
  have "field_bit (SetPiece bf i) (nat j) \<longleftrightarrow> field_bit bf (nat j) \<or> nat j = nat i"
  proof (cases "nat j div 8 = nat i div 8")
    case same: True
    have l: "nat i div 8 < length bf" using True by (simp add: less_mult_imp_div_less nat_less_iff mult.commute)
    have "7 - nat j mod 8 = 7 - nat i mod 8 \<longleftrightarrow> nat j mod 8 = nat i mod 8"
      using pos_mod_bound8 [of "nat j"] pos_mod_bound8 [of "nat i"] by linarith
    then have "7 - nat j mod 8 = 7 - nat i mod 8 \<longleftrightarrow> nat j = nat i"
      using same by (metis div_mult_mod_eq)
    then show ?thesis
      using l same True by (auto simp: field_bit_def s bit_or_iff bit_exp_iff)
  qed (use True in \<open>auto simp: field_bit_def s\<close>)
  then show ?thesis using True by (auto simp: HasPiece_bit)
next
  case False
  then consider "i < 0" | "8 * int (length bf) \<le> i" | "0 \<le> i" "j < 0" by linarith
  then show ?thesis
  proof cases
    case 2
    then have "\<not> i sdiv 8 < int (length bf)" by (simp add: sdiv_nonneg)
    then show ?thesis using 2 by (simp add: SetPiece_def Let_def)
  qed (auto simp: SetPiece_neg HasPiece_bit)
qed

section \<open>Counting\<close>

lemma count_bits_sum: "count_bits k b n = n + (\<Sum>i = 8 - k..<8. if bit b i then 1 else 0)" if "k \<le> 8"
  using that
proof (induction k arbitrary: n)
  case (Suc k)
  have "{8 - Suc k..<8} = insert (8 - Suc k) {8 - k..<8}" using Suc.prems by auto
  then show ?case using Suc by (simp add: test_bit_and del: and_one_eq)
qed simp

lemma bits_of_byte: "(\<Sum>i = 0..<8. if bit b i then 1 else 0 :: int) = int (card {i. i < 8 \<and> bit b (7 - i)})"
  for b :: byte
proof -
  have "(\<Sum>i = 0..<8. if bit b i then 1 else 0 :: int) = (\<Sum>i \<in> {i \<in> {0..<8}. bit b i}. 1)"
    by (rule sum.inter_filter [symmetric]) simp
  also have "\<dots> = int (card {i \<in> {0..<8}. bit b i})" by simp
  also have "card {i \<in> {0..<8}. bit b i} = card {i. i < 8 \<and> bit b (7 - i)}"
    by (rule bij_betw_same_card [of "\<lambda>i. 7 - i"])
      (rule bij_betw_byWitness [where f' = "\<lambda>i. 7 - i"], auto)
  finally show ?thesis .
qed

lemma field_bit_Cons: "{i. field_bit (b # bf) i} = {i. i < 8 \<and> bit b (7 - i)} \<union> (\<lambda>i. i + 8) ` {i. field_bit bf i}"
proof (rule set_eqI)
  fix i
  show "i \<in> {i. field_bit (b # bf) i} \<longleftrightarrow> i \<in> {i. i < 8 \<and> bit b (7 - i)} \<union> (\<lambda>i. i + 8) ` {i. field_bit bf i}"
  proof (cases "i < 8")
    case False
    then obtain k where k: "i = k + 8" by (metis add.commute le_Suc_ex not_less)
    then show ?thesis by (auto simp: field_bit_def div_add_self2)
  qed (auto simp: field_bit_def)
qed

lemma finite_field_bit [simp]: "finite {i. field_bit bf i}"
  by (rule finite_subset [of _ "{..<8 * length bf}"]) (auto simp: field_bit_def)

lemma count_bytes_card: "count_bytes bf n = n + int (card {i. field_bit bf i})"
proof (induction bf arbitrary: n)
  case Nil
  then show ?case by (simp add: field_bit_def)
next
  case (Cons b bf)
  have "card {i. field_bit (b # bf) i} = card {i. i < 8 \<and> bit b (7 - i)} + card {i. field_bit bf i}"
    unfolding field_bit_Cons by (subst card_Un_disjoint) (auto simp: card_image)
  moreover have "count_bits 8 b n = n + int (card {i. i < 8 \<and> bit b (7 - i)})"
    using count_bits_sum [of 8 b n] bits_of_byte [of b] by simp
  ultimately show ?case using Cons by simp
qed

lemma Count_card: "Count bf = int (card {i. HasPiece bf i})"
proof -
  have "{i. HasPiece bf i} = int ` {i. field_bit bf i}"
    by (auto simp: HasPiece_bit image_iff) (metis nat_0_le)
  then show ?thesis by (simp add: Count_def count_bytes_card card_image)
qed

interpretation bits: piece_set "\<lambda>bf. 8 * int (length bf)" HasPiece SetPiece Count
proof (unfold_locales, goal_cases)
  case (1 bf i) then show ?case by (auto simp: HasPiece_bit field_bit_def)
qed (simp_all add: HasPiece_SetPiece Count_card)

lemma empty_bitfield_HasPiece [simp]: "\<not> HasPiece (empty_bitfield pc) i"
  by (auto simp: HasPiece_bit field_bit_def empty_bitfield_def)

lemma field_size: "0 \<le> pc \<Longrightarrow> 0 \<le> (pc + 7) div 8 \<and> pc \<le> 8 * ((pc + 7) div 8)" for pc :: int
  by linarith

lemma empty_bitfield_cap: "0 \<le> pc \<Longrightarrow> pc \<le> 8 * int (length (empty_bitfield pc))"
  using field_size [of pc] by (simp add: empty_bitfield_def sdiv_nonneg)

lemma Validate_empty_bitfield: "0 \<le> pc \<Longrightarrow> Validate (empty_bitfield pc) pc = None"
  using field_size [of pc] by (simp add: Validate_def empty_bitfield_def sdiv_nonneg Let_def)

section \<open>Properties\<close>

text \<open>
  Building a bitfield works: setting the pieces of a list, in any order and however often, in the
  field allocated for the piece count gives a field that passes \<open>Validate\<close>, reports exactly those
  pieces, and counts each once.
\<close>

theorem bitfield_of_pieces:
  assumes "\<forall>i \<in> set is. 0 \<le> i \<and> i < pieceCount" and "0 \<le> pieceCount"
  shows "Validate (foldl SetPiece (empty_bitfield pieceCount) is) pieceCount = None \<and>
    (\<forall>i. HasPiece (foldl SetPiece (empty_bitfield pieceCount) is) i \<longleftrightarrow> i \<in> set is) \<and>
    Count (foldl SetPiece (empty_bitfield pieceCount) is) = int (card (set is))"
proof -
  let ?bf = "foldl SetPiece (empty_bitfield pieceCount) is"
  have h: "HasPiece ?bf i \<longleftrightarrow> i \<in> set is" for i
    using bits.has_put_all [of "empty_bitfield pieceCount" "is" i] assms
      empty_bitfield_cap [OF assms(2)] by force
  have "8 * int (length ?bf) = 8 * int (length (empty_bitfield pieceCount))"
    by (rule bits.cap_put_all)
  then have "length ?bf = length (empty_bitfield pieceCount)" by linarith
  then have "Validate ?bf pieceCount = None"
    using Validate_empty_bitfield [OF assms(2)] by (simp add: Validate_def Let_def split: if_splits)
  then show ?thesis using h by (simp add: Count_card)
qed

theorem bitfield_of_pieces_witness:
  "Count (foldl SetPiece (empty_bitfield 11) [9, 0, 9]) = 2 \<and> HasPiece (foldl SetPiece (empty_bitfield 11) [9, 0, 9]) 9"
  using bitfield_of_pieces [of "[9, 0, 9]" 11] by (simp add: card_insert_if)

end
