(* ===== verification/Sha1.thy ===== *)
theory Sha1
  imports Prelude
begin

text \<open>
  \<open>sha1.Sum\<close> of the standard library (package \<open>crypto/sha1\<close>, FIPS 180-4), which the info
  hash and every piece check call. It is written out rather than left abstract, so that the
  digest has a length and the verification functions compute on concrete data.
\<close>

unbundle bit_operations_syntax

type_synonym u32 = "32 word"

text \<open>\<open>bits.RotateLeft32\<close>.\<close>

definition rotl32 :: "nat \<Rightarrow> u32 \<Rightarrow> u32" where
  "rotl32 n w = push_bit n w OR drop_bit (32 - n) w"

section \<open>Padding and the message schedule\<close>

definition be64 :: "nat \<Rightarrow> bytes" where
  "be64 n = map (\<lambda>i. of_nat (n div 256 ^ i)) [7, 6, 5, 4, 3, 2, 1, 0]"

definition sha1_pad :: "bytes \<Rightarrow> bytes" where
  "sha1_pad m = m @ [128] @ replicate ((119 - length m mod 64) mod 64) 0 @ be64 (8 * length m)"

fun be_words :: "bytes \<Rightarrow> u32 list" where
  "be_words (a # b # c # d # r) =
     (push_bit 24 (ucast a) OR push_bit 16 (ucast b) OR push_bit 8 (ucast c) OR ucast d) # be_words r"
| "be_words _ = []"

text \<open>The schedule is kept newest word first, so \<open>t - 3\<close> is at index 2.\<close>

fun sha1_extend :: "nat \<Rightarrow> u32 list \<Rightarrow> u32 list" where
  "sha1_extend 0 r = r"
| "sha1_extend (Suc n) r =
     sha1_extend n (rotl32 1 (r ! 2 XOR r ! 7 XOR r ! 13 XOR r ! 15) # r)"

definition sha1_schedule :: "bytes \<Rightarrow> u32 list" where
  "sha1_schedule block = rev (sha1_extend 64 (rev (be_words block)))"

section \<open>Compression\<close>

type_synonym chain = "u32 \<times> u32 \<times> u32 \<times> u32 \<times> u32"

definition sha1_f :: "nat \<Rightarrow> u32 \<Rightarrow> u32 \<Rightarrow> u32 \<Rightarrow> u32" where
  "sha1_f t b c d =
     (if t < 20 then (b AND c) OR (NOT b AND d)
      else if t < 40 then b XOR c XOR d
      else if t < 60 then (b AND c) OR (b AND d) OR (c AND d)
      else b XOR c XOR d)"

definition sha1_k :: "nat \<Rightarrow> u32" where
  "sha1_k t = (if t < 20 then 0x5A827999 else if t < 40 then 0x6ED9EBA1
               else if t < 60 then 0x8F1BBCDC else 0xCA62C1D6)"

fun sha1_rounds :: "nat \<Rightarrow> u32 list \<Rightarrow> chain \<Rightarrow> chain" where
  "sha1_rounds t [] h = h"
| "sha1_rounds t (w # ws) (a, b, c, d, e) =
     sha1_rounds (Suc t) ws
       (rotl32 5 a + sha1_f t b c d + e + sha1_k t + w, a, rotl32 30 b, c, d)"

fun sha1_compress :: "chain \<Rightarrow> bytes \<Rightarrow> chain" where
  "sha1_compress (h0, h1, h2, h3, h4) block =
     (case sha1_rounds 0 (sha1_schedule block) (h0, h1, h2, h3, h4) of
        (a, b, c, d, e) \<Rightarrow> (h0 + a, h1 + b, h2 + c, h3 + d, h4 + e))"

definition sha1_init :: chain where
  "sha1_init = (0x67452301, 0xEFCDAB89, 0x98BADCFE, 0x10325476, 0xC3D2E1F0)"

definition word_bytes :: "u32 \<Rightarrow> bytes" where
  "word_bytes w = [ucast (drop_bit 24 w), ucast (drop_bit 16 w), ucast (drop_bit 8 w), ucast w]"

definition sha1_Sum :: "bytes \<Rightarrow> bytes" where
  "sha1_Sum m =
     (case foldl sha1_compress sha1_init (chunks 64 (sha1_pad m)) of
        (a, b, c, d, e) \<Rightarrow> concat (map word_bytes [a, b, c, d, e]))"

definition sha1_Size :: int where "sha1_Size = 20"

lemma length_sha1_Sum [simp]: "length (sha1_Sum m) = 20"
  by (simp add: sha1_Sum_def word_bytes_def split: prod.splits)

text \<open>The padded message is a whole number of blocks.\<close>

lemma sha1_pad_blocks: "64 dvd length (sha1_pad m)"
proof -
  define k where "k = length m mod 64"
  define q where "q = length m div 64"
  have k: "k < 64" and m: "length m = 64 * q + k" by (simp_all add: k_def q_def)
  have "length (sha1_pad m) = 64 * q + (k + 9 + (119 - k) mod 64)"
    using m by (simp add: sha1_pad_def be64_def k_def)
  moreover have "64 dvd k + 9 + (119 - k) mod 64"
  proof (cases "k < 56")
    case True
    then have "(119 - k) mod 64 = 55 - k" by (simp add: mod_if)
    then show ?thesis using True by simp
  next
    case False
    then have "(119 - k) mod 64 = 119 - k" using k by simp
    then show ?thesis using k by simp
  qed
  ultimately show ?thesis by (metis dvd_add dvd_triv_left)
qed

end
