(* ===== verification/Piece_Geometry.thy ===== *)
theory Piece_Geometry
  imports Sha1
begin

text \<open>
  Package \<open>piece\<close>: which bytes of the torrent a piece owns, how a piece is cut into blocks, and
  whether a buffer is the piece that was promised (\<open>geometry.go\<close>, \<open>verify.go\<close>, \<open>work.go\<close>).
  The offsets are \<open>int64\<close>: every sum and product is wrapped, and a remainder by zero is a
  run-time panic, a value of its own here. The locale \<open>tiling\<close> states what both layers of the
  geometry promise - consecutive, non-empty ranges from 0 to the end - and is interpreted for the
  pieces of a torrent and for the blocks of a piece.
\<close>

section \<open>The code\<close>

definition BlockSize :: int where "BlockSize = 16 * 1024"

datatype geometry_error =
    IndexOutOfRange int int
  | BlockIndexOutOfRange int int
  | DivideByZeroPanic
  | HashSizeError int

type_synonym 'a geom = "(geometry_error, 'a) result"

definition Length :: "int \<Rightarrow> int \<Rightarrow> int \<Rightarrow> int \<Rightarrow> int geom" where
  "Length index pieceCount pieceLength totalLength =
     (if index < 0 \<or> index \<ge> pieceCount then Inl (IndexOutOfRange index pieceCount)
      else if index < i64 (pieceCount - 1) then Inr pieceLength
      else if pieceLength = 0 then Inl DivideByZeroPanic
      else let remainder = totalLength smod pieceLength in
           if remainder = 0 then Inr pieceLength else Inr remainder)"

definition Range_of :: "int \<Rightarrow> int \<Rightarrow> int \<Rightarrow> int \<Rightarrow> (int \<times> int) geom" where
  "Range_of index pieceCount pieceLength totalLength =
     (case Length index pieceCount pieceLength totalLength of
        Inl e \<Rightarrow> Inl e
      | Inr len \<Rightarrow> let start = i64 (index * pieceLength) in Inr (start, i64 (start + len)))"

definition BlockCount :: "int \<Rightarrow> int \<Rightarrow> int \<Rightarrow> int \<Rightarrow> int geom" where
  "BlockCount index pieceCount pieceLength totalLength =
     (case Length index pieceCount pieceLength totalLength of
        Inl e \<Rightarrow> Inl e
      | Inr len \<Rightarrow> Inr (i64 (i64 (len + BlockSize) - 1) sdiv BlockSize))"

definition BlockBounds :: "int \<Rightarrow> int \<Rightarrow> int \<Rightarrow> int \<Rightarrow> int \<Rightarrow> (int \<times> int) geom" where
  "BlockBounds index blockIndex pieceCount pieceLength totalLength =
     (case Length index pieceCount pieceLength totalLength of
        Inl e \<Rightarrow> Inl e
      | Inr pieceLen \<Rightarrow>
          (case BlockCount index pieceCount pieceLength totalLength of
             Inl e \<Rightarrow> Inl e
           | Inr blockCount \<Rightarrow>
               if blockIndex < 0 \<or> blockIndex \<ge> blockCount
               then Inl (BlockIndexOutOfRange blockIndex blockCount)
               else let off = i64 (blockIndex * BlockSize) in
                    if blockIndex = i64 (blockCount - 1) then Inr (off, i64 (pieceLen - off))
                    else Inr (off, BlockSize)))"

definition ExpectedHashSize :: int where "ExpectedHashSize = sha1_Size"

definition Verify :: "bytes \<Rightarrow> bytes \<Rightarrow> bool geom" where
  "Verify buf expectedHash =
     (if int (length expectedHash) \<noteq> ExpectedHashSize
      then Inl (HashSizeError (int (length expectedHash)))
      else Inr (sha1_Sum buf = expectedHash))"

record work =
  Index :: int
  ExpectedHash :: bytes
  WLength :: int

record work_progress =
  Work :: work
  Buffer :: bytes
  Downloaded :: int
  Requested :: int
  Backlog :: int

section \<open>Consecutive ranges\<close>

text \<open>
  A family of ranges \<open>[lo g i, hi g i)\<close> for \<open>0 \<le> i < count g\<close>, one after the other from 0 to
  \<open>total g\<close>. The parameter \<open>g\<close> is the geometry and \<open>valid\<close> says which ones the code is used on.
\<close>

locale tiling =
  fixes valid :: "'g \<Rightarrow> bool" and count :: "'g \<Rightarrow> int" and total :: "'g \<Rightarrow> int"
    and lo :: "'g \<Rightarrow> int \<Rightarrow> int" and hi :: "'g \<Rightarrow> int \<Rightarrow> int"
  assumes count_pos: "valid g \<Longrightarrow> 0 < count g"
    and first: "valid g \<Longrightarrow> lo g 0 = 0"
    and adjacent: "valid g \<Longrightarrow> 0 \<le> i \<Longrightarrow> i + 1 < count g \<Longrightarrow> hi g i = lo g (i + 1)"
    and last: "valid g \<Longrightarrow> hi g (count g - 1) = total g"
    and nonempty: "valid g \<Longrightarrow> 0 \<le> i \<Longrightarrow> i < count g \<Longrightarrow> lo g i < hi g i"
begin

lemma lo_step: "valid g \<Longrightarrow> 0 \<le> i \<Longrightarrow> i + 1 < count g \<Longrightarrow> lo g i < lo g (i + 1)"
  using adjacent [of g i] nonempty [of g i] by simp

lemma hi_le_lo:
  assumes "valid g" "0 \<le> i" "i < j" "j < count g"
  shows "hi g i \<le> lo g j"
  using \<open>i < j\<close> assms(4)
proof (induction j rule: int_gr_induct)
  case base
  then show ?case using adjacent [of g i] assms(1,2) by simp
next
  case (step j)
  then have "hi g i \<le> lo g j" by simp
  then show ?case using lo_step [of g j] step assms(1,2) by simp
qed

lemma disjoint:
  assumes "valid g" "0 \<le> i" "i < count g" "0 \<le> j" "j < count g" "i \<noteq> j"
  shows "hi g i \<le> lo g j \<or> hi g j \<le> lo g i"
  using hi_le_lo [of g i j] hi_le_lo [of g j i] assms by (cases "i < j") auto

lemma lo_nonneg:
  assumes "valid g" "0 \<le> i" "i < count g"
  shows "0 \<le> lo g i"
proof (cases "i = 0")
  case True then show ?thesis using first assms by simp
next
  case False
  then have "hi g 0 \<le> lo g i" using assms hi_le_lo [of g 0 i] by simp
  then show ?thesis using nonempty [of g 0] first [of g] count_pos [of g] assms by simp
qed

lemma hi_le_total:
  assumes "valid g" "0 \<le> i" "i < count g"
  shows "hi g i \<le> total g"
proof (cases "i = count g - 1")
  case True then show ?thesis using last assms by simp
next
  case False
  then have "hi g i \<le> lo g (count g - 1)" using assms hi_le_lo [of g i "count g - 1"] by simp
  moreover have "lo g (count g - 1) < total g"
    using nonempty [of g "count g - 1"] last [of g] count_pos [of g] assms by simp
  ultimately show ?thesis by simp
qed

lemma covered_below:
  assumes "valid g" "0 \<le> x" "0 \<le> n" "n < count g" "x < hi g n"
  shows "\<exists>i. 0 \<le> i \<and> i \<le> n \<and> lo g i \<le> x \<and> x < hi g i"
  using assms(3-)
proof (induction n rule: int_ge_induct)
  case base
  then show ?case using first assms(1,2) by (intro exI [of _ 0]) auto
next
  case (step n)
  show ?case
  proof (cases "x < hi g n")
    case True
    then obtain i where "0 \<le> i \<and> i \<le> n \<and> lo g i \<le> x \<and> x < hi g i" using step by auto
    then show ?thesis by (intro exI [of _ i]) auto
  next
    case False
    then show ?thesis using step adjacent [of g n] assms(1) by (intro exI [of _ "n + 1"]) auto
  qed
qed

lemma covered:
  assumes "valid g" "0 \<le> x" "x < total g"
  shows "\<exists>!i. 0 \<le> i \<and> i < count g \<and> lo g i \<le> x \<and> x < hi g i"
proof -
  obtain i where i: "0 \<le> i" "i \<le> count g - 1" "lo g i \<le> x" "x < hi g i"
    using covered_below [of g x "count g - 1"] assms last [of g] count_pos [of g] by auto
  show ?thesis
  proof (rule ex1I [of _ i])
    show "0 \<le> i \<and> i < count g \<and> lo g i \<le> x \<and> x < hi g i" using i by auto
  next
    fix j assume j: "0 \<le> j \<and> j < count g \<and> lo g j \<le> x \<and> x < hi g j"
    show "j = i" using disjoint [of g i j] assms(1) i j by fastforce
  qed
qed

lemma sum_below:
  assumes "valid g" "0 \<le> n" "n < count g"
  shows "(\<Sum>i = 0..n. hi g i - lo g i) = hi g n"
  using assms(2,3)
proof (induction n rule: int_ge_induct)
  case base
  then show ?case using first assms(1) by simp
next
  case (step n)
  have "{0..n + 1} = insert (n + 1) {0..n}" using step by auto
  then have "(\<Sum>i = 0..n + 1. hi g i - lo g i) = (hi g (n + 1) - lo g (n + 1)) + hi g n"
    using step by simp
  then show ?case using adjacent [of g n] step assms(1) by simp
qed

lemma sum_lengths: "valid g \<Longrightarrow> (\<Sum>i = 0..<count g. hi g i - lo g i) = total g"
  using sum_below [of g "count g - 1"] last [of g] count_pos [of g]
  by (simp add: atLeastLessThanPlusOne_atLeastAtMost_int [symmetric])

end

section \<open>The pieces of a torrent\<close>

text \<open>
  The geometry a torrent fixes: piece count, piece length, total length. It is well formed when
  the piece count is the number of pieces the total length needs, which \<open>metainfo.validate\<close> checks.
\<close>

type_synonym geometry = "int \<times> int \<times> int"

fun geometry_ok :: "geometry \<Rightarrow> bool" where
  "geometry_ok (pc, pl, tot) \<longleftrightarrow>
     0 < pl \<and> pl < 2 ^ 63 \<and> 0 < tot \<and> tot < 2 ^ 63 \<and> pc = (tot + pl - 1) div pl"

fun ok_or :: "'a \<Rightarrow> 'a geom \<Rightarrow> 'a" where
  "ok_or d (Inr v) = v"
| "ok_or d (Inl e) = d"

definition piece_lo :: "geometry \<Rightarrow> int \<Rightarrow> int" where
  "piece_lo g i = (case g of (pc, pl, tot) \<Rightarrow> fst (ok_or (0, 0) (Range_of i pc pl tot)))"

definition piece_hi :: "geometry \<Rightarrow> int \<Rightarrow> int" where
  "piece_hi g i = (case g of (pc, pl, tot) \<Rightarrow> snd (ok_or (0, 0) (Range_of i pc pl tot)))"

lemma ceil_bounds:
  assumes "0 < pl" "0 < (tot :: int)" "pc = (tot + pl - 1) div pl"
  shows "0 < pc" "(pc - 1) * pl < tot" "tot \<le> pc * pl"
proof -
  have m: "tot + pl - 1 = pl * pc + (tot + pl - 1) mod pl" by (simp add: assms(3))
  have r: "0 \<le> (tot + pl - 1) mod pl" "(tot + pl - 1) mod pl < pl" using assms(1) by simp_all
  show "(pc - 1) * pl < tot" using m r by (simp add: algebra_simps)
  show "tot \<le> pc * pl" using m r by (simp add: algebra_simps)
  show "0 < pc" using assms by (simp add: pos_imp_zdiv_pos_iff)
qed

lemma last_piece_length:
  assumes "geometry_ok (pc, pl, tot)"
  shows "(if tot mod pl = 0 then pl else tot mod pl) = tot - (pc - 1) * pl"
proof -
  have c: "(pc - 1) * pl < tot" "tot \<le> pc * pl" using ceil_bounds assms by auto
  let ?r = "tot - (pc - 1) * pl"
  have r: "0 < ?r" "?r \<le> pl" using c by (simp_all add: algebra_simps)
  have t: "tot = ?r + (pc - 1) * pl" by simp
  have "tot mod pl = ?r mod pl" by (subst t) (simp only: mod_mult_self1)
  then show ?thesis using r by (cases "?r = pl") (simp_all add: mod_pos_pos_trivial)
qed

text \<open>On a well-formed geometry nothing wraps, and \<open>Length\<close> and \<open>Range\<close> are the plain formulas.\<close>

lemma piece_start_bound:
  assumes "geometry_ok (pc, pl, tot)" "0 \<le> i" "i < pc"
  shows "0 \<le> i * pl" "i * pl < tot" "i * pl \<le> (pc - 1) * pl" "0 < pc" "pc < 2 ^ 63"
proof -
  note c = ceil_bounds [of pl tot pc]
  have p: "0 < pl" "0 < tot" "tot < 2 ^ 63" "pc = (tot + pl - 1) div pl" using assms by auto
  show "0 \<le> i * pl" using assms p by simp
  show "i * pl \<le> (pc - 1) * pl" using assms p by (intro mult_right_mono) auto
  then show "i * pl < tot" using c(2) [OF p(1,2,4)] by linarith
  show "0 < pc" using c(1) p by simp
  have "(pc - 1) * 1 \<le> (pc - 1) * pl" using \<open>0 < pc\<close> p by (intro mult_left_mono) auto
  then have "pc - 1 < tot" using c(2) [OF p(1,2,4)] by (simp only: mult_1_right)
  then show "pc < 2 ^ 63" using p(3) by simp
qed

lemma Length_ok:
  assumes g: "geometry_ok (pc, pl, tot)" and i: "0 \<le> i" "i < pc"
  shows "Length i pc pl tot = Inr (if i = pc - 1 then tot - i * pl else pl)"
proof -
  have b: "0 < pc" "pc < 2 ^ 63" using piece_start_bound [OF assms] by simp_all
  then have w: "i64 (pc - 1) = pc - 1" by (intro i64_id) auto
  have p: "0 < pl" "0 < tot" using g by auto
  have "Length i pc pl tot =
      Inr (if i = pc - 1 then (if tot mod pl = 0 then pl else tot mod pl) else pl)"
    using i p by (auto simp: Length_def w Let_def smod_nonneg)
  then show ?thesis using last_piece_length [OF g] by simp
qed

lemma Range_ok:
  assumes g: "geometry_ok (pc, pl, tot)" and i: "0 \<le> i" "i < pc"
  shows "Range_of i pc pl tot = Inr (i * pl, if i = pc - 1 then tot else (i + 1) * pl)"
proof -
  note b = piece_start_bound [OF assms]
  have t: "tot < 2 ^ 63" "0 < pl" using g by auto
  have w: "i64 (i * pl) = i * pl" using b(1,2) t by (intro i64_id) auto
  show ?thesis
  proof (cases "i = pc - 1")
    case True
    have "i64 (i * pl + (tot - i * pl)) = tot" using t b(1,2) by (subst i64_id) auto
    then show ?thesis 
      unfolding Range_of_def Length_ok [OF assms] w Let_def using True by simp
  next
    case False
    then have "i + 1 < pc" using i by simp
    then have "(i + 1) * pl < tot" using piece_start_bound(2) [OF g, of "i + 1"] i by simp
    then have "i64 (i * pl + pl) = (i + 1) * pl"
      using t b(1) by (subst i64_id) (auto simp: algebra_simps)
    then show ?thesis using False by (simp add: Range_of_def Length_ok [OF assms] w Let_def)
  qed
qed

lemma piece_lo_hi:
  assumes "geometry_ok (pc, pl, tot)" "0 \<le> i" "i < pc"
  shows "piece_lo (pc, pl, tot) i = i * pl"
    and "piece_hi (pc, pl, tot) i = (if i = pc - 1 then tot else (i + 1) * pl)"
  using Range_ok [OF assms] by (simp_all add: piece_lo_def piece_hi_def)

interpretation pieces: tiling geometry_ok fst "\<lambda>g. snd (snd g)" piece_lo piece_hi
proof (unfold_locales, goal_cases)
  case (1 g) then show ?case by (cases g) (auto intro: ceil_bounds)
next
  case (2 g)
  then show ?case
    using piece_lo_hi(1) [of "fst g" "fst (snd g)" "snd (snd g)" 0]
      ceil_bounds(1) [of "fst (snd g)" "snd (snd g)" "fst g"] by (cases g) auto
next
  case (3 g i)
  then show ?case
    using piece_lo_hi [of "fst g" "fst (snd g)" "snd (snd g)" i]
      piece_lo_hi [of "fst g" "fst (snd g)" "snd (snd g)" "i + 1"] by (cases g) auto
next
  case (4 g)
  then show ?case
    using piece_lo_hi(2) [of "fst g" "fst (snd g)" "snd (snd g)" "fst g - 1"]
      ceil_bounds(1) [of "fst (snd g)" "snd (snd g)" "fst g"] by (cases g) auto
next
  case (5 g i)
  then show ?case
    using piece_lo_hi [of "fst g" "fst (snd g)" "snd (snd g)" i]
      piece_start_bound(2) [of "fst g" "fst (snd g)" "snd (snd g)" i]
    by (cases g) (auto simp: algebra_simps)
qed

declare geometry_ok.simps [simp del]

section \<open>The blocks of a piece\<close>

text \<open>
  A block geometry adds the piece index. \<open>BlockCount\<close> adds \<open>BlockSize\<close> to the piece length, so
  the length has to stay one block below the end of the \<open>int64\<close> range.
\<close>

type_synonym block_geometry = "int \<times> geometry"

definition piece_len :: "int \<Rightarrow> geometry \<Rightarrow> int" where
  "piece_len i g = (case g of (pc, pl, tot) \<Rightarrow> ok_or 0 (Length i pc pl tot))"

fun block_geometry_ok :: "block_geometry \<Rightarrow> bool" where
  "block_geometry_ok (i, g) \<longleftrightarrow>
     geometry_ok g \<and> 0 \<le> i \<and> i < fst g \<and> piece_len i g + BlockSize \<le> 2 ^ 63"

definition block_count :: "block_geometry \<Rightarrow> int" where
  "block_count b = (case b of (i, pc, pl, tot) \<Rightarrow> ok_or 0 (BlockCount i pc pl tot))"

definition block_lo :: "block_geometry \<Rightarrow> int \<Rightarrow> int" where
  "block_lo b k = (case b of (i, pc, pl, tot) \<Rightarrow> fst (ok_or (0, 0) (BlockBounds i k pc pl tot)))"

definition block_hi :: "block_geometry \<Rightarrow> int \<Rightarrow> int" where
  "block_hi b k = (case b of (i, pc, pl, tot) \<Rightarrow>
     (case ok_or (0, 0) (BlockBounds i k pc pl tot) of (off, len) \<Rightarrow> off + len))"

lemma Length_piece_len:
  assumes "geometry_ok (pc, pl, tot)" "0 \<le> i" "i < pc"
  shows "Length i pc pl tot = Inr (piece_len i (pc, pl, tot))"
    and "0 < piece_len i (pc, pl, tot)" "piece_len i (pc, pl, tot) \<le> pl"
    and "i * pl + piece_len i (pc, pl, tot) \<le> tot"
proof -
  show L: "Length i pc pl tot = Inr (piece_len i (pc, pl, tot))"
    using Length_ok [OF assms] by (simp add: piece_len_def)
  have e: "piece_len i (pc, pl, tot) = (if i = pc - 1 then tot - i * pl else pl)"
    using Length_ok [OF assms] by (simp add: piece_len_def)
  note b = piece_start_bound [OF assms]
  have g: "0 < pl" "0 < tot" "pc = (tot + pl - 1) div pl"
    using assms(1) by (simp_all add: geometry_ok.simps)
  have c: "tot \<le> pc * pl" "(pc - 1) * pl < tot" using ceil_bounds(2,3) [OF g] by simp_all
  show "0 < piece_len i (pc, pl, tot)" using e b g by (cases "i = pc - 1") auto
  show "piece_len i (pc, pl, tot) \<le> pl"
    using e c by (cases "i = pc - 1") (auto simp: algebra_simps)
  show "i * pl + piece_len i (pc, pl, tot) \<le> tot"
  proof (cases "i = pc - 1")
    case False
    then have "(i + 1) * pl \<le> (pc - 1) * pl" using False assms(3) g by (intro mult_right_mono) auto
    then have "i * pl + pl \<le> (pc - 1) * pl" by (simp only: distrib_right mult_1_left)
    then show ?thesis using False e c(2) by simp
  qed (use e in simp)
qed

lemma piece_hi_len:
  assumes "geometry_ok (pc, pl, tot)" "0 \<le> i" "i < pc"
  shows "piece_hi (pc, pl, tot) i = piece_lo (pc, pl, tot) i + piece_len i (pc, pl, tot)"
  using Length_ok [OF assms] piece_lo_hi [OF assms]
  by (simp add: piece_len_def algebra_simps)

lemma BlockCount_ok:
  assumes "block_geometry_ok (i, pc, pl, tot)"
  defines "n \<equiv> piece_len i (pc, pl, tot)"
  shows "BlockCount i pc pl tot = Inr ((n + BlockSize - 1) div BlockSize)"
proof -
  have g: "geometry_ok (pc, pl, tot)" "0 \<le> i" "i < pc" "n + BlockSize \<le> 2 ^ 63"
    using assms by simp_all
  have n: "0 < n" using Length_piece_len(2) [OF g(1-3)] by (simp add: n_def)
  have "i64 (i64 (n + BlockSize) - 1) = n + BlockSize - 1"
  proof (cases "n + BlockSize = 2 ^ 63")
    case True then show ?thesis by (simp add: i64_def)
  next
    case False
    then show ?thesis using g(4) n by (simp add: i64_id BlockSize_def)
  qed
  then show ?thesis
    using n unfolding BlockCount_def Length_piece_len(1) [OF g(1-3)] n_def [symmetric]
    by (simp add: sdiv_nonneg BlockSize_def)
qed

lemma BlockBounds_ok:
  assumes "block_geometry_ok (i, pc, pl, tot)"
  defines "n \<equiv> piece_len i (pc, pl, tot)"
  defines "c \<equiv> (n + BlockSize - 1) div BlockSize"
  assumes k: "0 \<le> k" "k < c"
  shows "BlockBounds i k pc pl tot =
    Inr (k * BlockSize, if k = c - 1 then n - k * BlockSize else BlockSize)"
proof -
  have g: "geometry_ok (pc, pl, tot)" "0 \<le> i" "i < pc" "n + BlockSize \<le> 2 ^ 63"
    using assms(1) by (simp_all add: n_def)
  have n: "0 < n" using Length_piece_len(2) [OF g(1-3)] by (simp add: n_def)
  have b: "0 < c" "(c - 1) * BlockSize < n" "n \<le> c * BlockSize"
    using ceil_bounds [of BlockSize n c] n by (simp_all add: c_def BlockSize_def)
  have "k * BlockSize \<le> (c - 1) * BlockSize" using k by (intro mult_right_mono) (auto simp: BlockSize_def)
  then have kb: "0 \<le> k * BlockSize" "k * BlockSize < n" using k b by (simp_all add: BlockSize_def)
  have w: "i64 (k * BlockSize) = k * BlockSize" "i64 (n - k * BlockSize) = n - k * BlockSize"
    using kb g(4) by (auto intro!: i64_id simp: BlockSize_def)
  have "i64 (c - 1) = c - 1" using b g(4) by (intro i64_id) (auto simp: BlockSize_def)
  then show ?thesis
    unfolding BlockBounds_def BlockCount_ok [OF assms(1)] Length_piece_len(1) [OF g(1-3)]
      n_def [symmetric] c_def [symmetric] sum.case Let_def w
    using k by simp
qed

lemma block_lo_hi:
  assumes "block_geometry_ok b" "0 \<le> k" "k < block_count b"
  shows "block_lo b k = k * BlockSize"
    and "block_hi b k = (if k = block_count b - 1 then piece_len (fst b) (snd b) else (k + 1) * BlockSize)"
proof -
  obtain i pc pl tot where b: "b = (i, pc, pl, tot)" by (cases b) auto
  have c: "block_count b = (piece_len i (pc, pl, tot) + BlockSize - 1) div BlockSize"
    using BlockCount_ok assms(1) unfolding b block_count_def by simp
  have "BlockBounds i k pc pl tot = Inr (k * BlockSize,
      if k = block_count b - 1 then piece_len i (pc, pl, tot) - k * BlockSize else BlockSize)"
    using assms c unfolding b by (simp only: BlockBounds_ok)
  then show "block_lo b k = k * BlockSize"
    "block_hi b k = (if k = block_count b - 1 then piece_len (fst b) (snd b) else (k + 1) * BlockSize)"
    by (simp_all add: b block_lo_def block_hi_def algebra_simps)
qed

lemma block_count_bounds:
  assumes "block_geometry_ok b"
  shows "0 < block_count b" "(block_count b - 1) * BlockSize < piece_len (fst b) (snd b)"
    and "piece_len (fst b) (snd b) \<le> block_count b * BlockSize"
proof -
  obtain i pc pl tot where b: "b = (i, pc, pl, tot)" by (cases b) auto
  have c: "block_count b = (piece_len i (pc, pl, tot) + BlockSize - 1) div BlockSize"
    using BlockCount_ok assms(1) unfolding b block_count_def by simp
  have "0 < piece_len i (pc, pl, tot)" using assms Length_piece_len(2) unfolding b by simp
  then show "0 < block_count b" "(block_count b - 1) * BlockSize < piece_len (fst b) (snd b)"
    "piece_len (fst b) (snd b) \<le> block_count b * BlockSize"
    using ceil_bounds [OF _ _ c] by (simp_all add: b BlockSize_def)
qed

interpretation blocks: tiling block_geometry_ok block_count "\<lambda>b. piece_len (fst b) (snd b)"
  block_lo block_hi
proof (unfold_locales, goal_cases)
  case (1 b) then show ?case by (rule block_count_bounds)
next
  case (2 b) then show ?case using block_lo_hi(1) block_count_bounds(1) by simp
next
  case (3 b k) then show ?case using block_lo_hi [of b k] block_lo_hi [of b "k + 1"] by simp
next
  case (4 b) then show ?case using block_lo_hi(2) [of b "block_count b - 1"] block_count_bounds(1) by simp
next
  case (5 b k)
  then show ?case
    using block_lo_hi [of b k] block_count_bounds(2) [of b] by (auto simp: BlockSize_def)
qed

section \<open>Properties\<close>

text \<open>
  C35. On every well-formed geometry the ranges \<open>Range\<close> returns tile the file: each piece index has
  a range, every byte offset below the total length lies in exactly one of them, and their
  lengths add up to the total length. No \<open>int64\<close> operation wraps on the way.
\<close>

theorem pieces_tile_the_file:
  assumes "geometry_ok (pc, pl, tot)"
  shows "(\<forall>i. 0 \<le> i \<and> i < pc \<longrightarrow> Range_of i pc pl tot =
             Inr (piece_lo (pc, pl, tot) i, piece_hi (pc, pl, tot) i)) \<and>
         (\<forall>x. 0 \<le> x \<and> x < tot \<longrightarrow>
             (\<exists>!i. 0 \<le> i \<and> i < pc \<and> piece_lo (pc, pl, tot) i \<le> x \<and> x < piece_hi (pc, pl, tot) i)) \<and>
         (\<Sum>i = 0..<pc. piece_hi (pc, pl, tot) i - piece_lo (pc, pl, tot) i) = tot"
  using assms pieces.covered [OF assms] pieces.sum_lengths [OF assms]
  by (auto simp: Range_ok piece_lo_hi)

theorem pieces_tile_the_file_witness:
  "(\<exists>!i. 0 \<le> i \<and> i < 5 \<and> piece_lo (5, 16, 70) i \<le> 69 \<and> 69 < piece_hi (5, 16, 70) i) \<and>
   Range_of 4 5 16 70 = Inr (64, 70)"
  using pieces_tile_the_file [of 5 16 70]
  by (simp add: geometry_ok.simps Range_of_def Length_def i64_def smod_nonneg)

text \<open>
  C36. The blocks \<open>BlockBounds\<close> returns tile the piece: every offset of the piece lies in exactly
  one block, the block lengths add up to the piece length, and no block is empty or longer than
  \<open>BlockSize\<close>.
\<close>

theorem blocks_tile_the_piece:
  assumes "block_geometry_ok (i, pc, pl, tot)"
  shows "(\<forall>x. 0 \<le> x \<and> x < piece_len i (pc, pl, tot) \<longrightarrow>
            (\<exists>!k. 0 \<le> k \<and> k < block_count (i, pc, pl, tot) \<and>
                  block_lo (i, pc, pl, tot) k \<le> x \<and> x < block_hi (i, pc, pl, tot) k)) \<and>
         (\<Sum>k = 0..<block_count (i, pc, pl, tot).
            block_hi (i, pc, pl, tot) k - block_lo (i, pc, pl, tot) k) = piece_len i (pc, pl, tot) \<and>
         (\<forall>k. 0 \<le> k \<and> k < block_count (i, pc, pl, tot) \<longrightarrow>
            (\<exists>off len. BlockBounds i k pc pl tot = Inr (off, len) \<and> 0 < len \<and> len \<le> BlockSize))"
proof (intro conjI allI impI)
  fix x assume "0 \<le> x \<and> x < piece_len i (pc, pl, tot)"
  then show "\<exists>!k. 0 \<le> k \<and> k < block_count (i, pc, pl, tot) \<and>
                  block_lo (i, pc, pl, tot) k \<le> x \<and> x < block_hi (i, pc, pl, tot) k"
    using blocks.covered [OF assms, of x] by simp
next
  show "(\<Sum>k = 0..<block_count (i, pc, pl, tot).
            block_hi (i, pc, pl, tot) k - block_lo (i, pc, pl, tot) k) = piece_len i (pc, pl, tot)"
    using blocks.sum_lengths [OF assms] by simp
next
  fix k assume k: "0 \<le> k \<and> k < block_count (i, pc, pl, tot)"
  have c: "block_count (i, pc, pl, tot) = (piece_len i (pc, pl, tot) + BlockSize - 1) div BlockSize"
    using BlockCount_ok [OF assms] by (simp add: block_count_def)
  note e = BlockBounds_ok [OF assms, folded c, OF conjunct1 [OF k] conjunct2 [OF k]]
  note b = block_count_bounds [OF assms, simplified fst_conv snd_conv]
  show "\<exists>off len. BlockBounds i k pc pl tot = Inr (off, len) \<and> 0 < len \<and> len \<le> BlockSize"
    using e b(2,3) by (auto simp: BlockSize_def)
qed

theorem blocks_tile_the_piece_witness:
  "\<exists>off len. BlockBounds 1 2 2 65536 (65536 + 40000) = Inr (off, len) \<and> 0 < len \<and> len \<le> BlockSize"
proof -
  have "block_geometry_ok (1, 2, 65536, 65536 + 40000)"
    by (simp add: geometry_ok.simps piece_len_def Length_def i64_def smod_nonneg BlockSize_def)
  moreover have "(2::int) < block_count (1, 2, 65536, 65536 + 40000)"
    by (simp add: block_count_def BlockCount_def Length_def i64_def smod_nonneg BlockSize_def sdiv_nonneg)
  ultimately show ?thesis
    using blocks_tile_the_piece [of 1 2 65536 "65536 + 40000"] by simp
qed

end
