(* ===== verification/Coordinator.thy ===== *)
theory Coordinator
  imports Rates Bitfield Piece_Geometry "HOL-Library.Monad_Syntax"
begin

text \<open>
  Package \<open>download\<close>, the coordinator: the single owner of the download's state
  (\<open>coordinator.go\<close>, \<open>availability.go\<close>, \<open>selection.go\<close>, \<open>endgame.go\<close>, \<open>choke.go\<close>, \<open>events.go\<close>). One definition
  per handler and per timer; an operation that can panic (an index outside a slice, a division by
  zero) returns an option, \<open>None\<close> being the panic.

  Three things outside the struct are part of the state because the handlers read or change them:
  the command channels (each with room for one command), the byte slices bitfields live in - Go
  slices are shared, and the coordinator keeps the very slice a session keeps - and the results
  handed to the main loop. What the run time decides is an argument: the clock, the order a Go map
  is iterated in, the random draws, and whether a send to the results channel happened before the
  context was cancelled.
\<close>

section \<open>Data (\<open>events.go\<close>, \<open>coordinator.go\<close>)\<close>

datatype piece_state = pieceMissing | pieceInFlight | pieceComplete

datatype command =
    AssignPiece int int bytes
  | CancelPiece int
  | Pause
  | Shutdown
  | ChokePeer
  | UnchokePeer

text \<open>A bitfield is passed as a reference to its slice; the reason of a failure is only logged.\<close>

datatype 'a event =
    PeerJoined 'a nat
  | BitfieldReceived 'a nat
  | HaveReceived 'a int
  | PieceDownloaded 'a int bytes
  | PieceFailed 'a int
  | PeerReady 'a
  | PeerLeft 'a
  | InterestedReceived 'a
  | NotInterestedReceived 'a
  | ChokeReceived 'a
  | UnchokeReceived 'a

record peer_info =
  commands :: nat
  phave :: nat
  assigned :: int
  interested :: bool
  choked :: bool
  peerChoking :: bool
  gotBitfield :: bool

record 'a assignment =
  aaddr :: 'a
  aat :: int

type_synonym piece_result = "int \<times> bytes"

record 'a coordinator =
  pieceCount :: int
  pieceLength :: int
  totalLength :: int
  pieceHashes :: "bytes list"
  pieces :: "piece_state list"
  availability :: "int list"
  peers :: "'a \<rightharpoonup> peer_info"
  assignments :: "int \<rightharpoonup> 'a assignment list"
  endgame :: bool
  cprogress :: "progress option"
  crates :: "'a rates option"
  optimisticAddr :: "'a option"
  hasOptimistic :: bool
  chans :: "nat \<Rightarrow> command list"
  slices :: "nat \<Rightarrow> bitfield"
  nextSlice :: nat
  results :: "piece_result list"

definition assignmentTimeout :: int where "assignmentTimeout = 30 * Second"
definition endgameThreshold :: int where "endgameThreshold = 10"
definition unchokeSlots :: nat where "unchokeSlots = 4"

definition NewCoordinator :: "int \<Rightarrow> int \<Rightarrow> int \<Rightarrow> bytes list \<Rightarrow> progress option \<Rightarrow> 'a rates option \<Rightarrow>
    (nat \<Rightarrow> bitfield) \<Rightarrow> nat \<Rightarrow> 'a coordinator" where
  "NewCoordinator n pl tot hashes prog rts sl nxt =
     \<lparr>pieceCount = n, pieceLength = pl, totalLength = tot, pieceHashes = hashes,
      pieces = replicate (nat n) pieceMissing, availability = replicate (nat n) 0,
      peers = Map.empty, assignments = Map.empty, endgame = False, cprogress = prog, crates = rts,
      optimisticAddr = None, hasOptimistic = False, chans = (\<lambda>_. []), slices = sl, nextSlice = nxt,
      results = []\<rparr>"

text \<open>A Go loop over a list whose body can panic.\<close>

fun each :: "('x \<Rightarrow> 's \<Rightarrow> 's option) \<Rightarrow> 'x list \<Rightarrow> 's \<Rightarrow> 's option" where
  "each f [] s = Some s"
| "each f (x # xs) s = f x s \<bind> each f xs"

text \<open>
  The pieces a map entry or slice index refers to: reading a missing map key gives the zero value
  (no assignees); writing through a \<open>*peerInfo\<close> changes the entry of the map.
\<close>

definition assignees :: "'a coordinator \<Rightarrow> int \<Rightarrow> 'a assignment list" where
  "assignees c i = (case assignments c i of None \<Rightarrow> [] | Some l \<Rightarrow> l)"

definition upd_peer :: "'a \<Rightarrow> (peer_info \<Rightarrow> peer_info) \<Rightarrow> 'a coordinator \<Rightarrow> 'a coordinator" where
  "upd_peer a f c = c\<lparr>peers := (peers c)(a := map_option f (peers c a))\<rparr>"

definition index_ok :: "int \<Rightarrow> 'x list \<Rightarrow> bool" where
  "index_ok i xs \<longleftrightarrow> 0 \<le> i \<and> i < int (length xs)"

definition set_piece :: "int \<Rightarrow> piece_state \<Rightarrow> 'a coordinator \<Rightarrow> 'a coordinator option" where
  "set_piece i s c = (if index_ok i (pieces c) then Some (c\<lparr>pieces := (pieces c)[nat i := s]\<rparr>) else None)"

text \<open>The non-blocking send of every command: it succeeds when the channel is empty.\<close>

definition chan_send :: "nat \<Rightarrow> command \<Rightarrow> 'a coordinator \<Rightarrow> 'a coordinator option" where
  "chan_send k cmd c = (if chans c k = [] then Some (c\<lparr>chans := (chans c)(k := [cmd])\<rparr>) else None)"

section \<open>Availability (\<open>availability.go\<close>)\<close>

definition incAvailability :: "int \<Rightarrow> 'a coordinator \<Rightarrow> 'a coordinator option" where
  "incAvailability i c =
     (if index_ok i (availability c)
      then Some (c\<lparr>availability := (availability c)[nat i := availability c ! nat i + 1]\<rparr>) else None)"

definition decAvailability :: "int \<Rightarrow> 'a coordinator \<Rightarrow> 'a coordinator option" where
  "decAvailability i c =
     (if index_ok i (availability c)
      then Some (c\<lparr>availability := (availability c)[nat i := availability c ! nat i - 1]\<rparr>) else None)"

definition addAvailability :: "bitfield \<Rightarrow> 'a coordinator \<Rightarrow> 'a coordinator option" where
  "addAvailability bf c =
     each (\<lambda>i c. if HasPiece bf i then incAvailability i c else Some c) [0..pieceCount c - 1] c"

definition removeAvailability :: "bitfield \<Rightarrow> 'a coordinator \<Rightarrow> 'a coordinator option" where
  "removeAvailability bf c =
     each (\<lambda>i c. if HasPiece bf i then decAvailability i c else Some c) [0..pieceCount c - 1] c"

section \<open>Piece selection (\<open>selection.go\<close>)\<close>

text \<open>
  One iteration of the scan; the state is \<open>best\<close>, \<open>bestAvailability\<close>, \<open>ties\<close>. \<open>coin i\<close> says whether
  \<open>rand.IntN(ties)\<close> is 0 when piece \<open>i\<close> ties with the best.
\<close>

definition select_step :: "(int \<Rightarrow> bool) \<Rightarrow> bitfield \<Rightarrow> 'a coordinator \<Rightarrow> int \<Rightarrow> int \<times> int \<times> int \<Rightarrow>
    int \<times> int \<times> int" where
  "select_step coin bf c i st =
     (case st of (best, bestAvailability, ties) \<Rightarrow>
        if pieces c ! nat i \<noteq> pieceMissing \<or> \<not> HasPiece bf i then st
        else if best = -1 \<or> availability c ! nat i < bestAvailability then (i, availability c ! nat i, 1)
        else if availability c ! nat i = bestAvailability
          then (if coin i then i else best, bestAvailability, ties + 1)
        else st)"

definition selectPieceFor :: "(int \<Rightarrow> bool) \<Rightarrow> bitfield \<Rightarrow> 'a coordinator \<Rightarrow> int option" where
  "selectPieceFor coin bf c =
     (case fold (select_step coin bf c) [0..pieceCount c - 1] (-1, 0, 0) of
        (best, _, _) \<Rightarrow> if best = -1 then None else Some best)"

definition sendAssignCommand :: "int \<Rightarrow> 'a \<Rightarrow> peer_info \<Rightarrow> int \<Rightarrow> 'a coordinator \<Rightarrow>
    (bool \<times> 'a coordinator) option" where
  "sendAssignCommand now a p index c =
     (case Length index (pieceCount c) (pieceLength c) (totalLength c) of
        Inl DivideByZeroPanic \<Rightarrow> None
      | Inl _ \<Rightarrow> Some (False, c)
      | Inr len \<Rightarrow>
          if \<not> index_ok index (pieceHashes c) then None
          else (case chan_send (commands p) (AssignPiece index len (pieceHashes c ! nat index)) c of
                  None \<Rightarrow> Some (False, c)
                | Some c1 \<Rightarrow> do {
                    c2 \<leftarrow> set_piece index pieceInFlight c1;
                    Some (True, c2\<lparr>assignments := (assignments c2)
                      (index \<mapsto> assignees c2 index @ [\<lparr>aaddr = a, aat = now\<rparr>])\<rparr>)
                  }))"

definition assignPiece :: "int \<Rightarrow> 'a \<Rightarrow> peer_info \<Rightarrow> int \<Rightarrow> 'a coordinator \<Rightarrow> 'a coordinator option" where
  "assignPiece now a p index c = do {
     (ok, c1) \<leftarrow> sendAssignCommand now a p index c;
     Some (if ok then upd_peer a (assigned_update (\<lambda>_. index)) c1 else c1)
   }"

text \<open>One piece of \<open>freeStaleAssignments\<close>: the inner loop resets the peers whose assignment is stale.\<close>

definition reset_assigned :: "'a \<Rightarrow> int \<Rightarrow> 'a coordinator \<Rightarrow> 'a coordinator" where
  "reset_assigned a index c =
     upd_peer a (\<lambda>p. if assigned p = index then p\<lparr>assigned := -1\<rparr> else p) c"

definition free_stale :: "int \<Rightarrow> int \<Rightarrow> 'a coordinator \<Rightarrow> 'a coordinator option" where
  "free_stale now index c =
     (let as = assignees c index;
          kept = filter (\<lambda>x. now - aat x < assignmentTimeout) as;
          c1 = fold (\<lambda>x. reset_assigned (aaddr x) index) (filter (\<lambda>x. \<not> now - aat x < assignmentTimeout) as) c
      in if length kept = length as then Some c1
         else if kept = [] then do {
           c2 \<leftarrow> set_piece index pieceMissing c1;
           Some (c2\<lparr>assignments := (assignments c2)(index := None)\<rparr>)
         }
         else Some (c1\<lparr>assignments := (assignments c1)(index \<mapsto> kept)\<rparr>))"

definition freeStaleAssignments :: "int \<Rightarrow> int list \<Rightarrow> 'a coordinator \<Rightarrow> 'a coordinator option" where
  "freeStaleAssignments now indices c = each (free_stale now) indices c"

section \<open>Endgame (\<open>endgame.go\<close>)\<close>

definition remainingPieceCount :: "'a coordinator \<Rightarrow> int" where
  "remainingPieceCount c = int (length (filter (\<lambda>s. s \<noteq> pieceComplete) (pieces c)))"

definition any_step :: "bitfield \<Rightarrow> 'a coordinator \<Rightarrow> int \<Rightarrow> int \<times> int \<Rightarrow> int \<times> int" where
  "any_step bf c index st =
     (case st of (best, bestAssignees) \<Rightarrow>
        if pieces c ! nat index = pieceComplete \<or> \<not> HasPiece bf index then st
        else let n = int (length (assignees c index)) in
             if best = -1 \<or> n < bestAssignees then (index, n) else st)"

definition select_any :: "bitfield \<Rightarrow> 'a coordinator \<Rightarrow> int" where
  "select_any bf c = fst (fold (any_step bf c) [0..int (length (pieces c)) - 1] (-1, -1))"

definition assignAnyMissingTo :: "int \<Rightarrow> 'a \<Rightarrow> 'a coordinator \<Rightarrow> 'a coordinator option" where
  "assignAnyMissingTo now a c =
     (case peers c a of
        None \<Rightarrow> Some c
      | Some p \<Rightarrow>
          if assigned p \<ge> 0 then Some c
          else let best = select_any (slices c (phave p)) c in
               if best = -1 then Some c
               else assignPiece now a p best c)"

definition cancel_one :: "int \<Rightarrow> 'a \<Rightarrow> 'a assignment \<Rightarrow> 'a coordinator \<Rightarrow> 'a coordinator" where
  "cancel_one index winner x c =
     (if aaddr x = winner then c
      else (case peers c (aaddr x) of
              None \<Rightarrow> c
            | Some p \<Rightarrow>
                let c1 = (case chan_send (commands p) (CancelPiece index) c of
                            Some c1 \<Rightarrow> c1\<lparr>cprogress := map_option DuplicateAssignment (cprogress c1)\<rparr>
                          | None \<Rightarrow> c)
                in reset_assigned (aaddr x) index c1))"

definition cancelOtherAssignees :: "int \<Rightarrow> 'a \<Rightarrow> 'a coordinator \<Rightarrow> 'a coordinator" where
  "cancelOtherAssignees index winner c = fold (cancel_one index winner) (assignees c index) c"

section \<open>Assigning work (\<open>coordinator.go\<close>)\<close>

definition tryAssign :: "int \<Rightarrow> (int \<Rightarrow> bool) \<Rightarrow> 'a \<Rightarrow> 'a coordinator \<Rightarrow> 'a coordinator option" where
  "tryAssign now coin a c =
     (case peers c a of
        None \<Rightarrow> Some c
      | Some p \<Rightarrow>
          if assigned p \<ge> 0 then Some c
          else if peerChoking p then Some c
          else if endgame c then assignAnyMissingTo now a c
          else (case selectPieceFor coin (slices c (phave p)) c of
                  None \<Rightarrow> Some c
                | Some index \<Rightarrow> assignPiece now a p index c))"

definition maybeEnterEndgame :: "int \<Rightarrow> 'a list \<Rightarrow> 'a coordinator \<Rightarrow> 'a coordinator option" where
  "maybeEnterEndgame now order c =
     (if endgame c then Some c
      else let remaining = remainingPieceCount c in
           if remaining = 0 \<or> remaining > endgameThreshold then Some c
           else each (assignAnyMissingTo now) order (c\<lparr>endgame := True\<rparr>))"

definition assignIdlePeers :: "int \<Rightarrow> ('a \<Rightarrow> int \<Rightarrow> bool) \<Rightarrow> 'a list \<Rightarrow> 'a coordinator \<Rightarrow> 'a coordinator option" where
  "assignIdlePeers now coin order c = each (\<lambda>a. tryAssign now (coin a) a) order c"

definition tick :: "int \<Rightarrow> ('a \<Rightarrow> int \<Rightarrow> bool) \<Rightarrow> int list \<Rightarrow> 'a list \<Rightarrow> 'a list \<Rightarrow> 'a coordinator \<Rightarrow>
    'a coordinator option" where
  "tick now coin indices order1 order2 c = do {
     c1 \<leftarrow> freeStaleAssignments now indices c;
     c2 \<leftarrow> maybeEnterEndgame now order1 c1;
     assignIdlePeers now coin order2 c2
   }"

text \<open>\<open>append(assignees[:i], assignees[i+1:]...)\<close> at the first entry of the address.\<close>

fun remove_first :: "'a \<Rightarrow> 'a assignment list \<Rightarrow> 'a assignment list" where
  "remove_first a [] = []"
| "remove_first a (x # xs) = (if aaddr x = a then xs else x # remove_first a xs)"

definition removeAssignee :: "int \<Rightarrow> 'a \<Rightarrow> 'a coordinator \<Rightarrow> 'a coordinator" where
  "removeAssignee index a c =
     (if a \<in> aaddr ` set (assignees c index)
      then c\<lparr>assignments := (assignments c)(index \<mapsto> remove_first a (assignees c index))\<rparr> else c)"

definition MarkComplete :: "int \<Rightarrow> 'a coordinator \<Rightarrow> 'a coordinator option" where
  "MarkComplete index c = set_piece index pieceComplete c"

section \<open>Choking (\<open>choke.go\<close>)\<close>

definition setChoked :: "'a \<Rightarrow> bool \<Rightarrow> 'a coordinator \<Rightarrow> 'a coordinator" where
  "setChoked a b c =
     (case peers c a of
        None \<Rightarrow> c
      | Some p \<Rightarrow>
          if choked p = b then c
          else (case chan_send (commands p) (if b then ChokePeer else UnchokePeer) c of
                  None \<Rightarrow> c
                | Some c1 \<Rightarrow> upd_peer a (choked_update (\<lambda>_. b)) c1))"

definition clear_optimistic :: "'a \<Rightarrow> 'a coordinator \<Rightarrow> 'a coordinator" where
  "clear_optimistic a c =
     (if hasOptimistic c \<and> optimisticAddr c = Some a then c\<lparr>hasOptimistic := False\<rparr> else c)"

text \<open>The first loop of \<open>recalcChoke\<close>: choke the uninterested, collect the others with their rates.\<close>

fun choke_candidates :: "int \<Rightarrow> bool \<Rightarrow> 'a list \<Rightarrow> ('a \<times> rat) list \<Rightarrow> 'a coordinator \<Rightarrow>
    ('a \<times> rat) list \<times> 'a coordinator" where
  "choke_candidates now seeding [] cands c = (cands, c)"
| "choke_candidates now seeding (a # order) cands c =
     (case peers c a of
        None \<Rightarrow> choke_candidates now seeding order cands c
      | Some p \<Rightarrow>
          if \<not> interested p then choke_candidates now seeding order cands (setChoked a True c)
          else let r = (if seeding then UploadRate now (crates c) a else DownloadRate now (crates c) a) in
               choke_candidates now seeding order (cands @ [(a, r)]) c)"

text \<open>The optimistic slot: its peer joins the unchoked ones, or the slot is given up.\<close>

definition keep_optimistic :: "'a list \<Rightarrow> 'a coordinator \<Rightarrow> 'a list \<times> 'a coordinator" where
  "keep_optimistic unchoked c =
     (if hasOptimistic c
      then (case optimisticAddr c of
              Some a \<Rightarrow> (case peers c a of
                           Some p \<Rightarrow> if interested p then (a # unchoked, c)
                                     else (unchoked, c\<lparr>hasOptimistic := False\<rparr>)
                         | None \<Rightarrow> (unchoked, c\<lparr>hasOptimistic := False\<rparr>))
            | None \<Rightarrow> (unchoked, c\<lparr>hasOptimistic := False\<rparr>))
      else (unchoked, c))"

text \<open>
  \<open>sort.Slice\<close> is not stable, but the candidates come in the arbitrary order of a map iteration, so
  a stable sort of an arbitrary order reaches every outcome.
\<close>

definition recalcChoke :: "int \<Rightarrow> 'a list \<Rightarrow> 'a coordinator \<Rightarrow> 'a coordinator" where
  "recalcChoke now order c =
     (let seeding = (remainingPieceCount c = 0);
          (cands, c1) = choke_candidates now seeding order [] c;
          sorted = sort_key (\<lambda>(a, r). - r) cands;
          (unchoked, c2) = keep_optimistic (map fst (take unchokeSlots sorted)) c1
      in fold (\<lambda>(a, r). setChoked a (a \<notin> set unchoked)) sorted c2)"

text \<open>\<open>pick n\<close> is the draw of \<open>rand.IntN(n)\<close>, below \<open>n\<close>.\<close>

definition optimistic_candidates :: "'a option \<Rightarrow> 'a list \<Rightarrow> 'a coordinator \<Rightarrow> 'a list" where
  "optimistic_candidates previous order c =
     filter (\<lambda>a. case peers c a of
         None \<Rightarrow> False
       | Some p \<Rightarrow> interested p \<and> choked p \<and> previous \<noteq> Some a) order"

definition rotateOptimistic :: "(nat \<Rightarrow> nat) \<Rightarrow> 'a list \<Rightarrow> 'a coordinator \<Rightarrow> 'a coordinator" where
  "rotateOptimistic pick order c =
     (let previous = (if hasOptimistic c then optimisticAddr c else None);
          c1 = (case previous of None \<Rightarrow> c | Some a \<Rightarrow> setChoked a True c);
          c2 = c1\<lparr>hasOptimistic := False\<rparr>;
          cands = optimistic_candidates previous order c2
      in if cands = [] then c2
         else let a = cands ! (pick (length cands) mod length cands) in
              setChoked a False (c2\<lparr>optimisticAddr := Some a, hasOptimistic := True\<rparr>))"

section \<open>Event handlers (\<open>coordinator.go\<close>)\<close>

definition handlePeerLeft :: "'a \<Rightarrow> 'a coordinator \<Rightarrow> 'a coordinator option" where
  "handlePeerLeft a c =
     (case peers c a of
        None \<Rightarrow> Some c
      | Some p \<Rightarrow> do {
          c1 \<leftarrow> removeAvailability (slices c (phave p)) c;
          c2 \<leftarrow> (if assigned p \<ge> 0
                then let d = removeAssignee (assigned p) a c1 in
                     if assignees d (assigned p) = [] then set_piece (assigned p) pieceMissing d else Some d
                else Some c1);
          let c3 = clear_optimistic a (c2\<lparr>crates := Remove a (crates c2)\<rparr>) in
          Some (c3\<lparr>peers := (peers c3)(a := None)\<rparr>)
        })"

text \<open>The fresh bitfield is a new slice: \<open>make(peer.Bitfield, (c.pieceCount+7)/8)\<close>.\<close>

definition handlePeerJoined :: "'a \<Rightarrow> nat \<Rightarrow> 'a coordinator \<Rightarrow> 'a coordinator option" where
  "handlePeerJoined a cmds c = do {
     c1 \<leftarrow> (case peers c a of None \<Rightarrow> Some c | Some _ \<Rightarrow> handlePeerLeft a c);
     Some (c1\<lparr>slices := (slices c1)(nextSlice c1 := empty_bitfield (pieceCount c1)),
             nextSlice := Suc (nextSlice c1),
             peers := (peers c1)(a \<mapsto> \<lparr>commands = cmds, phave = nextSlice c1, assigned = -1,
               interested = False, choked = True, peerChoking = True, gotBitfield = False\<rparr>)\<rparr>)
   }"

definition handleBitfieldReceived :: "int \<Rightarrow> (int \<Rightarrow> bool) \<Rightarrow> 'a \<Rightarrow> nat \<Rightarrow> 'a coordinator \<Rightarrow>
    'a coordinator option" where
  "handleBitfieldReceived now coin a bf c =
     (case peers c a of
        None \<Rightarrow> Some c
      | Some p \<Rightarrow>
          if gotBitfield p then Some c
          else do {
            c1 \<leftarrow> addAvailability (slices c bf) (upd_peer a (\<lambda>p. p\<lparr>gotBitfield := True, phave := bf\<rparr>) c);
            tryAssign now coin a c1
          })"

definition handleHaveReceived :: "int \<Rightarrow> (int \<Rightarrow> bool) \<Rightarrow> 'a \<Rightarrow> int \<Rightarrow> 'a coordinator \<Rightarrow> 'a coordinator option" where
  "handleHaveReceived now coin a index c =
     (case peers c a of
        None \<Rightarrow> Some c
      | Some p \<Rightarrow>
          if HasPiece (slices c (phave p)) index then Some c
          else do {
            c1 \<leftarrow> incAvailability index
              (c\<lparr>slices := (slices c)(phave p := SetPiece (slices c (phave p)) index)\<rparr>);
            tryAssign now coin a c1
          })"

definition handleChokeReceived :: "'a \<Rightarrow> 'a coordinator \<Rightarrow> 'a coordinator" where
  "handleChokeReceived a c = upd_peer a (peerChoking_update (\<lambda>_. True)) c"

definition handleUnchokeReceived :: "int \<Rightarrow> (int \<Rightarrow> bool) \<Rightarrow> 'a \<Rightarrow> 'a coordinator \<Rightarrow> 'a coordinator option" where
  "handleUnchokeReceived now coin a c =
     (case peers c a of
        None \<Rightarrow> Some c
      | Some _ \<Rightarrow> tryAssign now coin a (upd_peer a (peerChoking_update (\<lambda>_. False)) c))"

definition handlePieceDownloaded :: "bool \<Rightarrow> 'a \<Rightarrow> int \<Rightarrow> bytes \<Rightarrow> 'a coordinator \<Rightarrow> 'a coordinator option" where
  "handlePieceDownloaded sent a index data c =
     (if \<not> index_ok index (pieces c) then None
      else if pieces c ! nat index = pieceComplete then Some c
      else do {
        c1 \<leftarrow> set_piece index pieceComplete c;
        let c2 = cancelOtherAssignees index a c1;
            c3 = c2\<lparr>assignments := (assignments c2)(index := None)\<rparr>;
            c4 = upd_peer a (assigned_update (\<lambda>_. -1)) c3 in
        Some (if sent then c4\<lparr>results := results c4 @ [(index, data)]\<rparr> else c4)
      })"

definition handlePieceFailed :: "'a \<Rightarrow> int \<Rightarrow> 'a coordinator \<Rightarrow> 'a coordinator option" where
  "handlePieceFailed a index c =
     (let c1 = removeAssignee index a c in do {
        c2 \<leftarrow> (if assignees c1 index = [] then set_piece index pieceMissing c1 else Some c1);
        Some (upd_peer a (assigned_update (\<lambda>_. -1)) c2)
      })"

definition handlePeerReady :: "int \<Rightarrow> (int \<Rightarrow> bool) \<Rightarrow> 'a \<Rightarrow> 'a coordinator \<Rightarrow> 'a coordinator option" where
  "handlePeerReady now coin a c = tryAssign now coin a c"

definition handleInterestedReceived :: "'a \<Rightarrow> 'a coordinator \<Rightarrow> 'a coordinator" where
  "handleInterestedReceived a c = upd_peer a (interested_update (\<lambda>_. True)) c"

definition handleNotInterestedReceived :: "'a \<Rightarrow> 'a coordinator \<Rightarrow> 'a coordinator" where
  "handleNotInterestedReceived a c =
     (case peers c a of
        None \<Rightarrow> c
      | Some _ \<Rightarrow> clear_optimistic a (setChoked a True (upd_peer a (interested_update (\<lambda>_. False)) c)))"

fun handle :: "int \<Rightarrow> (int \<Rightarrow> bool) \<Rightarrow> bool \<Rightarrow> 'a event \<Rightarrow> 'a coordinator \<Rightarrow> 'a coordinator option" where
  "handle now coin sent (PeerJoined a cmds) c = handlePeerJoined a cmds c"
| "handle now coin sent (BitfieldReceived a bf) c = handleBitfieldReceived now coin a bf c"
| "handle now coin sent (HaveReceived a i) c = handleHaveReceived now coin a i c"
| "handle now coin sent (PieceDownloaded a i d) c = handlePieceDownloaded sent a i d c"
| "handle now coin sent (PieceFailed a i) c = handlePieceFailed a i c"
| "handle now coin sent (PeerReady a) c = handlePeerReady now coin a c"
| "handle now coin sent (PeerLeft a) c = handlePeerLeft a c"
| "handle now coin sent (InterestedReceived a) c = Some (handleInterestedReceived a c)"
| "handle now coin sent (NotInterestedReceived a) c = Some (handleNotInterestedReceived a c)"
| "handle now coin sent (ChokeReceived a) c = Some (handleChokeReceived a c)"
| "handle now coin sent (UnchokeReceived a) c = handleUnchokeReceived now coin a c"

section \<open>The event loop\<close>

definition enumerates :: "'x list \<Rightarrow> 'x set \<Rightarrow> bool" where
  "enumerates xs A \<longleftrightarrow> distinct xs \<and> set xs = A"

text \<open>
  One step of \<open>Run\<close> - an event or one of the three tickers - or of the goroutines around it: a worker
  takes a command out of its channel, a session allocates or changes a bitfield slice, a connection
  records bytes. A step only exists where the code does not panic; that it never does is proved.
\<close>

inductive coord_step :: "'a coordinator \<Rightarrow> 'a coordinator \<Rightarrow> bool" where
  event: "handle now coin sent ev c = Some c' \<Longrightarrow> coord_step c c'"
| ticker: "enumerates indices (dom (assignments c)) \<Longrightarrow> enumerates order1 (dom (peers c)) \<Longrightarrow>
    enumerates order2 (dom (peers c)) \<Longrightarrow> tick now coins indices order1 order2 c = Some c' \<Longrightarrow> coord_step c c'"
| choke_ticker: "enumerates order (dom (peers c)) \<Longrightarrow> coord_step c (recalcChoke now order c)"
| optimistic_ticker: "enumerates order (dom (peers c)) \<Longrightarrow> coord_step c (rotateOptimistic pick order c)"
| command_taken: "coord_step c (c\<lparr>chans := (chans c)(k := [])\<rparr>)"
| slice_changed: "length bf = length (slices c r) \<Longrightarrow> coord_step c (c\<lparr>slices := (slices c)(r := bf)\<rparr>)"
| slice_allocated: "coord_step c (c\<lparr>slices := (slices c)(nextSlice c := bf), nextSlice := Suc (nextSlice c)\<rparr>)"
| bytes_recorded: "coord_step c (c\<lparr>crates := rts, cprogress := prog\<rparr>)"

inductive_cases coord_stepE: "coord_step c c'"

text \<open>
  The states a download reaches: \<open>Download\<close> creates the coordinator for a valid torrent (as many
  hashes as pieces, a piece length that is not zero), marks the pieces already on disk and starts \<open>Run\<close>.
\<close>

inductive coord_reachable :: "'a coordinator \<Rightarrow> bool" where
  start: "0 \<le> n \<Longrightarrow> pl \<noteq> 0 \<Longrightarrow> length hashes = nat n \<Longrightarrow>
    each MarkComplete held (NewCoordinator n pl tot hashes prog rts sl nxt) = Some c \<Longrightarrow> coord_reachable c"
| step: "coord_reachable c \<Longrightarrow> coord_step c c' \<Longrightarrow> coord_reachable c'"

end
