(* ===== verification/Coordinator_Inv.thy ===== *)
theory Coordinator_Inv
  imports Coordinator
begin

text \<open>
  The invariant of the coordinator: what its handlers and timers keep true of the pieces, the
  assignments, the peers and the optimistic slot, and that none of them can panic. The lemmas are
  in two layers: \<open>core\<close> speaks of the four components alone, and one lemma per operation lifts it.
\<close>

section \<open>The invariant\<close>

text \<open>
  A piece is in flight exactly when it has assignees; a peer that believes it is working on a piece
  is one of its assignees; before endgame a piece has at most one assignee.
\<close>

definition core :: "int \<Rightarrow> piece_state list \<Rightarrow> (int \<Rightarrow> 'a assignment list) \<Rightarrow> ('a \<rightharpoonup> peer_info) \<Rightarrow> bool \<Rightarrow> bool" where
  "core n pcs ass prs eg \<longleftrightarrow> length pcs = nat n \<and>
     (\<forall>i. ass i \<noteq> [] \<longleftrightarrow> 0 \<le> i \<and> i < n \<and> pcs ! nat i = pieceInFlight) \<and>
     (\<forall>a p. prs a = Some p \<longrightarrow> assigned p = -1 \<or> a \<in> aaddr ` set (ass (assigned p))) \<and>
     (\<not> eg \<longrightarrow> (\<forall>i. length (ass i) \<le> 1))"

definition optimistic_ok :: "'a coordinator \<Rightarrow> bool" where
  "optimistic_ok c \<longleftrightarrow>
     (hasOptimistic c \<longrightarrow> (\<exists>a p. optimisticAddr c = Some a \<and> peers c a = Some p \<and> interested p))"

definition sizes_ok :: "'a coordinator \<Rightarrow> bool" where
  "sizes_ok c \<longleftrightarrow> 0 \<le> pieceCount c \<and> pieceLength c \<noteq> 0 \<and> length (availability c) = nat (pieceCount c) \<and>
     length (pieceHashes c) = nat (pieceCount c)"

definition coordinator_ok :: "'a coordinator \<Rightarrow> bool" where
  "coordinator_ok c \<longleftrightarrow> sizes_ok c \<and> optimistic_ok c \<and>
     core (pieceCount c) (pieces c) (assignees c) (peers c) (endgame c)"

lemma coordinator_okD:
  assumes "coordinator_ok c"
  shows "0 \<le> pieceCount c" "pieceLength c \<noteq> 0" "length (pieces c) = nat (pieceCount c)"
    "length (availability c) = nat (pieceCount c)" "length (pieceHashes c) = nat (pieceCount c)"
    "optimistic_ok c" "core (pieceCount c) (pieces c) (assignees c) (peers c) (endgame c)"
  using assms by (simp_all add: coordinator_ok_def sizes_ok_def core_def)

lemma index_ok_piece:
  "coordinator_ok c \<Longrightarrow> index_ok i (pieces c) \<longleftrightarrow> 0 \<le> i \<and> i < pieceCount c"
  using coordinator_okD(1,3) [of c] by (auto simp: index_ok_def)

lemma index_ok_other:
  "coordinator_ok c \<Longrightarrow> index_ok i (availability c) \<longleftrightarrow> 0 \<le> i \<and> i < pieceCount c"
  "coordinator_ok c \<Longrightarrow> index_ok i (pieceHashes c) \<longleftrightarrow> 0 \<le> i \<and> i < pieceCount c"
  using coordinator_okD(1,4,5) [of c] by (auto simp: index_ok_def)

lemma assigned_in_flight:
  assumes "coordinator_ok c" "peers c a = Some p" "assigned p \<noteq> -1"
  shows "0 \<le> assigned p" "assigned p < pieceCount c" "pieces c ! nat (assigned p) = pieceInFlight"
    "a \<in> aaddr ` set (assignees c (assigned p))"
proof -
  have "a \<in> aaddr ` set (assignees c (assigned p))"
    using assms coordinator_okD(7) [OF assms(1)] unfolding core_def by blast
  moreover from this have "assignees c (assigned p) \<noteq> []" by auto
  ultimately show "0 \<le> assigned p" "assigned p < pieceCount c" "pieces c ! nat (assigned p) = pieceInFlight"
    "a \<in> aaddr ` set (assignees c (assigned p))"
    using coordinator_okD(7) [OF assms(1)] unfolding core_def by blast+
qed

section \<open>Steps on the core\<close>

lemma core_assign:
  assumes "core n pcs ass prs eg" "0 \<le> i" "i < n" "\<not> eg \<longrightarrow> pcs ! nat i \<noteq> pieceInFlight" "aaddr x = a"
  shows "core n (pcs[nat i := pieceInFlight]) (ass(i := ass i @ [x]))
    (prs(a := map_option (assigned_update (\<lambda>_. i)) (prs a))) eg"
proof -
  have i: "nat i < length pcs" using assms(1-3) by (simp add: core_def)
  have e: "\<not> eg \<Longrightarrow> ass i = []" using assms(1,4) unfolding core_def by blast
  have nat_eq: "j = i" if "nat j = nat i" "0 \<le> j" for j using that assms(2) by simp
  have "(ass(i := ass i @ [x])) j \<noteq> [] \<longleftrightarrow> 0 \<le> j \<and> j < n \<and> pcs[nat i := pieceInFlight] ! nat j = pieceInFlight" for j
  proof (cases "j = i")
    case False
    have "(ass(i := ass i @ [x])) j \<noteq> [] \<longleftrightarrow> 0 \<le> j \<and> j < n \<and> pcs ! nat j = pieceInFlight"
      using False assms(1) unfolding core_def by simp
    also have "\<dots> \<longleftrightarrow> 0 \<le> j \<and> j < n \<and> pcs[nat i := pieceInFlight] ! nat j = pieceInFlight"
      using False nat_eq [of j] by (cases "nat j = nat i") auto
    finally show ?thesis .
  qed (use assms(2,3) i in simp)
  moreover have "length pcs = nat n" using assms(1) by (simp add: core_def)
  moreover have "assigned p = -1 \<or> b \<in> aaddr ` set ((ass(i := ass i @ [x])) (assigned p))"
    if "(prs(a := map_option (assigned_update (\<lambda>_. i)) (prs a))) b = Some p" for b p
  proof (cases "b = a")
    case True
    then have "assigned p = i" using that by auto
    then show ?thesis using True assms(5) by simp
  next
    case False
    then have "assigned p = -1 \<or> b \<in> aaddr ` set (ass (assigned p))"
      using that assms(1) unfolding core_def by simp
    then show ?thesis by auto
  qed
  moreover have "\<not> eg \<Longrightarrow> length ((ass(i := ass i @ [x])) j) \<le> 1" for j
    using assms(1) e unfolding core_def by simp
  ultimately show ?thesis unfolding core_def by simp
qed

text \<open>Some assignees of piece \<open>i\<close> go; with the last of them the piece leaves the in-flight state.\<close>

lemma core_shrink:
  assumes "core n pcs ass prs eg" and "length l \<le> length (ass i)"
    and peers: "\<And>a p'. prs' a = Some p' \<Longrightarrow> assigned p' = -1 \<or>
      (\<exists>p. prs a = Some p \<and> assigned p' = assigned p \<and> (assigned p = i \<longrightarrow> a \<in> aaddr ` set l))"
    and state: "if l = [] then 0 \<le> i \<and> i < n \<and> s \<noteq> pieceInFlight \<and> pcs' = pcs[nat i := s] else pcs' = pcs"
  shows "core n pcs' (ass(i := l)) prs' eg"
proof -
  have len: "length pcs = nat n" using assms(1) by (simp add: core_def)
  have "(ass(i := l)) j \<noteq> [] \<longleftrightarrow> 0 \<le> j \<and> j < n \<and> pcs' ! nat j = pieceInFlight" for j
  proof (cases "j = i")
    case True
    show ?thesis
    proof (cases "l = []")
      case True
      then show ?thesis using \<open>j = i\<close> state len by auto
    next
      case False
      then have "ass i \<noteq> []" using assms(2) by auto
      then show ?thesis using \<open>j = i\<close> False state assms(1) unfolding core_def by simp
    qed
  next
    case False
    have "(ass(i := l)) j \<noteq> [] \<longleftrightarrow> 0 \<le> j \<and> j < n \<and> pcs ! nat j = pieceInFlight"
      using False assms(1) unfolding core_def by simp
    also have "\<dots> \<longleftrightarrow> 0 \<le> j \<and> j < n \<and> pcs' ! nat j = pieceInFlight"
    proof (cases "l = []")
      case True
      then have "0 \<le> j \<Longrightarrow> nat i \<noteq> nat j" using state False by auto
      then show ?thesis using True state by auto
    qed (use state in simp)
    finally show ?thesis .
  qed
  moreover have "length pcs' = nat n" using state len by (cases "l = []") auto
  moreover have "assigned p' = -1 \<or> a \<in> aaddr ` set ((ass(i := l)) (assigned p'))" if p': "prs' a = Some p'" for a p'
  proof (cases "assigned p' = -1")
    case False
    then obtain p where p: "prs a = Some p" "assigned p' = assigned p" "assigned p = i \<longrightarrow> a \<in> aaddr ` set l"
      using peers [OF p'] by blast
    then have "a \<in> aaddr ` set (ass (assigned p))" using assms(1) False unfolding core_def by auto
    then show ?thesis using p by (cases "assigned p = i") auto
  qed simp
  moreover have "\<not> eg \<Longrightarrow> length ((ass(i := l)) j) \<le> 1" for j
    using assms(1,2) unfolding core_def by (cases "j = i") (auto intro: le_trans)
  ultimately show ?thesis unfolding core_def by blast
qed

text \<open>Changes that leave every assignment alone.\<close>

lemma core_peers:
  assumes "core n pcs ass prs eg"
    and "\<And>a p'. prs' a = Some p' \<Longrightarrow> assigned p' = -1 \<or> (\<exists>p. prs a = Some p \<and> assigned p' = assigned p)"
  shows "core n pcs ass prs' eg"
  using assms unfolding core_def by metis

lemma core_endgame: "core n pcs ass prs eg \<Longrightarrow> core n pcs ass prs True"
  by (simp add: core_def)

section \<open>Frames\<close>

lemma assignees_frame [simp]:
  "assignees (c\<lparr>chans := a1\<rparr>) = assignees c" "assignees (c\<lparr>slices := a2\<rparr>) = assignees c"
  "assignees (c\<lparr>nextSlice := a3\<rparr>) = assignees c" "assignees (c\<lparr>crates := a4\<rparr>) = assignees c"
  "assignees (c\<lparr>cprogress := a5\<rparr>) = assignees c" "assignees (c\<lparr>peers := a6\<rparr>) = assignees c"
  "assignees (c\<lparr>pieces := a7\<rparr>) = assignees c" "assignees (c\<lparr>availability := a8\<rparr>) = assignees c"
  "assignees (c\<lparr>endgame := a9\<rparr>) = assignees c" "assignees (c\<lparr>hasOptimistic := b1\<rparr>) = assignees c"
  "assignees (c\<lparr>optimisticAddr := b2\<rparr>) = assignees c" "assignees (c\<lparr>results := b3\<rparr>) = assignees c"
  "assignees (upd_peer p f c) = assignees c"
  by (simp_all add: assignees_def fun_eq_iff upd_peer_def)

lemma assignees_assign [simp]:
  "assignees (c\<lparr>assignments := m\<rparr>) i = (case m i of None \<Rightarrow> [] | Some l \<Rightarrow> l)"
  by (simp add: assignees_def)

lemma assignees_upd [simp]:
  "assignees (c\<lparr>assignments := (assignments c')(i \<mapsto> l)\<rparr>) = (assignees c')(i := l)"
  "assignees (c\<lparr>assignments := (assignments c')(i := None)\<rparr>) = (assignees c')(i := [])"
  by (auto simp: assignees_def fun_eq_iff)

lemma ok_frame [simp]:
  "coordinator_ok (c\<lparr>chans := a1\<rparr>) = coordinator_ok c"
  "coordinator_ok (c\<lparr>slices := a2\<rparr>) = coordinator_ok c"
  "coordinator_ok (c\<lparr>nextSlice := a3\<rparr>) = coordinator_ok c"
  "coordinator_ok (c\<lparr>crates := a4\<rparr>) = coordinator_ok c"
  "coordinator_ok (c\<lparr>cprogress := a5\<rparr>) = coordinator_ok c"
  "coordinator_ok (c\<lparr>results := b3\<rparr>) = coordinator_ok c"
  by (simp_all add: coordinator_ok_def sizes_ok_def optimistic_ok_def)

lemma upd_peer_sel [simp]:
  "pieceCount (upd_peer a f c) = pieceCount c" "pieceLength (upd_peer a f c) = pieceLength c"
  "totalLength (upd_peer a f c) = totalLength c" "pieceHashes (upd_peer a f c) = pieceHashes c"
  "pieces (upd_peer a f c) = pieces c" "availability (upd_peer a f c) = availability c"
  "assignments (upd_peer a f c) = assignments c" "endgame (upd_peer a f c) = endgame c"
  "optimisticAddr (upd_peer a f c) = optimisticAddr c" "hasOptimistic (upd_peer a f c) = hasOptimistic c"
  "chans (upd_peer a f c) = chans c" "slices (upd_peer a f c) = slices c" "nextSlice (upd_peer a f c) = nextSlice c"
  "crates (upd_peer a f c) = crates c" "cprogress (upd_peer a f c) = cprogress c" "results (upd_peer a f c) = results c"
  "peers (upd_peer a f c) = (peers c)(a := map_option f (peers c a))"
  by (simp_all add: upd_peer_def)

text \<open>A change of one peer's flags: the assignment stays or is dropped, interest is only gained.\<close>

lemma ok_upd_peer:
  assumes "coordinator_ok c" "\<And>p. assigned (f p) = assigned p \<or> assigned (f p) = -1"
    and "\<And>p. interested p \<Longrightarrow> interested (f p)"
  shows "coordinator_ok (upd_peer a f c)"
proof -
  have "core (pieceCount c) (pieces c) (assignees c) (peers (upd_peer a f c)) (endgame c)"
    by (rule core_peers [OF coordinator_okD(7) [OF assms(1)]])
      (use assms(2) in \<open>auto simp: upd_peer_def split: if_splits\<close>)
  moreover have "optimistic_ok (upd_peer a f c)"
    using coordinator_okD(6) [OF assms(1)] assms(3) by (auto simp: optimistic_ok_def)
  ultimately show ?thesis
    using assms(1) by (simp add: coordinator_ok_def sizes_ok_def)
qed

lemma ok_loop:
  assumes "\<And>x s. x \<in> set xs \<Longrightarrow> P s \<Longrightarrow> \<exists>s'. f x s = Some s' \<and> P s'" and "P s"
  shows "\<exists>s'. each f xs s = Some s' \<and> P s'"
  using assms
proof (induction xs arbitrary: s)
  case (Cons x xs)
  then obtain s1 where s1: "f x s = Some s1" "P s1" by (meson list.set_intros(1))
  have "\<exists>s'. each f xs s1 = Some s' \<and> P s'"
    by (rule Cons.IH) (use Cons.prems(1) s1(2) in auto)
  then show ?case using s1 by simp
qed simp

lemma ok_fold: "(\<And>x s. x \<in> set xs \<Longrightarrow> P s \<Longrightarrow> P (f x s)) \<Longrightarrow> P s \<Longrightarrow> P (fold f xs s)"
  by (induction xs arbitrary: s) auto

section \<open>The operations keep the invariant and do not panic\<close>

lemma chan_send_Some: "chan_send k cmd c = Some c' \<longleftrightarrow> chans c k = [] \<and> c' = c\<lparr>chans := (chans c)(k := [cmd])\<rparr>"
  by (auto simp: chan_send_def)

lemma set_piece_Some: "set_piece i s c = Some c' \<longleftrightarrow> index_ok i (pieces c) \<and> c' = c\<lparr>pieces := (pieces c)[nat i := s]\<rparr>"
  by (auto simp: set_piece_def)

lemma Length_no_panic: "pl \<noteq> 0 \<Longrightarrow> Length i n pl tot \<noteq> Inl DivideByZeroPanic"
  by (simp add: Length_def Let_def)

lemma ok_assignPiece:
  assumes ok: "coordinator_ok c" and i: "0 \<le> i" "i < pieceCount c"
    and fr: "\<not> endgame c \<longrightarrow> pieces c ! nat i \<noteq> pieceInFlight"
  shows "\<exists>c'. assignPiece now a p i c = Some c' \<and> coordinator_ok c'"
proof -
  note d = coordinator_okD [OF ok]
  consider (no) "sendAssignCommand now a p i c = Some (False, c)"
    | (yes) c1 where "sendAssignCommand now a p i c = Some (True, c1\<lparr>assignments := (assignments c)
        (i \<mapsto> assignees c i @ [\<lparr>aaddr = a, aat = now\<rparr>])\<rparr>)"
        "\<exists>ch. c1 = c\<lparr>chans := ch, pieces := (pieces c)[nat i := pieceInFlight]\<rparr>"
  proof (cases "Length i (pieceCount c) (pieceLength c) (totalLength c)")
    case (Inl e)
    then show ?thesis using no Length_no_panic [OF d(2)] by (cases e) (auto simp: sendAssignCommand_def)
  next
    case (Inr len)
    show ?thesis
    proof (cases "chan_send (commands p) (AssignPiece i len (pieceHashes c ! nat i)) c")
      case None
      then show ?thesis using no Inr i ok by (simp add: sendAssignCommand_def index_ok_other)
    next
      case (Some c1)
      then have c1: "c1 = c\<lparr>chans := (chans c)(commands p := [AssignPiece i len (pieceHashes c ! nat i)])\<rparr>"
        by (simp add: chan_send_Some)
      then have "set_piece i pieceInFlight c1 = Some (c1\<lparr>pieces := (pieces c)[nat i := pieceInFlight]\<rparr>)"
        using i ok by (simp add: set_piece_def index_ok_piece)
      then have "sendAssignCommand now a p i c = Some (True, (c1\<lparr>pieces := (pieces c)[nat i := pieceInFlight]\<rparr>)
          \<lparr>assignments := (assignments c)(i \<mapsto> assignees c i @ [\<lparr>aaddr = a, aat = now\<rparr>])\<rparr>)"
        using Some i ok unfolding sendAssignCommand_def Inr by (simp add: index_ok_other c1)
      then show ?thesis using yes c1 by blast
    qed
  qed
  then show ?thesis
  proof cases
    case no
    then show ?thesis using ok by (simp add: assignPiece_def)
  next
    case yes
    let ?x = "\<lparr>aaddr = a, aat = now\<rparr>"
    obtain ch where c1: "c1 = c\<lparr>chans := ch, pieces := (pieces c)[nat i := pieceInFlight]\<rparr>" using yes(2) by blast
    let ?c = "upd_peer a (assigned_update (\<lambda>_. i))
      (c1\<lparr>assignments := (assignments c)(i \<mapsto> assignees c i @ [?x])\<rparr>)"
    have "core (pieceCount c) ((pieces c)[nat i := pieceInFlight]) ((assignees c)(i := assignees c i @ [?x]))
        ((peers c)(a := map_option (assigned_update (\<lambda>_. i)) (peers c a))) (endgame c)"
      by (rule core_assign [OF d(7) i fr]) simp
    moreover have "optimistic_ok ?c"
      using d(6) c1 by (auto simp: optimistic_ok_def)
    ultimately have "coordinator_ok ?c"
      using ok c1 by (simp add: coordinator_ok_def sizes_ok_def)
    then show ?thesis using yes(1) by (simp add: assignPiece_def)
  qed
qed

text \<open>What the two searches return.\<close>

lemma select_fold:
  assumes "\<forall>i \<in> set is. 0 \<le> i"
  shows "fst (fold (select_step coin bf c) is (-1, 0, 0)) \<noteq> -1 \<longrightarrow>
    fst (fold (select_step coin bf c) is (-1, 0, 0)) \<in> set is \<and>
    pieces c ! nat (fst (fold (select_step coin bf c) is (-1, 0, 0))) = pieceMissing \<and>
    HasPiece bf (fst (fold (select_step coin bf c) is (-1, 0, 0)))"
  using assms
proof (induction "is" rule: rev_induct)
  case (snoc i "is")
  obtain b ba t where st: "fold (select_step coin bf c) is (-1, 0, 0) = (b, ba, t)" by (metis prod_cases3)
  then show ?case using snoc by (auto simp: select_step_def [of coin bf c i "(b, ba, t)"])
qed simp

lemma selectPieceFor_sound:
  "selectPieceFor coin bf c = Some i \<Longrightarrow>
    0 \<le> i \<and> i < pieceCount c \<and> pieces c ! nat i = pieceMissing \<and> HasPiece bf i"
  using select_fold [of "[0..pieceCount c - 1]" coin bf c]
  by (auto simp: selectPieceFor_def split: prod.splits if_splits)

lemma any_fold:
  assumes "\<forall>i \<in> set is. 0 \<le> i"
  shows "fst (fold (any_step bf c) is (-1, -1)) \<noteq> -1 \<longrightarrow>
    fst (fold (any_step bf c) is (-1, -1)) \<in> set is \<and>
    pieces c ! nat (fst (fold (any_step bf c) is (-1, -1))) \<noteq> pieceComplete \<and>
    HasPiece bf (fst (fold (any_step bf c) is (-1, -1)))"
  using assms
proof (induction "is" rule: rev_induct)
  case (snoc i "is")
  obtain b n where st: "fold (any_step bf c) is (-1, -1) = (b, n)" by fastforce
  then show ?case using snoc by (auto simp: any_step_def [of bf c i "(b, n)"] Let_def)
qed simp

lemma select_any_sound:
  "select_any bf c \<noteq> -1 \<Longrightarrow> 0 \<le> select_any bf c \<and> select_any bf c < int (length (pieces c)) \<and>
    pieces c ! nat (select_any bf c) \<noteq> pieceComplete \<and> HasPiece bf (select_any bf c)"
  using any_fold [of "[0..int (length (pieces c)) - 1]" bf c] by (auto simp: select_any_def)

lemma ok_assignAnyMissingTo:
  assumes "coordinator_ok c" "endgame c"
  shows "\<exists>c'. assignAnyMissingTo now a c = Some c' \<and> coordinator_ok c'"
proof (cases "peers c a")
  case (Some p)
  let ?i = "select_any (slices c (phave p)) c"
  show ?thesis
  proof (cases "?i = -1")
    case False
    have "\<exists>c'. assignPiece now a p ?i c = Some c' \<and> coordinator_ok c'"
      by (rule ok_assignPiece [OF assms(1)])
        (use select_any_sound [OF False] coordinator_okD(1,3) [OF assms(1)] assms(2) in auto)
    then show ?thesis using Some False assms(1) by (simp add: assignAnyMissingTo_def Let_def)
  qed (use Some assms(1) in \<open>simp add: assignAnyMissingTo_def\<close>)
qed (use assms(1) in \<open>simp add: assignAnyMissingTo_def\<close>)

lemma ok_tryAssign:
  assumes "coordinator_ok c"
  shows "\<exists>c'. tryAssign now coin a c = Some c' \<and> coordinator_ok c'"
proof (cases "peers c a")
  case (Some p)
  show ?thesis
  proof (cases "endgame c")
    case True
    then show ?thesis using ok_assignAnyMissingTo [OF assms] Some assms by (auto simp: tryAssign_def)
  next
    case False
    show ?thesis
    proof (cases "selectPieceFor coin (slices c (phave p)) c")
      case None
      then show ?thesis using False Some assms by (auto simp: tryAssign_def)
    next
      case sel: (Some i)
      have "\<exists>c'. assignPiece now a p i c = Some c' \<and> coordinator_ok c'"
        by (rule ok_assignPiece [OF assms]) (use selectPieceFor_sound [OF sel] in auto)
      then show ?thesis using False Some sel assms by (auto simp: tryAssign_def)
    qed
  qed
qed (use assms in \<open>simp add: tryAssign_def\<close>)

text \<open>The loops over peers and assignees, as one update.\<close>

lemma fold_reset:
  "fold (\<lambda>x. reset_assigned (aaddr x) i) xs c = c\<lparr>peers := \<lambda>a.
     map_option (\<lambda>p. if a \<in> aaddr ` set xs \<and> assigned p = i then p\<lparr>assigned := -1\<rparr> else p) (peers c a)\<rparr>"
proof (induction xs arbitrary: c)
  case Nil
  then show ?case by (simp add: option.map_ident)
next
  case (Cons x xs)
  then show ?case
    by (auto simp: reset_assigned_def upd_peer_def fun_eq_iff option.map_comp comp_def intro!: coordinator.equality
        option.map_cong)
qed

lemma fold_cancel:
  "\<exists>ch pr. fold (cancel_one i w) xs c = c\<lparr>chans := ch, cprogress := pr, peers := \<lambda>a.
     map_option (\<lambda>p. if a \<noteq> w \<and> a \<in> aaddr ` set xs \<and> assigned p = i then p\<lparr>assigned := -1\<rparr> else p) (peers c a)\<rparr>"
proof (induction xs arbitrary: c)
  case Nil
  show ?case
    by (rule exI [of _ "chans c"], rule exI [of _ "cprogress c"]) (simp add: option.map_ident)
next
  case (Cons x xs)
  obtain ch pr where one: "cancel_one i w x c = c\<lparr>chans := ch, cprogress := pr, peers := \<lambda>a.
     map_option (\<lambda>p. if a \<noteq> w \<and> a = aaddr x \<and> assigned p = i then p\<lparr>assigned := -1\<rparr> else p) (peers c a)\<rparr>"
  proof (cases "aaddr x = w \<or> peers c (aaddr x) = None")
    case True
    then have "cancel_one i w x c = c" by (auto simp: cancel_one_def)
    moreover have "(\<lambda>a. map_option (\<lambda>p. if a \<noteq> w \<and> a = aaddr x \<and> assigned p = i then p\<lparr>assigned := -1\<rparr> else p)
        (peers c a)) = peers c"
    proof
      fix a
      show "map_option (\<lambda>p. if a \<noteq> w \<and> a = aaddr x \<and> assigned p = i then p\<lparr>assigned := -1\<rparr> else p) (peers c a) = peers c a"
        using True by (cases "peers c a") auto
    qed
    ultimately show ?thesis using that [of "cprogress c" "chans c"] by simp
  next
    case False
    then obtain p where p: "peers c (aaddr x) = Some p" "aaddr x \<noteq> w" by auto
    have "(peers c)(aaddr x := map_option (\<lambda>p. if assigned p = i then p\<lparr>assigned := -1\<rparr> else p) (peers c (aaddr x))) =
      (\<lambda>a. map_option (\<lambda>p. if a \<noteq> w \<and> a = aaddr x \<and> assigned p = i then p\<lparr>assigned := -1\<rparr> else p) (peers c a))"
      using p by (auto simp: fun_eq_iff option.map_ident)
    note upd = this
    show ?thesis
    proof (cases "chan_send (commands p) (CancelPiece i) c")
      case None
      then show ?thesis
        using p upd that [of "cprogress c" "chans c"] by (simp add: cancel_one_def reset_assigned_def upd_peer_def)
    next
      case (Some c1)
      moreover from this have "c1 = c\<lparr>chans := (chans c)(commands p := [CancelPiece i])\<rparr>"
        by (simp add: chan_send_Some)
      ultimately show ?thesis
        using p upd that [of "map_option DuplicateAssignment (cprogress c)" "(chans c)(commands p := [CancelPiece i])"]
        by (simp add: cancel_one_def reset_assigned_def upd_peer_def)
    qed
  qed
  let ?f = "\<lambda>xs a p. if a \<noteq> w \<and> a \<in> aaddr ` set xs \<and> assigned p = i then p\<lparr>assigned := -1\<rparr> else p"
  obtain ch2 pr2 where rec: "fold (cancel_one i w) xs (cancel_one i w x c) = (cancel_one i w x c)\<lparr>chans := ch2,
      cprogress := pr2, peers := \<lambda>a. map_option (?f xs a) (peers (cancel_one i w x c) a)\<rparr>"
    using Cons by blast
  have "map_option (?f xs a) (map_option (\<lambda>p. if a \<noteq> w \<and> a = aaddr x \<and> assigned p = i then p\<lparr>assigned := -1\<rparr> else p)
      (peers c a)) = map_option (?f (x # xs) a) (peers c a)" for a
    by (cases "peers c a") auto
  then have "fold (cancel_one i w) (x # xs) c = c\<lparr>chans := ch2, cprogress := pr2,
      peers := \<lambda>a. map_option (?f (x # xs) a) (peers c a)\<rparr>"
    using rec by (simp add: one)
  then show ?case by blast
qed

definition bump :: "int \<Rightarrow> bitfield \<Rightarrow> int \<Rightarrow> 'a coordinator \<Rightarrow> 'a coordinator option" where
  "bump d bf i c = (if HasPiece bf i then
     (if index_ok i (availability c)
      then Some (c\<lparr>availability := (availability c)[nat i := availability c ! nat i + d]\<rparr>) else None) else Some c)"

lemma bump_each:
  "distinct is \<Longrightarrow> \<forall>i \<in> set is. index_ok i (availability c) \<Longrightarrow>
    each (bump d bf) is c = Some (c\<lparr>availability := map (\<lambda>k. availability c ! k +
      (if int k \<in> set is \<and> HasPiece bf (int k) then d else 0)) [0..<length (availability c)]\<rparr>)"
proof (induction "is" arbitrary: c)
  case Nil
  then show ?case by (simp add: map_nth)
next
  case (Cons i "is")
  let ?c = "if HasPiece bf i then c\<lparr>availability := (availability c)[nat i := availability c ! nat i + d]\<rparr> else c"
  have i: "0 \<le> i" "nat i < length (availability c)" using Cons.prems by (auto simp: index_ok_def)
  have "each (bump d bf) (i # is) c = each (bump d bf) is ?c"
    using Cons.prems by (simp add: bump_def)
  also have "\<dots> = Some (?c\<lparr>availability := map (\<lambda>k. availability ?c ! k +
      (if int k \<in> set is \<and> HasPiece bf (int k) then d else 0)) [0..<length (availability ?c)]\<rparr>)"
    by (rule Cons.IH) (use Cons.prems in \<open>auto simp: index_ok_def\<close>)
  also have "\<dots> = Some (c\<lparr>availability := map (\<lambda>k. availability c ! k +
      (if int k \<in> set (i # is) \<and> HasPiece bf (int k) then d else 0)) [0..<length (availability c)]\<rparr>)"
    using Cons.prems(1) i by (auto intro!: coordinator.equality nth_equalityI simp: nth_list_update)
  finally show ?case .
qed

lemma avail_bump:
  "addAvailability bf c = each (bump 1 bf) [0..pieceCount c - 1] c"
  "removeAvailability bf c = each (bump (-1) bf) [0..pieceCount c - 1] c"
  by (simp_all add: addAvailability_def removeAvailability_def incAvailability_def decAvailability_def
      bump_def [abs_def] cong: if_cong)

lemma avail_eq:
  assumes "0 \<le> pieceCount c" "length (availability c) = nat (pieceCount c)"
  shows "each (bump d bf) [0..pieceCount c - 1] c = Some (c\<lparr>availability := map (\<lambda>k. availability c ! k +
    (if HasPiece bf (int k) then d else 0)) [0..<nat (pieceCount c)]\<rparr>)"
proof -
  have "map (\<lambda>k. availability c ! k + (if int k \<in> set [0..pieceCount c - 1] \<and> HasPiece bf (int k) then d else 0))
      [0..<length (availability c)] =
    map (\<lambda>k. availability c ! k + (if HasPiece bf (int k) then d else 0)) [0..<nat (pieceCount c)]"
    using assms by (intro map_cong) auto
  then show ?thesis
    using assms by (subst bump_each) (auto simp: index_ok_def)
qed

lemma ok_availability:
  "coordinator_ok c \<Longrightarrow> length av = nat (pieceCount c) \<Longrightarrow> coordinator_ok (c\<lparr>availability := av\<rparr>)"
  by (simp add: coordinator_ok_def sizes_ok_def optimistic_ok_def)

lemma ok_avail:
  assumes "coordinator_ok c"
  shows "\<exists>av. addAvailability bf c = Some (c\<lparr>availability := av\<rparr>) \<and> coordinator_ok (c\<lparr>availability := av\<rparr>)"
    "\<exists>av. removeAvailability bf c = Some (c\<lparr>availability := av\<rparr>) \<and> coordinator_ok (c\<lparr>availability := av\<rparr>)"
  using assms coordinator_okD(1,4) [OF assms] by (auto simp: avail_bump avail_eq ok_availability)

lemma ok_parts:
  assumes "coordinator_ok c" "sizes_ok c' = sizes_ok c" "optimistic_ok c'"
    "core (pieceCount c) (pieces c') (assignees c') (peers c') (endgame c')" "pieceCount c' = pieceCount c"
  shows "coordinator_ok c'"
  using assms by (simp add: coordinator_ok_def)

lemma optimistic_mono:
  assumes "optimistic_ok c" "hasOptimistic c' \<longrightarrow> hasOptimistic c" "optimisticAddr c' = optimisticAddr c"
    "\<And>a p. hasOptimistic c' \<Longrightarrow> peers c a = Some p \<Longrightarrow> interested p \<Longrightarrow> \<exists>p'. peers c' a = Some p' \<and> interested p'"
  shows "optimistic_ok c'"
  using assms unfolding optimistic_ok_def by metis

lemma optimistic_frame [simp]:
  "optimistic_ok (c\<lparr>pieces := pcs\<rparr>) = optimistic_ok c" "optimistic_ok (c\<lparr>assignments := m\<rparr>) = optimistic_ok c"
  "optimistic_ok (c\<lparr>chans := ch\<rparr>) = optimistic_ok c" "optimistic_ok (c\<lparr>results := rs\<rparr>) = optimistic_ok c"
  by (simp_all add: optimistic_ok_def)

lemma remove_first_set: "a \<notin> aaddr ` set l \<Longrightarrow> remove_first a l = l"
  "length (remove_first a l) \<le> length l"
  "b \<noteq> a \<Longrightarrow> b \<in> aaddr ` set l \<Longrightarrow> b \<in> aaddr ` set (remove_first a l)"
  by (induction l) auto

lemma removeAssignee_eq:
  "\<exists>m. removeAssignee i a c = c\<lparr>assignments := m\<rparr>"
  "assignees (removeAssignee i a c) = (assignees c)(i := remove_first a (assignees c i))"
proof -
  show "\<exists>m. removeAssignee i a c = c\<lparr>assignments := m\<rparr>"
    by (auto simp: removeAssignee_def intro: exI [of _ "assignments c"])
  show "assignees (removeAssignee i a c) = (assignees c)(i := remove_first a (assignees c i))"
    by (auto simp: removeAssignee_def remove_first_set(1))
qed

text \<open>Timeouts.\<close>

lemma ok_free_stale:
  assumes ok: "coordinator_ok c"
  shows "\<exists>c'. free_stale now i c = Some c' \<and> coordinator_ok c'"
proof -
  let ?as = "assignees c i"
  let ?kept = "filter (\<lambda>x. now - aat x < assignmentTimeout) ?as"
  let ?stale = "filter (\<lambda>x. \<not> now - aat x < assignmentTimeout) ?as"
  let ?prs = "\<lambda>a. map_option (\<lambda>p. if a \<in> aaddr ` set ?stale \<and> assigned p = i then p\<lparr>assigned := -1\<rparr> else p) (peers c a)"
  let ?c1 = "c\<lparr>peers := ?prs\<rparr>"
  note d = coordinator_okD [OF ok]
  have c1: "fold (\<lambda>x. reset_assigned (aaddr x) i) ?stale c = ?c1" by (rule fold_reset)
  have prs: "assigned p' = -1 \<or> (\<exists>p. peers c a = Some p \<and> assigned p' = assigned p \<and>
      (assigned p = i \<longrightarrow> a \<in> aaddr ` set ?kept))" if "?prs a = Some p'" for a p'
  proof -
    from that [unfolded map_option_eq_Some] obtain p where p: "peers c a = Some p"
        "(if a \<in> aaddr ` set ?stale \<and> assigned p = i then p\<lparr>assigned := -1\<rparr> else p) = p'"
      by (elim exE conjE)
    show ?thesis
    proof (cases "a \<in> aaddr ` set ?stale \<and> assigned p = i")
      case True
      then have "p' = p\<lparr>assigned := -1\<rparr>" using p(2) by (simp only: if_True simp_thms)
      then show ?thesis by simp
    next
      case False
      then have "p' = p" using p(2) by (simp only: if_False)
      moreover have "assigned p = i \<Longrightarrow> assigned p \<noteq> -1 \<Longrightarrow> a \<in> aaddr ` set ?kept"
        using False assigned_in_flight(4) [OF ok p(1)] by force
      ultimately show ?thesis using p(1) by blast
    qed
  qed
  have opt: "optimistic_ok ?c1"
    by (rule optimistic_mono [OF d(6)]) auto
  show ?thesis
  proof (cases "length ?kept = length ?as")
    case True
    then have k: "?kept = ?as" by (metis length_filter_less less_irrefl filter_id_conv)
    then have "?stale = []" by (metis (no_types, lifting) filter_empty_conv filter_id_conv)
    then have "?c1 = c" by (simp add: option.map_ident)
    then show ?thesis using True c1 ok unfolding free_stale_def Let_def by simp
  next
    case False
    show ?thesis
    proof (cases "?kept = []")
      case True
      then have "?as \<noteq> []" using False by auto
      then have i: "0 \<le> i" "i < pieceCount c" using d(7) unfolding core_def by blast+
      have "core (pieceCount c) ((pieces c)[nat i := pieceMissing]) ((assignees c)(i := [])) ?prs (endgame c)"
        by (rule core_shrink [OF d(7), where s = pieceMissing]) (use prs True i in auto)
      then have "coordinator_ok (?c1\<lparr>pieces := (pieces c)[nat i := pieceMissing], assignments := (assignments c)(i := None)\<rparr>)"
        using ok opt by (intro ok_parts [OF ok]) (simp_all add: sizes_ok_def)
      then show ?thesis
        using False True c1 i ok by (simp add: free_stale_def Let_def set_piece_def index_ok_piece)
    next
      case kept: False
      have "core (pieceCount c) (pieces c) ((assignees c)(i := ?kept)) ?prs (endgame c)"
        by (rule core_shrink [OF d(7)]) (use prs kept in auto)
      then have "coordinator_ok (?c1\<lparr>assignments := (assignments c)(i \<mapsto> ?kept)\<rparr>)"
        using ok opt by (intro ok_parts [OF ok]) (simp_all add: sizes_ok_def)
      then show ?thesis using False kept c1 by (auto simp: free_stale_def Let_def)
    qed
  qed
qed

text \<open>An assignment either did not happen or is the send and the three updates.\<close>

lemma assignPiece_cases:
  assumes "assignPiece now a p i c = Some c'"
  obtains "c' = c" "chans c (commands p) \<noteq> [] \<or> (\<exists>e. Length i (pieceCount c) (pieceLength c) (totalLength c) = Inl e)"
  | len where "Length i (pieceCount c) (pieceLength c) (totalLength c) = Inr len" "chans c (commands p) = []"
      "c' = upd_peer a (assigned_update (\<lambda>_. i)) (c\<lparr>chans := (chans c)(commands p := [AssignPiece i len (pieceHashes c ! nat i)]),
        pieces := (pieces c)[nat i := pieceInFlight],
        assignments := (assignments c)(i \<mapsto> assignees c i @ [\<lparr>aaddr = a, aat = now\<rparr>])\<rparr>)"
proof (cases "Length i (pieceCount c) (pieceLength c) (totalLength c)")
  case (Inl e)
  then show ?thesis using assms that(1) by (cases e) (auto simp: assignPiece_def sendAssignCommand_def)
next
  case (Inr len)
  then show ?thesis
    using assms that
    by (auto simp: assignPiece_def sendAssignCommand_def chan_send_def set_piece_def split: if_splits)
qed

lemma assignAny_endgame: "assignAnyMissingTo now a c = Some c' \<Longrightarrow> endgame c' = endgame c"
  by (auto simp: assignAnyMissingTo_def Let_def split: option.splits if_splits elim!: assignPiece_cases)

lemma ok_maybeEnterEndgame:
  assumes "coordinator_ok c"
  shows "\<exists>c'. maybeEnterEndgame now order c = Some c' \<and> coordinator_ok c'"
proof -
  have "coordinator_ok (c\<lparr>endgame := True\<rparr>)"
    using assms core_endgame [OF coordinator_okD(7) [OF assms]]
    by (simp add: coordinator_ok_def sizes_ok_def optimistic_ok_def)
  moreover have "\<exists>s'. assignAnyMissingTo now a s = Some s' \<and> coordinator_ok s' \<and> endgame s'"
    if "coordinator_ok s \<and> endgame s" for a and s :: "'a coordinator"
    using ok_assignAnyMissingTo [of s now a] assignAny_endgame [of now a s] that by auto
  ultimately have "\<exists>c'. each (assignAnyMissingTo now) order (c\<lparr>endgame := True\<rparr>) = Some c' \<and> (coordinator_ok c' \<and> endgame c')"
    by (intro ok_loop) simp_all
  then show ?thesis using assms by (auto simp: maybeEnterEndgame_def Let_def)
qed

lemma ok_freeStale:
  "coordinator_ok c \<Longrightarrow> \<exists>c'. freeStaleAssignments now indices c = Some c' \<and> coordinator_ok c'"
  unfolding freeStaleAssignments_def by (rule ok_loop) (simp_all add: ok_free_stale)

lemma ok_tick:
  assumes "coordinator_ok c"
  shows "\<exists>c'. tick now coins indices order1 order2 c = Some c' \<and> coordinator_ok c'"
proof -
  obtain c1 where c1: "freeStaleAssignments now indices c = Some c1" "coordinator_ok c1"
    using ok_freeStale [OF assms] by blast
  obtain c2 where c2: "maybeEnterEndgame now order1 c1 = Some c2" "coordinator_ok c2"
    using ok_maybeEnterEndgame [OF c1(2)] by blast
  have "\<exists>c'. assignIdlePeers now coins order2 c2 = Some c' \<and> coordinator_ok c'"
    unfolding assignIdlePeers_def by (rule ok_loop [OF ok_tryAssign c2(2)])
  then show ?thesis using c1(1) c2(1) by (simp add: tick_def)
qed

text \<open>A peer leaves or joins.\<close>

lemma ok_clear_optimistic: "coordinator_ok c \<Longrightarrow> coordinator_ok (clear_optimistic a c)"
  by (auto simp: clear_optimistic_def coordinator_ok_def sizes_ok_def optimistic_ok_def)

lemma clear_optimistic_eq:
  "\<exists>h. clear_optimistic a c = c\<lparr>hasOptimistic := h\<rparr> \<and> (h \<longrightarrow> hasOptimistic c \<and> optimisticAddr c \<noteq> Some a)"
  by (auto simp: clear_optimistic_def intro: exI [of _ "hasOptimistic c"])

lemma ok_handlePeerLeft:
  assumes ok: "coordinator_ok c"
  shows "\<exists>c'. handlePeerLeft a c = Some c' \<and> coordinator_ok c' \<and> peers c' = (peers c)(a := None)"
proof (cases "peers c a")
  case None
  then show ?thesis using ok by (auto simp: handlePeerLeft_def)
next
  case (Some p)
  note d = coordinator_okD [OF ok]
  obtain av where av: "removeAvailability (slices c (phave p)) c = Some (c\<lparr>availability := av\<rparr>)"
    and ok1: "coordinator_ok (c\<lparr>availability := av\<rparr>)"
    using ok_avail(2) [OF ok] by blast
  let ?c1 = "c\<lparr>availability := av\<rparr>"
  let ?i = "assigned p"
  let ?d = "removeAssignee ?i a ?c1"
  let ?l = "remove_first a (assignees c ?i)"
  let ?prs = "(peers c)(a := None)"
  obtain pcs m where c2: "(if ?i \<ge> 0 then if assignees ?d ?i = [] then set_piece ?i pieceMissing ?d else Some ?d
      else Some ?c1) = Some (?c1\<lparr>pieces := pcs, assignments := m\<rparr>)"
    and core: "core (pieceCount c) pcs (assignees (?c1\<lparr>pieces := pcs, assignments := m\<rparr>)) ?prs (endgame c)"
  proof (cases "?i \<ge> 0")
    case False
    have "core (pieceCount c) (pieces c) (assignees c) ?prs (endgame c)"
      by (rule core_peers [OF d(7)]) (auto split: if_splits)
    then show ?thesis using False that [of "assignments c" "pieces c"] by simp
  next
    case True
    then have fl: "?i < pieceCount c" using assigned_in_flight [OF ok Some] by simp
    obtain m where m: "?d = ?c1\<lparr>assignments := m\<rparr>" using removeAssignee_eq(1) [of ?i a ?c1] by (elim exE)
    have as: "assignees ?d = (assignees c)(?i := ?l)" by (simp add: removeAssignee_eq(2))
    have step: "core (pieceCount c) (if ?l = [] then (pieces c)[nat ?i := pieceMissing] else pieces c)
        ((assignees c)(?i := ?l)) ?prs (endgame c)"
    proof (rule core_shrink [OF d(7), where s = pieceMissing])
      fix b q assume q: "?prs b = Some q"
      then have b: "b \<noteq> a" "peers c b = Some q" by (auto split: if_splits)
      then have "assigned q \<noteq> -1 \<Longrightarrow> assigned q = ?i \<Longrightarrow> b \<in> aaddr ` set ?l"
        using assigned_in_flight(4) [OF ok b(2)] remove_first_set(3) by metis
      then show "assigned q = -1 \<or> (\<exists>p'. peers c b = Some p' \<and> assigned q = assigned p' \<and> (assigned p' = ?i \<longrightarrow> b \<in> aaddr ` set ?l))"
        using b(2) by blast
    qed (use True fl in \<open>simp_all add: remove_first_set(2)\<close>)
    have "(if assignees ?d ?i = [] then set_piece ?i pieceMissing ?d else Some ?d) =
        Some (?c1\<lparr>pieces := if ?l = [] then (pieces c)[nat ?i := pieceMissing] else pieces c, assignments := m\<rparr>)"
    proof -
      have "assignees ?d ?i = ?l" by (simp add: as)
      then show ?thesis
        using True fl d(3) by (cases "?l = []") (simp_all add: m set_piece_def index_ok_def del: assignees_assign)
    qed
    moreover have "assignees (?c1\<lparr>pieces := pcs', assignments := m\<rparr>) = (assignees c)(?i := ?l)" for pcs'
      using as unfolding m by (simp add: fun_eq_iff)
    ultimately show ?thesis
      using True step that [of m "if ?l = [] then (pieces c)[nat ?i := pieceMissing] else pieces c"] by simp
  qed
  let ?c2 = "?c1\<lparr>pieces := pcs, assignments := m\<rparr>"
  obtain h where h: "clear_optimistic a (?c2\<lparr>crates := Remove a (crates c)\<rparr>) =
      ?c2\<lparr>crates := Remove a (crates c), hasOptimistic := h\<rparr>"
    "h \<longrightarrow> hasOptimistic c \<and> optimisticAddr c \<noteq> Some a"
    using clear_optimistic_eq [of a "?c2\<lparr>crates := Remove a (crates c)\<rparr>"] by auto
  let ?c3 = "?c2\<lparr>crates := Remove a (crates c), hasOptimistic := h, peers := ?prs\<rparr>"
  have "optimistic_ok ?c3"
    using d(6) h(2) by (auto simp: optimistic_ok_def)
  then have "coordinator_ok ?c3"
    using core coordinator_okD(4) [OF ok1] d(4) by (intro ok_parts [OF ok]) (simp_all add: sizes_ok_def fun_eq_iff)
  moreover have "handlePeerLeft a c = Some ?c3"
    using h(1) unfolding handlePeerLeft_def Some option.case av bind.bind_lunit Let_def c2 by simp
  ultimately show ?thesis by simp
qed

lemma ok_handlePeerJoined:
  assumes "coordinator_ok c"
  shows "\<exists>c'. handlePeerJoined a cmds c = Some c' \<and> coordinator_ok c'"
proof -
  obtain c1 where c1: "(case peers c a of None \<Rightarrow> Some c | Some _ \<Rightarrow> handlePeerLeft a c) = Some c1"
    "coordinator_ok c1" "peers c1 a = None"
    using ok_handlePeerLeft [OF assms, of a] assms by (cases "peers c a") auto
  let ?p = "\<lparr>commands = cmds, phave = nextSlice c1, assigned = -1, interested = False, choked = True,
    peerChoking = True, gotBitfield = False\<rparr>"
  have "core (pieceCount c1) (pieces c1) (assignees c1) ((peers c1)(a \<mapsto> ?p)) (endgame c1)"
    by (rule core_peers [OF coordinator_okD(7) [OF c1(2)]]) (auto split: if_splits)
  moreover have "optimistic_ok (c1\<lparr>peers := (peers c1)(a \<mapsto> ?p)\<rparr>)"
    by (rule optimistic_mono [OF coordinator_okD(6) [OF c1(2)]]) (use c1(3) in auto)
  ultimately have "coordinator_ok (c1\<lparr>peers := (peers c1)(a \<mapsto> ?p)\<rparr>)"
    using c1(2) by (simp add: coordinator_ok_def sizes_ok_def)
  then have "coordinator_ok (c1\<lparr>slices := (slices c1)(nextSlice c1 := empty_bitfield (pieceCount c1)),
      nextSlice := Suc (nextSlice c1), peers := (peers c1)(a \<mapsto> ?p)\<rparr>)"
    using c1(2) by (simp add: coordinator_ok_def sizes_ok_def optimistic_ok_def)
  then show ?thesis using c1(1) by (simp add: handlePeerJoined_def)
qed

text \<open>What the peers report.\<close>

lemma ok_handleBitfieldReceived:
  assumes "coordinator_ok c"
  shows "\<exists>c'. handleBitfieldReceived now coin a bf c = Some c' \<and> coordinator_ok c'"
proof -
  have "coordinator_ok (upd_peer a (\<lambda>p. p\<lparr>gotBitfield := True, phave := bf\<rparr>) c)"
    by (rule ok_upd_peer [OF assms]) simp_all
  from ok_avail(1) [OF this] obtain c1 where c1: "addAvailability (slices c bf)
      (upd_peer a (\<lambda>p. p\<lparr>gotBitfield := True, phave := bf\<rparr>) c) = Some c1" "coordinator_ok c1"
    by blast
  then show ?thesis
    using ok_tryAssign [OF c1(2), of now coin a] assms by (auto simp: handleBitfieldReceived_def split: option.splits)
qed

lemma ok_handleHaveReceived:
  assumes "coordinator_ok c" "0 \<le> i" "i < pieceCount c"
  shows "\<exists>c'. handleHaveReceived now coin a i c = Some c' \<and> coordinator_ok c'"
proof -
  have "\<exists>c'. incAvailability i (c\<lparr>slices := sl\<rparr>) \<bind> tryAssign now coin a = Some c' \<and> coordinator_ok c'" for sl
  proof -
    have "incAvailability i (c\<lparr>slices := sl\<rparr>) =
        Some (c\<lparr>slices := sl, availability := (availability c)[nat i := availability c ! nat i + 1]\<rparr>)"
      using assms by (simp add: incAvailability_def index_ok_other)
    moreover have "coordinator_ok (c\<lparr>slices := sl, availability := (availability c)[nat i := availability c ! nat i + 1]\<rparr>)"
      by (rule ok_availability) (use assms(1) coordinator_okD(4) [OF assms(1)] in simp_all)
    ultimately show ?thesis
      using ok_tryAssign [of "c\<lparr>slices := sl, availability := (availability c)[nat i := availability c ! nat i + 1]\<rparr>"]
      by simp
  qed
  then show ?thesis
    using assms(1) by (simp add: handleHaveReceived_def split: option.split)
qed

lemma ok_handleUnchokeReceived:
  assumes "coordinator_ok c"
  shows "\<exists>c'. handleUnchokeReceived now coin a c = Some c' \<and> coordinator_ok c'"
proof -
  have "coordinator_ok (upd_peer a (peerChoking_update (\<lambda>_. False)) c)"
    by (rule ok_upd_peer [OF assms]) simp_all
  then show ?thesis
    using ok_tryAssign [of "upd_peer a (peerChoking_update (\<lambda>_. False)) c" now coin a] assms
    by (auto simp: handleUnchokeReceived_def split: option.splits)
qed

text \<open>Results of the sessions.\<close>

lemma ok_handlePieceDownloaded:
  assumes ok: "coordinator_ok c" and i: "0 \<le> i" "i < pieceCount c"
  shows "\<exists>c'. handlePieceDownloaded sent a i data c = Some c' \<and> coordinator_ok c'"
proof (cases "pieces c ! nat i = pieceComplete")
  case True
  then show ?thesis using ok i by (simp add: handlePieceDownloaded_def index_ok_piece)
next
  case False
  note d = coordinator_okD [OF ok]
  let ?pcs = "(pieces c)[nat i := pieceComplete]"
  let ?c1 = "c\<lparr>pieces := ?pcs\<rparr>"
  let ?f = "\<lambda>b p. if b \<noteq> a \<and> b \<in> aaddr ` set (assignees c i) \<and> assigned p = i then p\<lparr>assigned := -1\<rparr> else p"
  obtain ch pr where c2: "cancelOtherAssignees i a ?c1 =
      ?c1\<lparr>chans := ch, cprogress := pr, peers := \<lambda>b. map_option (?f b) (peers c b)\<rparr>"
    using fold_cancel [of i a "assignees c i" ?c1] by (auto simp: cancelOtherAssignees_def)
  let ?c2 = "?c1\<lparr>chans := ch, cprogress := pr, peers := \<lambda>b. map_option (?f b) (peers c b),
    assignments := (assignments c)(i := None)\<rparr>"
  let ?c3 = "upd_peer a (assigned_update (\<lambda>_. -1)) ?c2"
  have "core (pieceCount c) ?pcs ((assignees c)(i := [])) (peers ?c3) (endgame c)"
  proof (rule core_shrink [OF d(7), where s = pieceComplete])
    fix b q assume "peers ?c3 b = Some q"
    moreover have "peers ?c3 b = map_option (\<lambda>p. if b = a then p\<lparr>assigned := -1\<rparr> else ?f b p) (peers c b)"
      by (cases "peers c b") auto
    ultimately have "map_option (\<lambda>p. if b = a then p\<lparr>assigned := -1\<rparr> else ?f b p) (peers c b) = Some q"
      by (simp only:)
    then obtain p where p: "peers c b = Some p" "(if b = a then p\<lparr>assigned := -1\<rparr> else ?f b p) = q"
      unfolding map_option_eq_Some by (elim exE conjE)
    moreover have "assigned p \<noteq> -1 \<Longrightarrow> assigned p = i \<Longrightarrow> b \<in> aaddr ` set (assignees c i)"
      using assigned_in_flight(4) [OF ok p(1)] by simp
    ultimately show "assigned q = -1 \<or> (\<exists>p. peers c b = Some p \<and> assigned q = assigned p \<and>
        (assigned p = i \<longrightarrow> b \<in> aaddr ` set ([] :: 'a assignment list)))"
      by (auto split: if_splits)
  qed (use i in auto)
  moreover have "optimistic_ok ?c3"
    by (rule optimistic_mono [OF d(6)]) auto
  ultimately have "coordinator_ok ?c3"
    using ok by (intro ok_parts [OF ok]) (simp_all add: sizes_ok_def fun_eq_iff)
  then show ?thesis
    using False ok i by (simp add: handlePieceDownloaded_def index_ok_piece set_piece_def c2 Let_def)
qed

lemma ok_handlePieceFailed:
  assumes ok: "coordinator_ok c" and i: "0 \<le> i" "i < pieceCount c"
  shows "\<exists>c'. handlePieceFailed a i c = Some c' \<and> coordinator_ok c'"
proof -
  note d = coordinator_okD [OF ok]
  let ?l = "remove_first a (assignees c i)"
  let ?pcs = "if ?l = [] then (pieces c)[nat i := pieceMissing] else pieces c"
  let ?prs = "(peers c)(a := map_option (assigned_update (\<lambda>_. -1)) (peers c a))"
  obtain m where m: "removeAssignee i a c = c\<lparr>assignments := m\<rparr>"
    using removeAssignee_eq(1) [of i a c] by (elim exE)
  have as: "assignees (c\<lparr>assignments := m\<rparr>) = (assignees c)(i := ?l)"
    using removeAssignee_eq(2) [of i a c] by (simp add: m fun_eq_iff)
  then have asi: "assignees (c\<lparr>assignments := m\<rparr>) i = ?l" by simp
  let ?c' = "upd_peer a (assigned_update (\<lambda>_. -1)) (c\<lparr>pieces := ?pcs, assignments := m\<rparr>)"
  have "core (pieceCount c) ?pcs ((assignees c)(i := ?l)) ?prs (endgame c)"
  proof (rule core_shrink [OF d(7), where s = pieceMissing])
    fix b q assume q: "?prs b = Some q"
    show "assigned q = -1 \<or> (\<exists>p. peers c b = Some p \<and> assigned q = assigned p \<and> (assigned p = i \<longrightarrow> b \<in> aaddr ` set ?l))"
    proof (cases "b = a")
      case False
      then have b: "peers c b = Some q" using q by simp
      have "assigned q \<noteq> -1 \<Longrightarrow> assigned q = i \<Longrightarrow> b \<in> aaddr ` set ?l"
        using assigned_in_flight(4) [OF ok b] remove_first_set(3) [OF False] by metis
      then show ?thesis using b by blast
    qed (use q in auto)
  qed (use i in \<open>simp_all add: remove_first_set(2)\<close>)
  moreover have "optimistic_ok ?c'"
    by (rule optimistic_mono [OF d(6)]) auto
  moreover have "assignees ?c' = (assignees c)(i := ?l)"
    using as by (simp add: fun_eq_iff)
  ultimately have "coordinator_ok ?c'"
    by (intro ok_parts [OF ok]) (simp_all add: sizes_ok_def del: assignees_frame)
  moreover have "handlePieceFailed a i c = Some ?c'"
    using i ok asi
    by (cases "?l = []") (simp_all add: handlePieceFailed_def Let_def m set_piece_def index_ok_piece del: assignees_assign)
  ultimately show ?thesis by blast
qed

text \<open>Choking.\<close>

lemma setChoked_cases:
  obtains "setChoked a b c = c"
  | ch where "setChoked a b c = upd_peer a (choked_update (\<lambda>_. b)) (c\<lparr>chans := ch\<rparr>)"
proof -
  have "setChoked a b c = c \<or> (\<exists>ch. setChoked a b c = upd_peer a (choked_update (\<lambda>_. b)) (c\<lparr>chans := ch\<rparr>))"
    by (auto simp: setChoked_def chan_send_def split: option.split)
  then show ?thesis using that by blast
qed

lemma ok_setChoked: "coordinator_ok c \<Longrightarrow> coordinator_ok (setChoked a b c)"
  by (rule setChoked_cases [of a b c]) (auto intro: ok_upd_peer)

lemma ok_no_optimistic: "coordinator_ok c \<Longrightarrow> coordinator_ok (c\<lparr>hasOptimistic := False\<rparr>)"
  by (simp add: coordinator_ok_def sizes_ok_def optimistic_ok_def)

lemma ok_choke_candidates:
  "coordinator_ok c \<Longrightarrow> coordinator_ok (snd (choke_candidates now seeding order cands c))"
  by (induction now seeding order cands c rule: choke_candidates.induct)
    (auto simp: Let_def ok_setChoked split: option.split)

lemma ok_recalcChoke:
  assumes "coordinator_ok c"
  shows "coordinator_ok (recalcChoke now order c)"
proof -
  obtain cands c1 where c1: "choke_candidates now (remainingPieceCount c = 0) order [] c = (cands, c1)" by fastforce
  have ok1: "coordinator_ok c1" using ok_choke_candidates [OF assms] c1 by (metis snd_conv)
  have fold_ok: "coordinator_ok (fold (\<lambda>(a, r). setChoked a (a \<notin> U)) xs s)"
    if "coordinator_ok s" for U and xs :: "('a \<times> rat) list" and s
    by (rule ok_fold [where P = coordinator_ok]) (use that in \<open>auto simp: ok_setChoked\<close>)
  have "coordinator_ok (snd (keep_optimistic u c1))" for u
    using ok1 ok_no_optimistic [OF ok1] by (simp add: keep_optimistic_def split: option.split)
  then show ?thesis
    unfolding recalcChoke_def c1 Let_def prod.case by (subst split_beta) (rule fold_ok)
qed

lemma setChoked_sel [simp]:
  "pieceCount (setChoked a b c) = pieceCount c" "pieces (setChoked a b c) = pieces c"
  "assignments (setChoked a b c) = assignments c" "endgame (setChoked a b c) = endgame c"
  "hasOptimistic (setChoked a b c) = hasOptimistic c" "optimisticAddr (setChoked a b c) = optimisticAddr c"
  "slices (setChoked a b c) = slices c" "availability (setChoked a b c) = availability c"
  "crates (setChoked a b c) = crates c"
  by (rule setChoked_cases [of a b c]; simp)+

lemma ok_rotateOptimistic:
  assumes "coordinator_ok c"
  shows "coordinator_ok (rotateOptimistic pick order c)"
proof -
  define prev where "prev = (if hasOptimistic c then optimisticAddr c else None)"
  define c2 where "c2 = (case prev of None \<Rightarrow> c | Some a \<Rightarrow> setChoked a True c)\<lparr>hasOptimistic := False\<rparr>"
  define cands where "cands = optimistic_candidates prev order c2"
  have ok2: "coordinator_ok c2"
    unfolding c2_def by (rule ok_no_optimistic) (use assms in \<open>simp add: ok_setChoked split: option.split\<close>)
  show ?thesis
  proof (cases "cands = []")
    case True
    then show ?thesis using ok2 by (simp add: rotateOptimistic_def Let_def flip: prev_def c2_def cands_def)
  next
    case False
    let ?a = "cands ! (pick (length cands) mod length cands)"
    have "?a \<in> set cands" using False by simp
    then obtain p where p: "peers c2 ?a = Some p" "interested p"
      unfolding cands_def optimistic_candidates_def by (auto split: option.splits)
    then have "coordinator_ok (c2\<lparr>optimisticAddr := Some ?a, hasOptimistic := True\<rparr>)"
      using ok2 by (simp add: coordinator_ok_def sizes_ok_def optimistic_ok_def)
    then show ?thesis
      using False ok_setChoked by (simp add: rotateOptimistic_def Let_def flip: prev_def c2_def cands_def)
  qed
qed

lemma ok_handleNotInterestedReceived:
  assumes "coordinator_ok c"
  shows "coordinator_ok (handleNotInterestedReceived a c)"
proof (cases "peers c a")
  case (Some p)
  note d = coordinator_okD [OF assms]
  let ?c1 = "upd_peer a (interested_update (\<lambda>_. False)) c"
  obtain ch f where c2: "setChoked a True ?c1 = upd_peer a f (?c1\<lparr>chans := ch\<rparr>)" "\<And>p. assigned (f p) = assigned p"
  proof (rule setChoked_cases [of a True ?c1])
    assume "setChoked a True ?c1 = ?c1"
    then show ?thesis using that [of id "chans c"] by (simp add: upd_peer_def option.map_id)
  qed (use that in \<open>simp\<close>)
  obtain h where h: "clear_optimistic a (upd_peer a f (?c1\<lparr>chans := ch\<rparr>)) = upd_peer a f (?c1\<lparr>chans := ch\<rparr>)\<lparr>hasOptimistic := h\<rparr>"
      "h \<longrightarrow> hasOptimistic c \<and> optimisticAddr c \<noteq> Some a"
    using clear_optimistic_eq [of a "upd_peer a f (?c1\<lparr>chans := ch\<rparr>)"] by auto
  let ?c3 = "upd_peer a f (?c1\<lparr>chans := ch\<rparr>)\<lparr>hasOptimistic := h\<rparr>"
  have "core (pieceCount c) (pieces c) (assignees c) (peers ?c3) (endgame c)"
    by (rule core_peers [OF d(7)]) (auto simp: c2(2) split: if_splits)
  moreover have "optimistic_ok ?c3"
    using d(6) h(2) by (auto simp: optimistic_ok_def)
  ultimately have "coordinator_ok ?c3"
    using assms by (simp add: coordinator_ok_def sizes_ok_def)
  then show ?thesis using Some c2(1) h(1) by (simp add: handleNotInterestedReceived_def)
qed (use assms in \<open>simp add: handleNotInterestedReceived_def\<close>)

section \<open>Every reachable state\<close>

fun event_in_range :: "int \<Rightarrow> 'a event \<Rightarrow> bool" where
  "event_in_range n (HaveReceived a i) = (0 \<le> i \<and> i < n)"
| "event_in_range n (PieceDownloaded a i d) = (0 \<le> i \<and> i < n)"
| "event_in_range n (PieceFailed a i) = (0 \<le> i \<and> i < n)"
| "event_in_range n _ = True"

lemma ok_handle:
  assumes "coordinator_ok c" "event_in_range (pieceCount c) ev"
  shows "\<exists>c'. handle now coin sent ev c = Some c' \<and> coordinator_ok c'"
  using assms ok_handlePeerLeft [OF assms(1)]
  by (cases ev) (auto simp: ok_handlePeerJoined ok_handleBitfieldReceived ok_handleHaveReceived
      ok_handlePieceDownloaded ok_handlePieceFailed ok_handleUnchokeReceived handlePeerReady_def ok_tryAssign
      handleInterestedReceived_def handleChokeReceived_def ok_handleNotInterestedReceived intro!: ok_upd_peer)

text \<open>An index outside the torrent either panics or changes nothing.\<close>

lemma handle_out_of_range:
  assumes "coordinator_ok c" "\<not> event_in_range (pieceCount c) ev" "handle now coin sent ev c = Some c'"
  shows "c' = c"
  using assms(2,3)
proof (cases ev)
  case (HaveReceived a i)
  then show ?thesis
    using assms by (auto simp: handleHaveReceived_def incAvailability_def index_ok_def coordinator_okD split: option.splits if_splits)
next
  case (PieceDownloaded a i d)
  then show ?thesis using assms by (simp add: handlePieceDownloaded_def index_ok_piece)
next
  case (PieceFailed a i)
  have "assignees c i = []"
    using coordinator_okD(7) [OF assms(1)] assms(2) unfolding PieceFailed core_def by auto
  then have "removeAssignee i a c = c" by (simp add: removeAssignee_def)
  then have "handlePieceFailed a i c = None"
    using assms(1,2) \<open>assignees c i = []\<close> PieceFailed
    by (simp add: handlePieceFailed_def Let_def set_piece_def index_ok_piece)
  then show ?thesis using assms(3) PieceFailed by simp
qed simp_all

lemma ok_step:
  assumes "coord_step c c'" "coordinator_ok c"
  shows "coordinator_ok c'"
  using assms
proof (cases rule: coord_step.cases)
  case (event now coin sent ev)
  then show ?thesis
    using ok_handle [OF assms(2), of ev now coin sent] handle_out_of_range [OF assms(2), of ev now coin sent c'] assms(2)
    by (cases "event_in_range (pieceCount c) ev") auto
next
  case (ticker indices order1 order2 now coins)
  then show ?thesis using ok_tick [OF assms(2), of now coins indices order1 order2] by auto
qed (use assms(2) in \<open>simp_all add: ok_recalcChoke ok_rotateOptimistic\<close>)

lemma ok_start:
  assumes "0 \<le> n" "pl \<noteq> 0" "length hashes = nat n"
    "each MarkComplete held (NewCoordinator n pl tot hashes prog rts sl nxt) = Some c"
  shows "coordinator_ok c"
proof -
  let ?P = "\<lambda>c :: 'a coordinator. assignments c = Map.empty \<and> peers c = Map.empty \<and> hasOptimistic c = False \<and>
    sizes_ok c \<and> length (pieces c) = nat (pieceCount c) \<and> pieceInFlight \<notin> set (pieces c)"
  have step: "MarkComplete i s = Some s' \<Longrightarrow> ?P s \<Longrightarrow> ?P s'" for i and s s' :: "'a coordinator"
    by (auto simp: MarkComplete_def set_piece_Some sizes_ok_def dest!: set_update_subset_insert [THEN subsetD])
  have "each MarkComplete held s = Some c \<Longrightarrow> ?P s \<Longrightarrow> ?P c" for s :: "'a coordinator"
  proof (induction held arbitrary: s)
    case (Cons i is')
    then obtain s1 where s1: "MarkComplete i s = Some s1" "each MarkComplete is' s1 = Some c"
      by (auto split: bind_splits)
    show ?case by (rule Cons.IH [OF s1(2) step [OF s1(1) Cons.prems(2)]])
  qed simp
  from this [OF assms(4)] have P: "?P c"
    using assms(1-3) by (simp add: NewCoordinator_def sizes_ok_def)
  have "pieces c ! nat i \<noteq> pieceInFlight" if "0 \<le> i" "i < pieceCount c" for i
  proof -
    have "nat i < length (pieces c)" using P that by simp
    then have "pieces c ! nat i \<in> set (pieces c)" by (rule nth_mem)
    then show ?thesis using P by auto
  qed
  then show ?thesis
    using P by (auto simp: coordinator_ok_def optimistic_ok_def core_def assignees_def)
qed

lemma coord_reachable_ok: "coord_reachable c \<Longrightarrow> coordinator_ok c"
  by (induction rule: coord_reachable.induct) (auto intro: ok_start ok_step)

end
