(* ===== verification/Coordinator_Props.thy ===== *)
theory Coordinator_Props
  imports Coordinator_Inv
begin

text \<open>
  What the coordinator promises: its invariant in every reachable state and that no event with an
  index of the torrent panics, rarest-first selection, the choking decision, that a tick leaves no
  peer idle, and the sequences of events it does not handle.
\<close>

section \<open>Reachable states\<close>

text \<open>
  C7. In every state the download reaches a piece is in flight exactly when it has assignees, a busy
  peer is an assignee of a piece in flight, a piece has one assignee at most before endgame, and
  the optimistic slot, when it is held, is held by a connected peer that is interested.
\<close>

theorem coordinator_invariant: "coord_reachable c \<Longrightarrow> coordinator_ok c"
  by (rule coord_reachable_ok)

text \<open>A run: peer 7 joins a one-piece torrent, reports its bitfield, unchokes us and is assigned piece 0.\<close>

definition run_events :: "nat event list \<Rightarrow> nat coordinator \<Rightarrow> nat coordinator option" where
  "run_events evs c = each (handle 0 (\<lambda>_. True) True) evs c"

lemma run_reachable: "coord_reachable c \<Longrightarrow> run_events evs c = Some c' \<Longrightarrow> coord_reachable c'"
proof (induction evs arbitrary: c)
  case (Cons ev evs)
  then obtain c1 where "handle 0 (\<lambda>_. True) True ev c = Some c1" "run_events evs c1 = Some c'"
    by (auto simp: run_events_def split: bind_splits)
  then show ?case using Cons by (blast intro: coord_reachable.step coord_step.event)
qed (simp add: run_events_def)

definition one_piece :: "nat coordinator" where
  "one_piece = NewCoordinator 1 1 1 [[]] None None (\<lambda>_. [0x80]) 5"

lemma one_piece_reachable: "coord_reachable one_piece"
  unfolding one_piece_def by (rule coord_reachable.start [where held = "[]"]) simp_all

definition busy_events :: "nat event list" where
  "busy_events = [PeerJoined 7 0, BitfieldReceived 7 3, InterestedReceived 7, UnchokeReceived 7]"

definition busy_state :: "nat coordinator" where
  "busy_state = the (run_events busy_events one_piece)"

lemma busy_run: "run_events busy_events one_piece = Some busy_state"
proof -
  have "map_option pieceCount (run_events busy_events one_piece) = Some 1" by code_simp
  then show ?thesis unfolding busy_state_def by (cases "run_events busy_events one_piece") auto
qed

lemma busy_state_facts: "map_option assigned (peers busy_state 7) = Some 0" "pieces busy_state = [pieceInFlight]"
  "map aaddr (assignees busy_state 0) = [7]" "map_option choked (peers busy_state 7) = Some True"
  "pieceCount busy_state = 1" "endgame busy_state = False"
  unfolding busy_state_def by code_simp+

lemma busy_reachable: "coord_reachable busy_state"
  by (rule run_reachable [OF one_piece_reachable busy_run])

theorem coordinator_invariant_witness:
  "coordinator_ok busy_state \<and> pieces busy_state = [pieceInFlight] \<and> map aaddr (assignees busy_state 0) = [7]"
  using coordinator_invariant [OF busy_reachable] busy_state_facts by simp



section \<open>Rarest first\<close>

definition wanted :: "bitfield \<Rightarrow> 'a coordinator \<Rightarrow> int \<Rightarrow> bool" where
  "wanted bf c i \<longleftrightarrow> 0 \<le> i \<and> i < pieceCount c \<and> pieces c ! nat i = pieceMissing \<and> HasPiece bf i"

text \<open>The scan after a prefix of the indices: \<open>best\<close> is a rarest wanted piece of the prefix.\<close>

lemma select_fold_rarest:
  assumes "\<forall>i \<in> set is. 0 \<le> i \<and> i < pieceCount c"
  shows "case fold (select_step coin bf c) is (-1, 0, 0) of (best, ba, _) \<Rightarrow>
    if best = -1 then \<forall>i \<in> set is. \<not> wanted bf c i
    else best \<in> set is \<and> wanted bf c best \<and> ba = availability c ! nat best \<and>
      (\<forall>i \<in> set is. wanted bf c i \<longrightarrow> ba \<le> availability c ! nat i)"
  using assms
proof (induction "is" rule: rev_induct)
  case (snoc i "is")
  obtain b ba t where st: "fold (select_step coin bf c) is (-1, 0, 0) = (b, ba, t)" by (metis prod_cases3)
  have i: "0 \<le> i" "i < pieceCount c" using snoc.prems by auto
  show ?case
  proof (cases "wanted bf c i")
    case False
    then have "select_step coin bf c i (b, ba, t) = (b, ba, t)"
      using i by (auto simp: select_step_def wanted_def)
    then show ?thesis using snoc st False by auto
  next
    case True
    then have "select_step coin bf c i (b, ba, t) =
      (if b = -1 \<or> availability c ! nat i < ba then (i, availability c ! nat i, 1)
       else if availability c ! nat i = ba then (if coin i then i else b, ba, t + 1) else (b, ba, t))"
      by (auto simp: select_step_def wanted_def)
    then show ?thesis using snoc st True i by (auto split: if_splits)
  qed
qed simp

lemma select_fold_target:
  assumes "\<forall>i \<in> set is. 0 \<le> i \<and> i < pieceCount c" "distinct is" "i \<in> set is" "wanted bf c i"
    "\<And>j. wanted bf c j \<Longrightarrow> availability c ! nat i \<le> availability c ! nat j"
  shows "fst (fold (select_step (\<lambda>k. k = i) bf c) is (-1, 0, 0)) = i"
  using assms(1-3)
proof (induction "is" rule: rev_induct)
  case (snoc k "is")
  obtain b ba t where st: "fold (select_step (\<lambda>k. k = i) bf c) is (-1, 0, 0) = (b, ba, t)" by (metis prod_cases3)
  have inv: "if b = -1 then \<forall>i \<in> set is. \<not> wanted bf c i else b \<in> set is \<and> wanted bf c b \<and> ba = availability c ! nat b \<and>
      (\<forall>i \<in> set is. wanted bf c i \<longrightarrow> ba \<le> availability c ! nat i)"
    using select_fold_rarest [of "is" c bf "\<lambda>k. k = i"] snoc.prems(1) st by auto
  have step: "fst (select_step (\<lambda>k. k = i) bf c k (b, ba, t)) = (if k = i then i else b)"
    if "k = i \<or> b = i"
    using that inv assms(4) assms(5) [of k] assms(5) [of b] snoc.prems(1)
    by (auto simp: select_step_def wanted_def split: if_splits)
  show ?case
    using step snoc st by auto
qed simp

lemma select_spec:
  assumes "fold (select_step k bf c) [0..pieceCount c - 1] (-1, 0, 0) = (best, ba, t)"
  shows "if best = -1 then selectPieceFor k bf c = None \<and> (\<forall>i. \<not> wanted bf c i)
    else selectPieceFor k bf c = Some best \<and> wanted bf c best \<and>
      (\<forall>j. wanted bf c j \<longrightarrow> availability c ! nat best \<le> availability c ! nat j)"
proof -
  have r: "\<forall>i \<in> set [0..pieceCount c - 1]. 0 \<le> i \<and> i < pieceCount c" by simp
  have mem: "wanted bf c i \<Longrightarrow> i \<in> set [0..pieceCount c - 1]" for i by (simp add: wanted_def)
  show ?thesis
    using select_fold_rarest [OF r, of bf k] mem unfolding selectPieceFor_def assms prod.case
    by (cases "best = -1") (simp_all only: if_True if_False simp_thms, blast+)
qed

lemma selectPieceFor_none: "selectPieceFor k bf c = None \<Longrightarrow> \<not> wanted bf c i"
  using select_spec [of k bf c] by (metis option.distinct(1) prod_cases3)

text \<open>
  C17. Selection is rarest first: a peer gets nothing exactly when it holds no missing piece, and the
  pieces the random tie-break can return are exactly the missing pieces it holds whose availability
  no other missing piece it holds is below.
\<close>

theorem selectPieceFor_rarest:
  "(selectPieceFor coin bf c = None) = (\<not> (\<exists>i. wanted bf c i)) \<and>
   (\<exists>k. selectPieceFor k bf c = Some i) =
     (wanted bf c i \<and> \<not> (\<exists>j. wanted bf c j \<and> availability c ! nat j < availability c ! nat i))"
proof -
  let ?is = "[0..pieceCount c - 1]"
  have r: "\<forall>i \<in> set ?is. 0 \<le> i \<and> i < pieceCount c" by simp
  have mem: "wanted bf c i \<Longrightarrow> i \<in> set ?is" for i by (simp add: wanted_def)
  have "(selectPieceFor coin bf c = None) = (\<not> (\<exists>i. wanted bf c i))"
    using select_spec [of coin bf c] by (metis option.distinct(1) prod_cases3)
  moreover have "wanted bf c i \<and> \<not> (\<exists>j. wanted bf c j \<and> availability c ! nat j < availability c ! nat i)"
    if "selectPieceFor k bf c = Some i" for k
    using select_spec [of k bf c] that by (metis not_less option.distinct(1) option.inject prod_cases3)
  moreover have "\<exists>k. selectPieceFor k bf c = Some i"
    if w: "wanted bf c i" and min: "\<not> (\<exists>j. wanted bf c j \<and> availability c ! nat j < availability c ! nat i)"
  proof -
    have "fst (fold (select_step (\<lambda>k. k = i) bf c) ?is (-1, 0, 0)) = i"
      by (rule select_fold_target [OF r _ mem [OF w] w]) (use min in \<open>auto simp: not_less\<close>)
    moreover have "i \<noteq> -1" using w by (simp add: wanted_def)
    ultimately show ?thesis by (auto simp: selectPieceFor_def split: prod.splits intro!: exI [of _ "\<lambda>k. k = i"])
  qed
  ultimately show ?thesis by blast
qed

section \<open>No peer is left idle\<close>

text \<open>A piece a peer can be given: outside endgame a missing one, in endgame any that is not complete.\<close>

definition useful :: "bitfield \<Rightarrow> 'a coordinator \<Rightarrow> int \<Rightarrow> bool" where
  "useful bf c i \<longleftrightarrow> 0 \<le> i \<and> i < pieceCount c \<and> HasPiece bf i \<and>
     (if endgame c then pieces c ! nat i \<noteq> pieceComplete else pieces c ! nat i = pieceMissing)"

text \<open>Idle: no assignment, unchoked by the peer, an empty command channel, and work it could do.\<close>

definition idle :: "'a coordinator \<Rightarrow> 'a \<Rightarrow> bool" where
  "idle c a \<longleftrightarrow> (\<exists>p. peers c a = Some p \<and> assigned p < 0 \<and> \<not> peerChoking p \<and> chans c (commands p) = [] \<and>
     (\<exists>i. useful (slices c (phave p)) c i))"

lemma any_fold_none:
  "\<forall>i \<in> set is. 0 \<le> i \<Longrightarrow> fst (fold (any_step bf c) is (-1, -1)) = -1 \<Longrightarrow>
    i \<in> set is \<Longrightarrow> pieces c ! nat i = pieceComplete \<or> \<not> HasPiece bf i"
proof (induction "is" rule: rev_induct)
  case (snoc k "is")
  obtain b n where st: "fold (any_step bf c) is (-1, -1) = (b, n)" by fastforce
  have "k \<noteq> -1" using snoc.prems(1) by auto
  then have "b = -1" "pieces c ! nat k = pieceComplete \<or> \<not> HasPiece bf k"
    using snoc.prems(2) st by (auto simp: any_step_def [of bf c k "(b, n)"] Let_def split: if_splits)
  then show ?case using snoc st by auto
qed simp

lemma select_any_none:
  "select_any bf c = -1 \<Longrightarrow> 0 \<le> i \<Longrightarrow> i < int (length (pieces c)) \<Longrightarrow> pieces c ! nat i = pieceComplete \<or> \<not> HasPiece bf i"
  using any_fold_none [of "[0..int (length (pieces c)) - 1]" bf c i] by (simp add: select_any_def)

text \<open>What \<open>tryAssign\<close> does: nothing, because the peer is not idle, or one assignment of a useful piece.\<close>

lemma tryAssign_cases:
  assumes ok: "coordinator_ok c" and run: "tryAssign now coin a c = Some c'"
  obtains "c' = c" "\<not> idle c a"
  | p i len where "peers c a = Some p" "assigned p < 0" "\<not> peerChoking p" "useful (slices c (phave p)) c i" "chans c (commands p) = []"
      "c' = upd_peer a (assigned_update (\<lambda>_. i)) (c\<lparr>chans := (chans c)(commands p := [AssignPiece i len (pieceHashes c ! nat i)]),
        pieces := (pieces c)[nat i := pieceInFlight],
        assignments := (assignments c)(i \<mapsto> assignees c i @ [\<lparr>aaddr = a, aat = now\<rparr>])\<rparr>)"
proof (cases "peers c a")
  case None
  then show ?thesis using run that(1) by (simp add: tryAssign_def idle_def)
next
  case (Some p)
  note d = coordinator_okD [OF ok]
  have len: "\<exists>len. Length i (pieceCount c) (pieceLength c) (totalLength c) = Inr len"
    if "0 \<le> i" "i < pieceCount c" for i
    using that d(2) by (simp add: Length_def Let_def)
  consider (busy) "assigned p \<ge> 0 \<or> peerChoking p" "c' = c"
    | (none) "c' = c" "\<And>i. \<not> useful (slices c (phave p)) c i"
    | (pick) i where "assigned p < 0" "\<not> peerChoking p" "useful (slices c (phave p)) c i" "assignPiece now a p i c = Some c'"
  proof (cases "assigned p \<ge> 0 \<or> peerChoking p")
    case True
    then show ?thesis using run Some busy by (auto simp: tryAssign_def split: if_splits)
  next
    case idle: False
    show ?thesis
    proof (cases "endgame c")
      case True
      let ?i = "select_any (slices c (phave p)) c"
      have r: "(if ?i = -1 then Some c else assignPiece now a p ?i c) = Some c'"
        using run Some idle True by (simp add: tryAssign_def assignAnyMissingTo_def Let_def)
      show ?thesis
      proof (cases "?i = -1")
        case none': True
        have "\<not> useful (slices c (phave p)) c i" for i
          using select_any_none [OF none', of i] d(1,3) True by (auto simp: useful_def)
        then show ?thesis using none r none' by simp
      next
        case False
        have "useful (slices c (phave p)) c ?i"
          using select_any_sound [OF False] d(1,3) True by (simp add: useful_def)
        then show ?thesis using pick r False idle by simp
      qed
    next
      case False
      show ?thesis
      proof (cases "selectPieceFor coin (slices c (phave p)) c")
        case None
        then have "\<not> useful (slices c (phave p)) c i" for i
          using selectPieceFor_none [OF None, of i] False by (auto simp: useful_def wanted_def)
        then show ?thesis using none run Some idle False None by (simp add: tryAssign_def)
      next
        case sel: (Some i)
        have "useful (slices c (phave p)) c i" using selectPieceFor_sound [OF sel] False by (simp add: useful_def)
        then show ?thesis using pick run Some idle False sel by (simp add: tryAssign_def)
      qed
    qed
  qed
  then show ?thesis
  proof cases
    case busy
    then show ?thesis using that(1) Some by (auto simp: idle_def)
  next
    case none
    then show ?thesis using that(1) Some by (simp add: idle_def)
  next
    case (pick i)
    from pick(4) show ?thesis
    proof (rule assignPiece_cases)
      assume "c' = c" "chans c (commands p) \<noteq> [] \<or> (\<exists>e. Length i (pieceCount c) (pieceLength c) (totalLength c) = Inl e)"
      then show ?thesis using that(1) len [of i] pick(3) Some by (auto simp: idle_def useful_def)
    qed (use that(2) [OF Some pick(1,2,3)] in blast)
  qed
qed

lemma tryAssign_settles:
  assumes "coordinator_ok c" "tryAssign now coin a c = Some c'"
  shows "\<not> idle c' a" "idle c' b \<Longrightarrow> idle c b"
proof -
  show "\<not> idle c' a"
    using assms by (rule tryAssign_cases) (auto simp: idle_def useful_def)
  show "idle c b" if "idle c' b"
    using assms
  proof (rule tryAssign_cases)
    fix p :: peer_info and i len
    let ?c' = "upd_peer a (assigned_update (\<lambda>_. i)) (c\<lparr>chans := (chans c)(commands p := [AssignPiece i len (pieceHashes c ! nat i)]),
        pieces := (pieces c)[nat i := pieceInFlight],
        assignments := (assignments c)(i \<mapsto> assignees c i @ [\<lparr>aaddr = a, aat = now\<rparr>])\<rparr>)"
    assume p: "peers c a = Some p" "useful (slices c (phave p)) c i" and c': "c' = ?c'"
    have i: "0 \<le> i" "nat i < length (pieces c)"
      using p(2) coordinator_okD(1,3) [OF assms(1)] by (auto simp: useful_def)
    have "useful bf ?c' j \<Longrightarrow> useful bf c j" for bf j
      using p(2) i by (auto simp: useful_def nth_list_update split: if_splits)
    then show ?thesis
      using that p(1) i(1) unfolding c' by (fastforce simp: idle_def split: if_splits)
  qed (use that in simp)
qed

lemma assignIdlePeers_settles:
  "coordinator_ok c \<Longrightarrow> assignIdlePeers now coins order c = Some c' \<Longrightarrow>
    (\<forall>a \<in> set order. \<not> idle c' a) \<and> (\<forall>a. idle c' a \<longrightarrow> idle c a)"
proof (induction order arbitrary: c)
  case (Cons a order)
  then obtain c1 where c1: "tryAssign now (coins a) a c = Some c1" "assignIdlePeers now coins order c1 = Some c'"
    by (auto simp: assignIdlePeers_def split: bind_splits)
  have "coordinator_ok c1" using ok_tryAssign [OF Cons.prems(1), of now "coins a" a] c1(1) by simp
  from Cons.IH [OF this c1(2)] show ?case
    using tryAssign_settles [OF Cons.prems(1) c1(1)] by auto
qed (simp add: assignIdlePeers_def)

text \<open>
  C14. A tick always returns, and afterwards no peer it iterated over is idle: whoever is unchoked,
  unassigned and has room for a command holds no piece it could be given. So no missed event leaves
  a peer parked for longer than a tick.
\<close>

theorem tick_leaves_no_peer_idle:
  assumes "coord_reachable c"
  shows "\<exists>c'. tick now coins indices order1 order2 c = Some c' \<and> list_all (\<lambda>a. \<not> idle c' a) order2"
proof -
  have ok: "coordinator_ok c" by (rule coord_reachable_ok [OF assms])
  obtain c1 where c1: "freeStaleAssignments now indices c = Some c1" "coordinator_ok c1"
    using ok_freeStale [OF ok] by blast
  obtain c2 where c2: "maybeEnterEndgame now order1 c1 = Some c2" "coordinator_ok c2"
    using ok_maybeEnterEndgame [OF c1(2)] by blast
  obtain c3 where c3: "assignIdlePeers now coins order2 c2 = Some c3"
    using ok_tick [OF ok, of now coins indices order1 order2] c1(1) c2(1) by (auto simp: tick_def)
  then have "list_all (\<lambda>a. \<not> idle c3 a) order2"
    using assignIdlePeers_settles [OF c2(2) c3] by (simp add: list_all_iff)
  then show ?thesis using c1(1) c2(1) c3 by (simp add: tick_def)
qed

theorem tick_leaves_no_peer_idle_witness:
  "\<exists>c'. tick (31 * Second) (\<lambda>_ _. True) [0] [7] [7] busy_state = Some c' \<and> list_all (\<lambda>a. \<not> idle c' a) [7]"
  by (rule tick_leaves_no_peer_idle [OF busy_reachable])

end
