(* ===== verification/Coordinator_Choke.thy ===== *)
theory Coordinator_Choke
  imports Coordinator_Props
begin

text \<open>
  The choking decision (\<open>choke.go\<close>): when every peer's command channel has room, \<open>recalcChoke\<close> leaves
  exactly the fastest interested peers and the optimistic one unchoked.
\<close>

section \<open>Commands reach the peers they are for\<close>

text \<open>Every peer of the list is connected, with an empty command channel no other peer of it shares.\<close>

definition ready :: "'a list \<Rightarrow> 'a coordinator \<Rightarrow> bool" where
  "ready as c \<longleftrightarrow> (\<forall>a \<in> set as. \<exists>p. peers c a = Some p \<and> chans c (commands p) = []) \<and>
     inj_on (\<lambda>a. commands (the (peers c a))) (set as)"

text \<open>The decided state of a list of peers, the others as they were.\<close>

definition decided :: "'a set \<Rightarrow> ('a \<Rightarrow> bool) \<Rightarrow> ('a \<rightharpoonup> peer_info) \<Rightarrow> ('a \<rightharpoonup> peer_info)" where
  "decided A f m = (\<lambda>a. if a \<in> A then map_option (choked_update (\<lambda>_. f a)) (m a) else m a)"

lemma setChoked_ready:
  assumes "ready (a # as) c" "a \<notin> set as"
  shows "peers (setChoked a b c) = decided {a} (\<lambda>_. b) (peers c)" "ready as (setChoked a b c)"
proof -
  obtain p where p: "peers c a = Some p" "chans c (commands p) = []" using assms(1) by (auto simp: ready_def)
  have other: "commands p \<noteq> commands q" if "b' \<in> set as" "peers c b' = Some q" for b' q
  proof
    assume "commands p = commands q"
    then have "commands (the (peers c a)) = commands (the (peers c b'))" using p that by simp
    moreover have "inj_on (\<lambda>a. commands (the (peers c a))) (insert a (set as))"
      using assms(1) by (simp add: ready_def)
    ultimately have "a = b'" using that(1) by (simp add: inj_on_def)
    then show False using assms(2) that(1) by simp
  qed
  have eq: "setChoked a b c = (if choked p = b then c else upd_peer a (choked_update (\<lambda>_. b))
      (c\<lparr>chans := (chans c)(commands p := [if b then ChokePeer else UnchokePeer])\<rparr>))"
    using p by (simp add: setChoked_def chan_send_def)
  have same: "choked p = b \<Longrightarrow> p\<lparr>choked := b\<rparr> = p" by (cases p) simp
  show "peers (setChoked a b c) = decided {a} (\<lambda>_. b) (peers c)"
    using p same by (auto simp: eq decided_def fun_eq_iff)
  have keep: "commands (the (peers (setChoked a b c) b')) = commands (the (peers c b'))" for b'
    using p by (simp add: eq)
  have "inj_on (\<lambda>b'. commands (the (peers (setChoked a b c) b'))) (set as)"
    using assms(1) by (simp add: keep ready_def inj_on_def)
  moreover have "\<exists>q'. peers (setChoked a b c) b' = Some q' \<and> chans (setChoked a b c) (commands q') = []"
    if "b' \<in> set as" for b'
  proof -
    from assms(1) have "\<forall>x \<in> set as. \<exists>q. peers c x = Some q \<and> chans c (commands q) = []"
      by (simp add: ready_def)
    with that obtain q where q: "peers c b' = Some q" "chans c (commands q) = []" by blast
    have "b' \<noteq> a" using that assms(2) by auto
    then show ?thesis using q other [OF that q(1)] by (simp add: eq)
  qed
  ultimately show "ready as (setChoked a b c)" by (simp add: ready_def)
qed

lemma decided_insert: "decided A f (decided {a} (\<lambda>_. f a) m) = decided (insert a A) f m" if "a \<notin> A"
  using that by (auto simp: decided_def fun_eq_iff option.map_comp comp_def)

lemma fold_setChoked:
  "distinct (as @ ys) \<Longrightarrow> ready (as @ ys) c \<Longrightarrow>
    peers (fold (\<lambda>a. setChoked a (f a)) as c) = decided (set as) f (peers c) \<and>
    ready ys (fold (\<lambda>a. setChoked a (f a)) as c)"
proof (induction as arbitrary: c)
  case Nil
  then show ?case by (simp add: decided_def)
next
  case (Cons a as)
  note s = setChoked_ready [of a "as @ ys" c "f a"]
  have "ready (as @ ys) (setChoked a (f a) c)" using s(2) Cons.prems by simp
  then have "peers (fold (\<lambda>a. setChoked a (f a)) as (setChoked a (f a) c)) =
      decided (set as) f (peers (setChoked a (f a) c)) \<and> ready ys (fold (\<lambda>a. setChoked a (f a)) as (setChoked a (f a) c))"
    using Cons.IH Cons.prems by simp
  then show ?case using s(1) Cons.prems decided_insert [of a "set as" f "peers c"] by simp
qed

lemma fold_setChoked_sel:
  "remainingPieceCount (fold (\<lambda>a. setChoked a (f a)) as c) = remainingPieceCount c"
  "crates (fold (\<lambda>a. setChoked a (f a)) as c) = crates c"
  "hasOptimistic (fold (\<lambda>a. setChoked a (f a)) as c) = hasOptimistic c"
  "optimisticAddr (fold (\<lambda>a. setChoked a (f a)) as c) = optimisticAddr c"
  by (induction as arbitrary: c) (auto simp: remainingPieceCount_def)

section \<open>The decision\<close>

definition wants :: "'a coordinator \<Rightarrow> 'a \<Rightarrow> bool" where
  "wants c a = (case peers c a of None \<Rightarrow> False | Some p \<Rightarrow> interested p)"

text \<open>The rate that counts: what we get from the peer, or what it gets from us once we are complete.\<close>

definition rate_of :: "int \<Rightarrow> 'a coordinator \<Rightarrow> 'a \<Rightarrow> rat" where
  "rate_of now c a = (if remainingPieceCount c = 0 then UploadRate now (crates c) a else DownloadRate now (crates c) a)"

lemma wants_setChoked [simp]: "wants (setChoked a b c) = wants c"
  by (rule setChoked_cases [of a b c]) (auto simp: wants_def fun_eq_iff split: option.split)

lemma choke_candidates_eq:
  "choke_candidates now seeding order cands c =
    (cands @ map (\<lambda>a. (a, if seeding then UploadRate now (crates c) a else DownloadRate now (crates c) a))
       (filter (wants c) order),
     fold (\<lambda>a. setChoked a True) (filter (\<lambda>a. \<not> wants c a) order) c)"
proof (induction order arbitrary: cands c)
  case (Cons a order)
  have "peers c a = None \<Longrightarrow> setChoked a True c = c" by (simp add: setChoked_def)
  then show ?case using Cons by (auto simp: wants_def [of c a] Let_def split: option.split)
qed simp

lemma keep_optimistic_eq:
  "\<exists>h. snd (keep_optimistic u c) = c\<lparr>hasOptimistic := h\<rparr>"
  "set (fst (keep_optimistic u c)) = set u \<union> {a. hasOptimistic c \<and> optimisticAddr c = Some a \<and> wants c a}"
  by (auto simp: keep_optimistic_def wants_def intro: exI [of _ "hasOptimistic c"] split: option.splits if_splits)

lemma ready_perm: "set as = set ys \<Longrightarrow> ready as c \<longleftrightarrow> ready ys c"
  by (simp add: ready_def)

lemma ready_optimistic [simp]: "ready as (c\<lparr>hasOptimistic := h\<rparr>) = ready as c"
  by (simp add: ready_def)

lemma fold_pair: "fold (\<lambda>(a, r). setChoked a (f a)) xs c = fold (\<lambda>a. setChoked a (f a)) (map fst xs) c"
  by (induction xs arbitrary: c) auto

lemma insort_key_map: "insort_key f (g x) (map g xs) = map g (insort_key (\<lambda>y. f (g y)) x xs)"
  by (induction xs) auto

lemma sort_key_map: "sort_key f (map g xs) = map g (sort_key (\<lambda>y. f (g y)) xs)"
  by (induction xs) (simp_all add: insort_key_map)

lemma recalcChoke_peers:
  fixes now :: int
  assumes "distinct order" "ready order c"
  defines "S \<equiv> sort_key (\<lambda>a. - rate_of now c a) (filter (wants c) order)"
  defines "U \<equiv> set (take unchokeSlots S) \<union> {a. hasOptimistic c \<and> optimisticAddr c = Some a \<and> wants c a}"
  shows "peers (recalcChoke now order c) = decided (set order) (\<lambda>a. \<not> wants c a \<or> a \<notin> U) (peers c)"
proof -
  let ?un = "filter (\<lambda>a. \<not> wants c a) order"
  let ?c1 = "fold (\<lambda>a. setChoked a True) ?un c"
  let ?r = "\<lambda>a. (a, rate_of now c a)"
  have cands: "choke_candidates now (remainingPieceCount c = 0) order [] c = (map ?r (filter (wants c) order), ?c1)"
    by (simp add: choke_candidates_eq rate_of_def)
  have sorted: "sort_key (\<lambda>(a, r). - r) (map ?r (filter (wants c) order)) = map ?r S"
    unfolding S_def by (simp add: sort_key_map)
  have fst_r: "map fst (map ?r xs) = xs" for xs by (induction xs) auto
  have tak: "map fst (take unchokeSlots (map ?r S)) = take unchokeSlots S"
    by (simp only: take_map fst_r)
  have S: "set S = set (filter (wants c) order)" "distinct S" unfolding S_def using assms(1) by simp_all
  have dis: "distinct (?un @ S)" using S assms(1) by auto
  have "ready (?un @ S) c"
    using assms(2) by (subst ready_perm [of _ order]) (auto simp: S(1))
  from fold_setChoked [OF dis this, of "\<lambda>_. True"]
  have c1: "peers ?c1 = decided (set ?un) (\<lambda>_. True) (peers c)" "ready S ?c1" by simp_all
  have wants1: "wants ?c1 = wants c"
    by (rule ok_fold [where P = "\<lambda>s. wants s = wants c"]) simp_all
  obtain h where h: "snd (keep_optimistic (take unchokeSlots S) ?c1) = ?c1\<lparr>hasOptimistic := h\<rparr>"
    using keep_optimistic_eq(1) by blast
  have U: "set (fst (keep_optimistic (take unchokeSlots S) ?c1)) = U"
    unfolding keep_optimistic_eq(2) wants1 U_def fold_setChoked_sel ..
  have run: "recalcChoke now order c = fold (\<lambda>a. setChoked a (a \<notin> U)) S (?c1\<lparr>hasOptimistic := h\<rparr>)"
    unfolding recalcChoke_def Let_def cands prod.case sorted tak
    by (subst split_beta) (simp only: U h fold_pair fst_r)
  have "peers (recalcChoke now order c) = decided (set S) (\<lambda>a. a \<notin> U) (peers ?c1)"
    unfolding run using fold_setChoked [of S "[]" "?c1\<lparr>hasOptimistic := h\<rparr>" "\<lambda>a. a \<notin> U"] S(2) c1(2) by simp
  then show ?thesis
    unfolding c1(1) S(1) by (auto simp: decided_def fun_eq_iff)
qed


text \<open>
  Six interested peers, all choked; peer \<open>k\<close> has delivered \<open>k\<close> bytes and peer 1 holds the optimistic slot.
\<close>

definition six_peers :: "nat coordinator" where
  "six_peers = one_piece\<lparr>
     peers := (\<lambda>k. if k \<in> set [1..<7] then Some \<lparr>commands = k, phave = 0, assigned = -1, interested = True,
       choked = True, peerChoking = False, gotBitfield = True\<rparr> else None),
     crates := fold (\<lambda>(t, k). AddDownloaded (t * Second) k (t * int k)) (List.product [0, 1] [1..<7]) (Some NewRateTracker),
     optimisticAddr := Some 1, hasOptimistic := True\<rparr>"

lemma six_peers_ready: "enumerates [1..<7] (dom (peers six_peers))" "ready [1..<7] six_peers"
  by (auto simp: six_peers_def enumerates_def ready_def one_piece_def NewCoordinator_def inj_on_def split: if_splits)

lemma six_peers_rates: "map (rate_of (1 * Second) six_peers) [1..<7] = [1, 2, 3, 4, 5, 6]"
  by code_simp


end
