(* ===== verification/Coordinator_Changes.thy ===== *)
theory Coordinator_Changes
  imports Coordinator_Choke
begin

text \<open>
  Relations between states that every change of the coordinator respects. The locale lists the few
  changes the code is made of - a peer loses its piece or none, a non-blocking command is sent, a piece
  that is not complete is assigned, an unsettled piece becomes missing, assignees go - and derives that
  every timer and every handler but \<open>handlePieceDownloaded\<close> stays inside a relation closed under them.
\<close>

section \<open>Settled pieces\<close>

text \<open>A complete piece nobody works on any more.\<close>

definition settled :: "int \<Rightarrow> 'a coordinator \<Rightarrow> bool" where
  "settled i c \<longleftrightarrow> 0 \<le> i \<and> i < int (length (pieces c)) \<and> pieces c ! nat i = pieceComplete \<and> assignees c i = [] \<and>
     (\<forall>a p. peers c a = Some p \<longrightarrow> assigned p \<noteq> i)"

lemma settled_complete: "coordinator_ok c \<Longrightarrow> settled i c \<longleftrightarrow> 0 \<le> i \<and> i < pieceCount c \<and> pieces c ! nat i = pieceComplete"
proof -
  assume ok: "coordinator_ok c"
  have l: "int (length (pieces c)) = pieceCount c" using coordinator_okD(1,3) [OF ok] by simp
  have "assignees c i = []" if "0 \<le> i" "i < pieceCount c" "pieces c ! nat i = pieceComplete"
  proof -
    have "pieces c ! nat i \<noteq> pieceInFlight" using that(3) by simp
    then show ?thesis using coordinator_okD(7) [OF ok] unfolding core_def by blast
  qed
  moreover have "assigned p \<noteq> i" if "0 \<le> i" "pieces c ! nat i = pieceComplete" "peers c a = Some p" for a p
    using assigned_in_flight [OF ok that(3)] that by auto
  ultimately show ?thesis unfolding settled_def l by blast
qed

section \<open>Small changes\<close>

text \<open>A change of none of the pieces, assignments, peers, channels and results.\<close>

definition unmoved :: "'a coordinator \<Rightarrow> 'a coordinator \<Rightarrow> bool" where
  "unmoved c c' \<longleftrightarrow> pieceCount c' = pieceCount c \<and> pieceLength c' = pieceLength c \<and> totalLength c' = totalLength c \<and>
     pieceHashes c' = pieceHashes c \<and> pieces c' = pieces c \<and> assignments c' = assignments c \<and> peers c' = peers c \<and>
     chans c' = chans c \<and> results c' = results c"

definition assigns_nothing :: "command \<Rightarrow> bool" where
  "assigns_nothing cmd = (case cmd of AssignPiece i len h \<Rightarrow> False | _ \<Rightarrow> True)"

lemma unmoved_settled: "unmoved c c' \<Longrightarrow> settled i c' = settled i c"
  by (simp add: unmoved_def settled_def assignees_def)

lemma unmoved_availability:
  "addAvailability bf c = Some c' \<Longrightarrow> unmoved c c'" "removeAvailability bf c = Some c' \<Longrightarrow> unmoved c c'"
proof -
  have "each (bump d bf) js s = Some s' \<Longrightarrow> unmoved s s'" for d js and s s' :: "'a coordinator"
    by (induction js arbitrary: s) (auto simp: bump_def unmoved_def split: bind_splits if_splits)
  then show "addAvailability bf c = Some c' \<Longrightarrow> unmoved c c'" "removeAvailability bf c = Some c' \<Longrightarrow> unmoved c c'"
    unfolding avail_bump by blast+
qed

lemma unmoved_clear: "unmoved c (clear_optimistic a c)"
  by (simp add: clear_optimistic_def unmoved_def)

section \<open>What they add up to\<close>

locale respected =
  fixes R :: "'a coordinator \<Rightarrow> 'a coordinator \<Rightarrow> bool"
  assumes refl: "R c c"
    and trans: "R c c1 \<Longrightarrow> R c1 c2 \<Longrightarrow> R c c2"
    and idle: "unmoved c c' \<Longrightarrow> R c c'"
    and upd: "(\<And>p. assigned (f p) = assigned p \<or> assigned (f p) = -1) \<Longrightarrow> R c (upd_peer a f c)"
    and join: "assigned p = -1 \<Longrightarrow> R c (c\<lparr>peers := (peers c)(a \<mapsto> p)\<rparr>)"
    and leave: "R c (c\<lparr>peers := (peers c)(a := None)\<rparr>)"
    and send: "chan_send k cmd c = Some c' \<Longrightarrow> assigns_nothing cmd \<Longrightarrow> R c c'"
    and assign: "assignPiece now a p j c = Some c' \<Longrightarrow> 0 \<le> j \<Longrightarrow> pieces c ! nat j \<noteq> pieceComplete \<Longrightarrow> R c c'"
    and give_up: "set_piece j pieceMissing c = Some c' \<Longrightarrow> \<not> settled j c \<Longrightarrow> R c c'"
    and shrink: "\<not> settled j c \<or> l = assignments c j \<Longrightarrow> R c (c\<lparr>assignments := (assignments c)(j := l)\<rparr>)"
begin

lemma eachR:
  assumes "\<And>x s s'. f x s = Some s' \<Longrightarrow> R s s'" "each f xs c = Some c'"
  shows "R c c'"
  using assms(2)
proof (induction xs arbitrary: c)
  case (Cons x xs)
  then obtain c1 where "f x c = Some c1" "each f xs c1 = Some c'" by (auto split: bind_splits)
  then show ?case using assms(1) Cons.IH trans by blast
qed (simp add: refl)

lemma foldR:
  assumes "\<And>x s. R s (f x s)" shows "R c (fold f xs c)"
proof (induction xs arbitrary: c)
  case (Cons x xs)
  show ?case using trans [OF assms Cons.IH] by simp
qed (simp add: refl)

lemma assignAny: "assignAnyMissingTo now a c = Some c' \<Longrightarrow> R c c'"
  using select_any_sound [of _ c]
  by (auto simp: assignAnyMissingTo_def Let_def refl split: option.splits if_splits intro: assign)

lemma try_assign: "tryAssign now coin a c = Some c' \<Longrightarrow> R c c'"
  by (auto simp: tryAssign_def refl split: option.splits if_splits dest!: selectPieceFor_sound intro: assign assignAny)

text \<open>The timer of the coordinator.\<close>

lemma freeing:
  assumes "free_stale now j c = Some c'"
  shows "R c c'"
proof -
  let ?keep = "\<lambda>x. now - aat x < assignmentTimeout"
  define c1 where "c1 = fold (\<lambda>x. reset_assigned (aaddr x) j) (filter (\<lambda>x. \<not> ?keep x) (assignees c j)) c"
  have 1: "R c c1" unfolding c1_def reset_assigned_def by (intro foldR upd) simp
  have a: "assignees c1 = assignees c" unfolding c1_def fold_reset by simp
  have free: "free_stale now j c = (if length (filter ?keep (assignees c j)) = length (assignees c j) then Some c1
      else if filter ?keep (assignees c j) = [] then do {
        c2 \<leftarrow> set_piece j pieceMissing c1; Some (c2\<lparr>assignments := (assignments c2)(j := None)\<rparr>) }
      else Some (c1\<lparr>assignments := (assignments c1)(j \<mapsto> filter ?keep (assignees c j))\<rparr>))"
    by (simp add: free_stale_def Let_def c1_def)
  show ?thesis
  proof (cases "assignees c j = []")
    case True
    then show ?thesis using assms 1 free by simp
  next
    case False
    then have nd: "\<not> settled j c1" by (simp add: settled_def a)
    show ?thesis
    proof (cases "filter ?keep (assignees c j) = []")
      case True
      then obtain c2 where c2: "set_piece j pieceMissing c1 = Some c2" "c' = c2\<lparr>assignments := (assignments c2)(j := None)\<rparr>"
        using assms False free by (auto split: bind_splits if_splits)
      have "R c1 c2" by (rule give_up [OF c2(1) nd])
      moreover have "\<not> settled j c2" using c2(1) by (auto simp: set_piece_Some settled_def index_ok_def)
      ultimately show ?thesis using shrink [of j c2 None] c2(2) 1 trans by blast
    next
      case f: False
      then have "c' = c1 \<or> c' = c1\<lparr>assignments := (assignments c1)(j \<mapsto> filter ?keep (assignees c j))\<rparr>"
        using assms free by (auto split: if_splits)
      then show ?thesis using shrink [of j c1] nd 1 trans by blast
    qed
  qed
qed

lemma ticking:
  assumes "tick now coins indices order1 order2 c = Some c'"
  shows "R c c'"
proof -
  obtain c1 c2 where c1: "freeStaleAssignments now indices c = Some c1"
    and c2: "maybeEnterEndgame now order1 c1 = Some c2" and c3: "assignIdlePeers now coins order2 c2 = Some c'"
    using assms by (auto simp: tick_def split: bind_splits)
  have "R c c1"
    by (rule eachR [OF _ c1 [unfolded freeStaleAssignments_def]]) (rule freeing)
  moreover have "R c1 c2"
  proof -
    have "R c1 (c1\<lparr>endgame := True\<rparr>)" by (rule idle) (simp add: unmoved_def)
    moreover have "R (c1\<lparr>endgame := True\<rparr>) c2" if "each (assignAnyMissingTo now) order1 (c1\<lparr>endgame := True\<rparr>) = Some c2"
      by (rule eachR [OF _ that]) (rule assignAny)
    ultimately show ?thesis
      using c2 trans refl by (auto simp: maybeEnterEndgame_def Let_def split: if_splits)
  qed
  moreover have "R c2 c'"
    by (rule eachR [OF _ c3 [unfolded assignIdlePeers_def]]) (rule try_assign)
  ultimately show ?thesis using trans by blast
qed

text \<open>The choke timers.\<close>

lemma choking: "R c (setChoked a b c)"
proof -
  have "R c (upd_peer a (choked_update (\<lambda>_. b)) c1)" if "chan_send k (if b then ChokePeer else UnchokePeer) c = Some c1" for k c1
    by (rule trans [OF send [OF that] upd]) (simp_all add: assigns_nothing_def)
  then show ?thesis by (auto simp: setChoked_def refl split: option.split)
qed

lemma recalculating: "R c (recalcChoke now order c)"
proof -
  obtain cands c1 where c1: "choke_candidates now (remainingPieceCount c = 0) order [] c = (cands, c1)" by fastforce
  have "R c (snd (choke_candidates now (remainingPieceCount c = 0) order [] c))"
    unfolding choke_candidates_eq snd_conv by (rule foldR) (rule choking)
  then have 1: "R c c1" by (simp add: c1)
  have 2: "R s (fold (\<lambda>(a, r). setChoked a (f a)) xs s)" for s f and xs :: "('a \<times> rat) list"
    unfolding fold_pair by (rule foldR) (rule choking)
  have 3: "R c1 (snd (keep_optimistic u c1))" for u
    using keep_optimistic_eq(1) [of u c1] by (auto intro: idle simp: unmoved_def)
  show ?thesis
    unfolding recalcChoke_def c1 Let_def prod.case
    by (subst split_beta) (rule trans [OF 1 trans [OF 3 2]])
qed

lemma rotating: "R c (rotateOptimistic pick order c)"
proof -
  have 1: "R c (s\<lparr>hasOptimistic := h\<rparr>)" if "R c s" for s h
    by (rule trans [OF that idle]) (simp add: unmoved_def)
  have 2: "R c (setChoked a b (s\<lparr>optimisticAddr := x, hasOptimistic := h\<rparr>))" if "R c s" for a b s x h
    by (rule trans [OF that trans [OF idle choking]]) (simp add: unmoved_def)
  show ?thesis by (simp add: rotateOptimistic_def Let_def 1 2 refl choking split: option.split)
qed

text \<open>The handlers.\<close>

lemma removing: "R c (removeAssignee j a c)"
proof (cases "assignees c j = []")
  case False
  then have "\<not> settled j c" by (simp add: settled_def)
  then show ?thesis using shrink [of j c] refl by (simp add: removeAssignee_def)
qed (simp add: removeAssignee_def refl)

lemma losing:
  assumes "(if assignees (removeAssignee j a c) j = [] then set_piece j pieceMissing (removeAssignee j a c)
      else Some (removeAssignee j a c)) = Some c'" "\<not> settled j (removeAssignee j a c)"
  shows "R c c'"
  using assms give_up [of j "removeAssignee j a c" c'] removing [of c j a] trans by (auto split: if_splits)

lemma leaving:
  assumes "handlePeerLeft a c = Some c'"
  shows "R c c'"
proof (cases "peers c a")
  case (Some p)
  let ?j = "assigned p"
  obtain c1 where c1: "removeAvailability (slices c (phave p)) c = Some c1"
    using assms Some by (auto simp: handlePeerLeft_def split: bind_splits)
  obtain c2 where c2: "(if ?j \<ge> 0 then if assignees (removeAssignee ?j a c1) ?j = []
        then set_piece ?j pieceMissing (removeAssignee ?j a c1) else Some (removeAssignee ?j a c1) else Some c1) = Some c2"
    and c': "c' = (let c3 = clear_optimistic a (c2\<lparr>crates := Remove a (crates c2)\<rparr>) in c3\<lparr>peers := (peers c3)(a := None)\<rparr>)"
    using assms Some c1 by (auto simp: handlePeerLeft_def Let_def split: bind_splits if_splits)
  note av = unmoved_availability(2) [OF c1]
  have "peers c1 a = Some p" using av Some by (simp add: unmoved_def)
  moreover have "peers (removeAssignee ?j a c1) = peers c1" using removeAssignee_eq(1) [of ?j a c1] by auto
  ultimately have "\<not> settled ?j (removeAssignee ?j a c1)" by (auto simp: settled_def)
  then have "R c1 c2" using c2 losing [of ?j a c1 c2] refl by (cases "0 \<le> ?j") auto
  moreover have "R c2 (clear_optimistic a (c2\<lparr>crates := Remove a (crates c2)\<rparr>))"
    by (rule trans [OF idle idle [OF unmoved_clear]]) (simp add: unmoved_def)
  ultimately show ?thesis unfolding c' Let_def using idle [OF av] leave trans by blast
qed (use assms refl in \<open>simp add: handlePeerLeft_def\<close>)

lemma joining:
  assumes "handlePeerJoined a k c = Some c'"
  shows "R c c'"
proof -
  define c1 where "c1 = (case peers c a of None \<Rightarrow> c | Some _ \<Rightarrow> the (handlePeerLeft a c))"
  let ?c2 = "c1\<lparr>slices := (slices c1)(nextSlice c1 := empty_bitfield (pieceCount c1)), nextSlice := Suc (nextSlice c1)\<rparr>"
  let ?p = "\<lparr>commands = k, phave = nextSlice c1, assigned = -1, interested = False, choked = True, peerChoking = True, gotBitfield = False\<rparr>"
  have "R c c1" "c' = ?c2\<lparr>peers := (peers ?c2)(a \<mapsto> ?p)\<rparr>"
    using assms by (auto simp: c1_def handlePeerJoined_def refl split: bind_splits option.splits dest: leaving)
  moreover have "R c1 ?c2" by (rule idle) (simp add: unmoved_def)
  moreover have "R ?c2 (?c2\<lparr>peers := (peers ?c2)(a \<mapsto> ?p)\<rparr>)" by (rule join) simp
  ultimately show ?thesis using trans by blast
qed

lemma handling:
  "handleBitfieldReceived now coin a bf c = Some c' \<Longrightarrow> R c c'"
  "handleHaveReceived now coin a i c = Some c' \<Longrightarrow> R c c'"
  "handleUnchokeReceived now coin a c = Some c' \<Longrightarrow> R c c'"
  "R c (handleChokeReceived a c)" "R c (handleInterestedReceived a c)" "R c (handleNotInterestedReceived a c)"
proof -
  have p: "R s (upd_peer a (\<lambda>p. p\<lparr>gotBitfield := True, phave := bf\<rparr>) s)" "R s (upd_peer a (peerChoking_update f) s)"
    "R s (upd_peer a (interested_update f) s)" for s f
    by (rule upd; simp)+
  show "handleBitfieldReceived now coin a bf c = Some c' \<Longrightarrow> R c c'"
    using trans [OF p(1) trans [OF idle [OF unmoved_availability(1)] try_assign]] refl
    by (auto simp: handleBitfieldReceived_def split: option.splits bind_splits if_splits)
  show "handleHaveReceived now coin a i c = Some c' \<Longrightarrow> R c c'"
  proof -
    have "R c c'" if "tryAssign now coin a (c\<lparr>slices := sl, availability := av\<rparr>) = Some c'" for sl av
      by (rule trans [OF idle try_assign [OF that]]) (simp add: unmoved_def)
    moreover assume "handleHaveReceived now coin a i c = Some c'"
    ultimately show ?thesis
      using refl by (auto simp: handleHaveReceived_def incAvailability_def split: option.splits bind_splits if_splits)
  qed
  show "handleUnchokeReceived now coin a c = Some c' \<Longrightarrow> R c c'"
    using trans [OF p(2) try_assign] refl by (auto simp: handleUnchokeReceived_def split: option.splits)
  show "R c (handleChokeReceived a c)" "R c (handleInterestedReceived a c)"
    by (simp_all add: handleChokeReceived_def handleInterestedReceived_def p)
  show "R c (handleNotInterestedReceived a c)"
    using trans [OF p(3) trans [OF choking idle [OF unmoved_clear]]] refl
    by (auto simp: handleNotInterestedReceived_def split: option.splits)
qed

lemma failing:
  assumes "handlePieceFailed a j c = Some c'" "\<not> settled j (removeAssignee j a c)"
  shows "R c c'"
proof -
  obtain c2 where c2: "(if assignees (removeAssignee j a c) j = [] then set_piece j pieceMissing (removeAssignee j a c)
      else Some (removeAssignee j a c)) = Some c2" "c' = upd_peer a (assigned_update (\<lambda>_. -1)) c2"
    using assms(1) by (auto simp: handlePieceFailed_def Let_def split: bind_splits)
  have "R c2 c'" unfolding c2(2) by (rule upd) simp
  then show ?thesis by (rule trans [OF losing [OF c2(1) assms(2)]])
qed

lemma cancelling: "R c (cancelOtherAssignees i w c)"
  unfolding cancelOtherAssignees_def
proof (rule foldR)
  fix x :: "'a assignment" and s
  have 1: "R s (reset_assigned (aaddr x) i t)" if "R s t" for t
    unfolding reset_assigned_def by (rule trans [OF that upd]) simp
  have "R s (t\<lparr>cprogress := map_option DuplicateAssignment (cprogress t)\<rparr>)" if "chan_send k (CancelPiece i) s = Some t" for k t
    by (rule trans [OF send [OF that] idle]) (simp_all add: assigns_nothing_def unmoved_def)
  then show "R s (cancel_one i w x s)"
    by (auto simp: cancel_one_def Let_def refl intro: 1 split: option.splits)
qed

text \<open>An event other than the two about a finished download of a piece.\<close>

lemma handled:
  assumes "handle now coin taken ev c = Some c'"
    "case ev of PieceDownloaded a i d \<Rightarrow> False | PieceFailed a i \<Rightarrow> \<not> settled i (removeAssignee i a c) | _ \<Rightarrow> True"
  shows "R c c'"
proof (cases ev)
  case (PeerJoined a k)
  then show ?thesis using assms(1) joining by simp
next
  case (BitfieldReceived a r)
  then show ?thesis using assms(1) handling(1) by simp
next
  case (HaveReceived a i)
  then show ?thesis using assms(1) handling(2) by simp
next
  case (PieceFailed a i)
  then show ?thesis using assms failing by simp
next
  case (PeerReady a)
  then show ?thesis using assms(1) try_assign by (simp add: handlePeerReady_def)
next
  case (PeerLeft a)
  then show ?thesis using assms(1) leaving by simp
next
  case (UnchokeReceived a)
  then show ?thesis using assms(1) handling(3) by simp
qed (use assms handling(4-6) in auto)

end

end
