(* ===== verification/Coordinator_Commands.thy ===== *)
theory Coordinator_Commands
  imports Coordinator_Changes
begin

text \<open>
  What travels through the command channels: every assignment a session can find in its channel names
  a piece of the torrent, with the length and the hash the torrent gives for it.
\<close>

definition command_ok :: "'a coordinator \<Rightarrow> command \<Rightarrow> bool" where
  "command_ok c x = (case x of
      AssignPiece i len h \<Rightarrow> Length i (pieceCount c) (pieceLength c) (totalLength c) = Inr len \<and>
        h = pieceHashes c ! nat i
    | _ \<Rightarrow> True)"

lemma command_ok_cong:
  "pieceCount c' = pieceCount c \<Longrightarrow> pieceLength c' = pieceLength c \<Longrightarrow> totalLength c' = totalLength c \<Longrightarrow>
    pieceHashes c' = pieceHashes c \<Longrightarrow> command_ok c' x = command_ok c x"
  by (cases x) (simp_all add: command_ok_def)

text \<open>A change that keeps the torrent's data and only sends valid commands.\<close>

definition sends_ok :: "'a coordinator \<Rightarrow> 'a coordinator \<Rightarrow> bool" where
  "sends_ok c c' \<longleftrightarrow> pieceCount c' = pieceCount c \<and> pieceLength c' = pieceLength c \<and>
     totalLength c' = totalLength c \<and> pieceHashes c' = pieceHashes c \<and>
     (\<forall>k x. x \<in> set (chans c' k) \<longrightarrow> x \<in> set (chans c k) \<or> command_ok c x)"

lemma sends_ok_refl [simp]: "sends_ok c c"
  by (simp add: sends_ok_def)

lemma sends_ok_trans: "sends_ok c c1 \<Longrightarrow> sends_ok c1 c2 \<Longrightarrow> sends_ok c c2"
proof -
  assume a: "sends_ok c c1" "sends_ok c1 c2"
  then have "command_ok c1 x = command_ok c x" for x by (intro command_ok_cong) (simp_all add: sends_ok_def)
  then show ?thesis using a unfolding sends_ok_def by metis
qed

lemma sends_ok_chan_send: "chan_send k cmd c = Some c' \<Longrightarrow> command_ok c cmd \<Longrightarrow> sends_ok c c'"
  by (auto simp: chan_send_Some sends_ok_def)

lemma sends_ok_assignPiece: "assignPiece now a p i c = Some c' \<Longrightarrow> sends_ok c c'"
  by (erule assignPiece_cases) (auto simp: sends_ok_def command_ok_def)

interpretation sending: respected sends_ok
proof unfold_locales
  show "chan_send k cmd c = Some c' \<Longrightarrow> assigns_nothing cmd \<Longrightarrow> sends_ok c c'" for k cmd and c c' :: "'a coordinator"
    by (erule sends_ok_chan_send) (simp add: assigns_nothing_def command_ok_def split: command.splits)
  show "sends_ok c c1 \<Longrightarrow> sends_ok c1 c2 \<Longrightarrow> sends_ok c c2" for c c1 c2 :: "'a coordinator"
    by (rule sends_ok_trans)
  show "assignPiece now a p j c = Some c' \<Longrightarrow> sends_ok c c'" for now a p j and c c' :: "'a coordinator"
    by (rule sends_ok_assignPiece)
qed (auto simp: sends_ok_def unmoved_def set_piece_Some)

lemma sends_ok_frame:
  "sends_ok c (c'\<lparr>assignments := a1\<rparr>) = sends_ok c c'" "sends_ok c (c'\<lparr>results := a2\<rparr>) = sends_ok c c'"
  "sends_ok c (upd_peer a f c') = sends_ok c c'"
  by (simp_all add: sends_ok_def)

lemma sends_ok_handle:
  assumes "handle now coin sent ev c = Some c'"
  shows "sends_ok c c'"
proof (cases ev)
  case (PieceDownloaded a i d)
  have "sends_ok c (cancelOtherAssignees i a (c\<lparr>pieces := ps\<rparr>))" for ps
    using sending.cancelling [of "c\<lparr>pieces := ps\<rparr>" i a] by (simp add: sends_ok_def command_ok_cong [of "c\<lparr>pieces := ps\<rparr>" c])
  then show ?thesis
    using assms PieceDownloaded
    by (auto simp: handlePieceDownloaded_def set_piece_Some Let_def sends_ok_frame sending.refl split: if_splits bind_splits)
next
  case (PieceFailed a i)
  then show ?thesis
    using assms by (auto simp: handlePieceFailed_def set_piece_Some Let_def removeAssignee_def sends_ok_def split: if_splits bind_splits)
qed (use sending.handled [OF assms] in auto)

text \<open>In every reachable state the channels hold valid commands only.\<close>

lemma step_sends_ok: "coord_step c c' \<Longrightarrow> sends_ok c c'"
proof (induction rule: coord_step.induct)
  case (event now coin sent ev c c')
  then show ?case by (rule sends_ok_handle)
next
  case (ticker indices c order1 order2 now coins c')
  show ?case by (rule sending.ticking [OF ticker(4)])
qed (simp_all add: sending.recalculating sending.rotating, simp_all add: sends_ok_def)

lemma sends_ok_start: "each MarkComplete held (NewCoordinator n pl tot hashes prog rts sl nxt) = Some c \<Longrightarrow> chans c = (\<lambda>_. [])"
proof -
  have "each MarkComplete held s = Some c \<Longrightarrow> chans c = chans s" for s :: "'a coordinator"
    by (induction held arbitrary: s) (auto simp: MarkComplete_def set_piece_Some split: bind_splits)
  then show "each MarkComplete held (NewCoordinator n pl tot hashes prog rts sl nxt) = Some c \<Longrightarrow> chans c = (\<lambda>_. [])"
    by (auto simp: NewCoordinator_def)
qed

lemma commands_valid: "coord_reachable c \<Longrightarrow> x \<in> set (chans c k) \<Longrightarrow> command_ok c x"
proof (induction rule: coord_reachable.induct)
  case (start n pl hashes held tot prog rts sl nxt c)
  then show ?case using sends_ok_start by fastforce
next
  case (step c c')
  have s: "sends_ok c c'" by (rule step_sends_ok [OF step.hyps(2)])
  then have "command_ok c' x = command_ok c x" for x by (intro command_ok_cong) (simp_all add: sends_ok_def)
  then show ?case using s step unfolding sends_ok_def by blast
qed

end
