(* ===== verification/Coordinator_Settled.thy ===== *)
theory Coordinator_Settled
  imports Coordinator_Commands
begin

text \<open>
  Pieces that are complete stay complete: no handler and no timer takes a complete piece back, with one
  exception - \<open>handlePieceFailed\<close> for that very piece. The relation \<open>calm\<close> says so of one change of the
  state, together with the results being left alone; it is shown for every operation in turn.
\<close>

definition calm :: "'a coordinator \<Rightarrow> 'a coordinator \<Rightarrow> bool" where
  "calm c c' \<longleftrightarrow> results c' = results c \<and> (\<forall>i. settled i c \<longrightarrow> settled i c')"

lemma calm_refl [simp]: "calm c c"
  by (simp add: calm_def)

lemma calm_trans: "calm c c1 \<Longrightarrow> calm c1 c2 \<Longrightarrow> calm c c2"
  by (simp add: calm_def)

lemma settled_results [simp]: "settled i (c\<lparr>results := rs\<rparr>) = settled i c"
  by (simp add: settled_def assignees_def)

text \<open>A change of a peer that gives it no new piece, and a change of a piece that is not settled.\<close>

lemma settled_upd_peer:
  assumes "settled i c" "\<And>p. assigned (f p) = assigned p \<or> assigned (f p) \<noteq> i"
  shows "settled i (upd_peer a f c)"
proof -
  have "assigned (f p) \<noteq> i" if "peers c a = Some p" for p
    using that assms by (metis settled_def)
  then show ?thesis using assms(1) by (auto simp: settled_def assignees_def)
qed

lemma calm_upd_peer:
  assumes "\<And>p. assigned (f p) = assigned p \<or> assigned (f p) = -1"
  shows "calm c (upd_peer a f c)"
proof -
  have "settled i (upd_peer a f c)" if "settled i c" for i
  proof (rule settled_upd_peer [OF that])
    have "0 \<le> i" using that by (simp add: settled_def)
    then show "assigned (f p) = assigned p \<or> assigned (f p) \<noteq> i" for p using assms [of p] by auto
  qed
  then show ?thesis by (simp add: calm_def)
qed

text \<open>Peers that leave, or lose their piece.\<close>

lemma calm_peers:
  assumes "\<And>a p. ps a = Some p \<Longrightarrow> assigned p = -1 \<or> (\<exists>q. peers c a = Some q \<and> assigned p = assigned q)"
  shows "calm c (c\<lparr>peers := ps\<rparr>)"
proof -
  have "assigned p \<noteq> i" if "settled i c" "ps a = Some p" for i a p
    using assms [OF that(2)] that(1) unfolding settled_def by (metis int_one_le_iff_zero_less neg_0_le_iff_le not_one_le_zero)
  then show ?thesis by (auto simp: calm_def settled_def assignees_def)
qed

lemma calm_set_piece:
  assumes "set_piece j st c = Some c'" "st = pieceComplete \<or> \<not> settled j c"
  shows "calm c c'"
proof -
  have j: "0 \<le> j" "j < int (length (pieces c))" and c': "c' = c\<lparr>pieces := (pieces c)[nat j := st]\<rparr>"
    using assms(1) by (auto simp: set_piece_Some index_ok_def)
  have "settled i c'" if "settled i c" for i
  proof -
    have "(pieces c)[nat j := st] ! nat i = pieceComplete"
      using that assms(2) j by (cases "i = j") (auto simp: settled_def)
    then show ?thesis using that by (simp add: settled_def c' assignees_def)
  qed
  then show ?thesis by (simp add: calm_def c')
qed

section \<open>The changes that matter\<close>

lemma calm_assignPiece:
  assumes "assignPiece now a p j c = Some c'" "0 \<le> j" "pieces c ! nat j \<noteq> pieceComplete"
  shows "calm c c'"
  using assms(1)
proof (cases rule: assignPiece_cases)
  case (2 len)
  have "settled i c'" if "settled i c" for i
  proof -
    have ij: "i \<noteq> j" "nat i \<noteq> nat j" using that assms(2,3) by (auto simp: settled_def)
    have "settled i (c\<lparr>chans := (chans c)(commands p := [AssignPiece j len (pieceHashes c ! nat j)]),
        pieces := (pieces c)[nat j := pieceInFlight],
        assignments := (assignments c)(j \<mapsto> assignees c j @ [\<lparr>aaddr = a, aat = now\<rparr>])\<rparr>)"
      using that ij by (simp add: settled_def assignees_def)
    then show ?thesis unfolding 2(3) by (rule settled_upd_peer) (use ij(1) in simp)
  qed
  then show ?thesis by (simp add: calm_def 2(3))
qed simp

interpretation keeping: respected calm
proof unfold_locales
  show "calm c c1 \<Longrightarrow> calm c1 c2 \<Longrightarrow> calm c c2" for c c1 c2 :: "'a coordinator" by (rule calm_trans)
  show "unmoved c c' \<Longrightarrow> calm c c'" for c c' :: "'a coordinator"
    by (simp add: calm_def unmoved_settled) (simp add: unmoved_def)
  show "calm c (upd_peer a f c)" if "\<And>p. assigned (f p) = assigned p \<or> assigned (f p) = -1" for a f and c :: "'a coordinator"
    by (rule calm_upd_peer) (rule that)
  show "assigned p = -1 \<Longrightarrow> calm c (c\<lparr>peers := (peers c)(a \<mapsto> p)\<rparr>)" "calm c (c\<lparr>peers := (peers c)(a := None)\<rparr>)" for a p and c :: "'a coordinator"
    by (auto intro!: calm_peers split: if_splits)
  show "calm c c'" if "chan_send k cmd c = Some c'" for k cmd and c c' :: "'a coordinator"
    using that by (auto simp: chan_send_Some calm_def settled_def assignees_def)
  show "calm c c'" if "assignPiece now a p j c = Some c'" "0 \<le> j" "pieces c ! nat j \<noteq> pieceComplete" for now a p j and c c' :: "'a coordinator"
    by (rule calm_assignPiece [OF that])
  show "calm c c'" if "set_piece j pieceMissing c = Some c'" "\<not> settled j c" for j and c c' :: "'a coordinator"
    by (rule calm_set_piece [OF that(1)]) (simp add: that(2))
  show "calm c (c\<lparr>assignments := (assignments c)(j := l)\<rparr>)" if "\<not> settled j c \<or> l = assignments c j" for j l and c :: "'a coordinator"
    using that by (auto simp: calm_def settled_def assignees_def)
qed simp

lemma calm_handlePieceFailed:
  assumes "handlePieceFailed a j c = Some c'" "pieces c ! nat j \<noteq> pieceComplete"
  shows "calm c c'"
proof (rule keeping.failing [OF assms(1)])
  show "\<not> settled j (removeAssignee j a c)"
    using assms(2) removeAssignee_eq(1) [of j a c] by (auto simp: settled_def)
qed

text \<open>The one handler that hands a piece over, and settles it.\<close>

lemma handle_downloaded:
  assumes "handlePieceDownloaded taken a j d c = Some c'" "coordinator_ok c"
  shows "0 \<le> j \<and> j < pieceCount c" "calm c (c'\<lparr>results := results c\<rparr>)" "settled j c'"
    "results c' = results c @ (if taken \<and> pieces c ! nat j \<noteq> pieceComplete then [(j, d)] else [])"
proof -
  show j: "0 \<le> j \<and> j < pieceCount c"
    using assms by (auto simp: handlePieceDownloaded_def index_ok_piece split: if_splits)
  have sj: "settled j s" if "coordinator_ok s" "pieceCount s = pieceCount c" "pieces s ! nat j = pieceComplete" for s :: "'a coordinator"
    using that j by (simp add: settled_complete)
  show "calm c (c'\<lparr>results := results c\<rparr>)" "settled j c'"
    "results c' = results c @ (if taken \<and> pieces c ! nat j \<noteq> pieceComplete then [(j, d)] else [])"
  proof (atomize (full), cases "pieces c ! nat j = pieceComplete")
    case True
    then have "c' = c" using assms j by (auto simp: handlePieceDownloaded_def index_ok_piece split: if_splits)
    then show "calm c (c'\<lparr>results := results c\<rparr>) \<and> settled j c' \<and>
        results c' = results c @ (if taken \<and> pieces c ! nat j \<noteq> pieceComplete then [(j, d)] else [])"
      using True sj assms(2) by (simp add: calm_def)
  next
    case False
    let ?c1 = "c\<lparr>pieces := (pieces c)[nat j := pieceComplete]\<rparr>"
    let ?f = "\<lambda>b p. if b \<noteq> a \<and> b \<in> aaddr ` set (assignees c j) \<and> assigned p = j then p\<lparr>assigned := -1\<rparr> else p"
    obtain ch pr where c2: "cancelOtherAssignees j a ?c1 =
        ?c1\<lparr>chans := ch, cprogress := pr, peers := \<lambda>b. map_option (?f b) (peers c b)\<rparr>"
      using fold_cancel [of j a "assignees c j" ?c1] by (auto simp: cancelOtherAssignees_def)
    let ?c2 = "?c1\<lparr>chans := ch, cprogress := pr, peers := \<lambda>b. map_option (?f b) (peers c b),
      assignments := (assignments c)(j := None)\<rparr>"
    let ?c4 = "upd_peer a (assigned_update (\<lambda>_. -1)) ?c2"
    have c': "c' = (if taken then ?c4\<lparr>results := results c @ [(j, d)]\<rparr> else ?c4)"
      using assms False by (simp add: handlePieceDownloaded_def set_piece_def c2 Let_def split: if_splits)
    have free: "assigned p \<noteq> j" if p: "peers ?c4 b = Some p" for b p
    proof
      assume *: "assigned p = j"
      have "peers ?c4 b = map_option (\<lambda>p. if b = a then p\<lparr>assigned := -1\<rparr> else ?f b p) (peers c b)"
        by (cases "peers c b") auto
      then have "map_option (\<lambda>p. if b = a then p\<lparr>assigned := -1\<rparr> else ?f b p) (peers c b) = Some p"
        using p by (simp only:)
      then obtain q where q: "peers c b = Some q" "(if b = a then q\<lparr>assigned := -1\<rparr> else ?f b q) = p"
        unfolding map_option_eq_Some by (elim exE conjE)
      then have "b \<notin> aaddr ` set (assignees c j)" "assigned q = j" using * j by (auto split: if_splits)
      then show False using assigned_in_flight(4) [OF assms(2) q(1)] j by simp
    qed
    have l: "length (pieces c) = nat (pieceCount c)" by (rule coordinator_okD(3) [OF assms(2)])
    have "settled j ?c4"
      unfolding settled_def
    proof (intro conjI allI impI)
      show "0 \<le> j" "j < int (length (pieces ?c4))" "pieces ?c4 ! nat j = pieceComplete" using j l by simp_all
      show "assignees ?c4 j = []" by (simp add: assignees_def)
    qed (rule free)
    moreover have "settled i ?c4" if "settled i c" for i
    proof (cases "i = j")
      case False
      have "calm ?c2 ?c4" by (rule calm_upd_peer) simp
      moreover have "settled i ?c2"
        unfolding settled_def
      proof (intro conjI allI impI)
        show "0 \<le> i" "i < int (length (pieces ?c2))" "pieces ?c2 ! nat i = pieceComplete" "assignees ?c2 i = []"
          using that False j by (auto simp: settled_def assignees_def)
        fix b p assume "peers ?c2 b = Some p"
        then obtain q where "peers c b = Some q" "p = ?f b q" by auto
        then show "assigned p \<noteq> i" using that by (auto simp: settled_def)
      qed
      ultimately show ?thesis by (simp add: calm_def)
    qed (use \<open>settled j ?c4\<close> in simp)
    ultimately show "calm c (c'\<lparr>results := results c\<rparr>) \<and> settled j c' \<and>
        results c' = results c @ (if taken \<and> pieces c ! nat j \<noteq> pieceComplete then [(j, d)] else [])"
      using False by (simp add: c' calm_def)
  qed
qed

end
