(* ===== verification/Bencode.thy ===== *)
theory Bencode
  imports Prelude "HOL-Library.AList"
begin

text \<open>
  Package \<open>internal/bencode\<close>: the four value types and their accessors (\<open>value.go\<close>), the
  sentinel errors and limits, and the stream decoder (\<open>decode.go\<close>). The decoder threads an
  explicit state: the bytes not yet consumed, the nesting depth, and the number of bytes
  consumed so far, which the span recording of \<open>DecodeWithSpans\<close> reads.
\<close>

section \<open>Values, errors and limits\<close>

datatype bencode_error =
    ErrUnexpectedEOF
  | ErrInvalidTypeMarker
  | ErrInvalidInteger
  | ErrInvalidStringLen
  | ErrLimitExceeded
  | ErrNonStringKey
  | ErrUnsortedKeys
  | ErrTrailingData
  | ErrTypeMismatch
  | ErrKeyNotFound

definition MaxStringLength :: int where "MaxStringLength = 32 * 2 ^ 20"
definition MaxNestingDepth :: int where "MaxNestingDepth = 100"

text \<open>
  A \<open>Dictionary\<close> is a Go map from strings to values: an association list with distinct
  keys, whose order carries no meaning (the encoder sorts, as the code does).
\<close>

datatype bvalue =
    ByteString bytes
  | Integer int
  | BList "bvalue list"
  | Dictionary "(bytes \<times> bvalue) list"

type_synonym dictionary = "(bytes \<times> bvalue) list"

section \<open>Accessors\<close>

fun AsByteString :: "bvalue \<Rightarrow> (bencode_error, bytes) result" where
  "AsByteString (ByteString s) = Inr s"
| "AsByteString _ = Inl ErrTypeMismatch"

fun AsInteger :: "bvalue \<Rightarrow> (bencode_error, int) result" where
  "AsInteger (Integer n) = Inr n"
| "AsInteger _ = Inl ErrTypeMismatch"

fun AsList :: "bvalue \<Rightarrow> (bencode_error, bvalue list) result" where
  "AsList (BList l) = Inr l"
| "AsList _ = Inl ErrTypeMismatch"

fun AsDictionary :: "bvalue \<Rightarrow> (bencode_error, dictionary) result" where
  "AsDictionary (Dictionary d) = Inr d"
| "AsDictionary _ = Inl ErrTypeMismatch"

definition Get :: "dictionary \<Rightarrow> bytes \<Rightarrow> (bencode_error, bvalue) result" where
  "Get d key = (case map_of d key of None \<Rightarrow> Inl ErrKeyNotFound | Some v \<Rightarrow> Inr v)"

definition GetString :: "dictionary \<Rightarrow> bytes \<Rightarrow> (bencode_error, bytes) result" where
  "GetString d key = (case Get d key of Inl e \<Rightarrow> Inl e | Inr v \<Rightarrow> AsByteString v)"

definition GetInt :: "dictionary \<Rightarrow> bytes \<Rightarrow> (bencode_error, int) result" where
  "GetInt d key = (case Get d key of Inl e \<Rightarrow> Inl e | Inr v \<Rightarrow> AsInteger v)"

section \<open>Decimal numbers: package \<open>strconv\<close>\<close>

definition is_digit :: "byte \<Rightarrow> bool" where
  "is_digit c \<longleftrightarrow> 48 \<le> c \<and> c \<le> 57"

definition digits_value :: "bytes \<Rightarrow> int" where
  "digits_value ds = foldl (\<lambda>n c. n * 10 + (uint c - 48)) 0 ds"

text \<open>
  \<open>strconv.ParseInt(s, 10, 64)\<close>: an optional sign, at least one digit, and a value that
  fits \<open>int64\<close>; everything else is an error.
\<close>

definition ParseInt :: "bytes \<Rightarrow> int option" where
  "ParseInt s =
     (let neg = (s \<noteq> [] \<and> hd s = 45);
          ds = (if s \<noteq> [] \<and> (hd s = 45 \<or> hd s = 43) then tl s else s)
      in if ds = [] \<or> \<not> list_all is_digit ds then None
         else let n = (if neg then - digits_value ds else digits_value ds)
              in if int64_ok n then Some n else None)"

section \<open>The decoder\<close>

record decoder =
  rest :: bytes
  depth :: int
  pos :: int

definition NewDecoder :: "bytes \<Rightarrow> decoder" where
  "NewDecoder r = \<lparr>rest = r, depth = 0, pos = 0\<rparr>"

text \<open>\<open>Peek(1)\<close>: the next byte, or an error at the end of the input.\<close>

definition peek :: "decoder \<Rightarrow> byte option" where
  "peek d = (case rest d of [] \<Rightarrow> None | b # _ \<Rightarrow> Some b)"

definition consume :: "nat \<Rightarrow> decoder \<Rightarrow> decoder" where
  "consume n d = d\<lparr>rest := drop n (rest d), pos := pos d + int n\<rparr>"

definition readByte :: "decoder \<Rightarrow> byte option \<times> decoder" where
  "readByte d = (case rest d of [] \<Rightarrow> (None, d) | b # _ \<Rightarrow> (Some b, consume 1 d))"

text \<open>\<open>ReadString\<close> returns everything up to and including the delimiter; without one it
  consumes the whole input and fails.\<close>

definition readString :: "byte \<Rightarrow> decoder \<Rightarrow> bytes option \<times> decoder" where
  "readString delim d =
     (if delim \<in> set (rest d)
      then let s = takeWhile (\<lambda>b. b \<noteq> delim) (rest d) @ [delim]
           in (Some s, consume (length s) d)
      else (None, consume (length (rest d)) d))"

definition readFull :: "nat \<Rightarrow> decoder \<Rightarrow> bytes option \<times> decoder" where
  "readFull n d =
     (if n \<le> length (rest d) then (Some (take n (rest d)), consume n d)
      else (None, consume (length (rest d)) d))"

definition validateIntegerString :: "bytes \<Rightarrow> bencode_error option" where
  "validateIntegerString s =
     (if s = [] then Some ErrInvalidInteger
      else let neg = (hd s = 45); digits = (if neg then tl s else s)
      in if digits = [] then Some ErrInvalidInteger
         else if neg \<and> digits = [48] then Some ErrInvalidInteger
         else if 1 < length digits \<and> hd digits = 48 then Some ErrInvalidInteger
         else if \<not> list_all is_digit digits then Some ErrInvalidInteger
         else None)"

definition decodeInteger :: "decoder \<Rightarrow> (bencode_error, int) result \<times> decoder" where
  "decodeInteger d =
     (case readByte d of (None, d1) \<Rightarrow> (Inl ErrUnexpectedEOF, d1)
      | (Some _, d1) \<Rightarrow>
        (case readString 101 d1 of (None, d2) \<Rightarrow> (Inl ErrUnexpectedEOF, d2)
         | (Some s, d2) \<Rightarrow>
           (case validateIntegerString (butlast s) of Some e \<Rightarrow> (Inl e, d2)
            | None \<Rightarrow>
              (case ParseInt (butlast s) of None \<Rightarrow> (Inl ErrInvalidInteger, d2)
               | Some n \<Rightarrow> (Inr n, d2)))))"

definition decodeByteString :: "decoder \<Rightarrow> (bencode_error, bytes) result \<times> decoder" where
  "decodeByteString d =
     (case readString 58 d of (None, d1) \<Rightarrow> (Inl ErrUnexpectedEOF, d1)
      | (Some lenStr, d1) \<Rightarrow>
        (case ParseInt (butlast lenStr) of None \<Rightarrow> (Inl ErrInvalidStringLen, d1)
         | Some len \<Rightarrow>
           if len < 0 then (Inl ErrInvalidStringLen, d1)
           else if len > MaxStringLength then (Inl ErrLimitExceeded, d1)
           else (case readFull (nat len) d1 of (None, d2) \<Rightarrow> (Inl ErrUnexpectedEOF, d2)
                 | (Some buf, d2) \<Rightarrow> (Inr buf, d2))))"

definition enter :: "decoder \<Rightarrow> decoder" where
  "enter d = d\<lparr>depth := depth d + 1\<rparr>"

definition leave :: "decoder \<Rightarrow> decoder" where
  "leave d = d\<lparr>depth := depth d - 1\<rparr>"

text \<open>
  \<open>decodeValue\<close> and the list and dictionary decoders call each other; the \<open>for\<close> loops of the
  two containers are \<open>listLoop\<close> and \<open>dictLoop\<close>, whose arguments are the loop's variables.
  The deferred \<open>d.depth--\<close> is the \<open>leave\<close> on every return.
\<close>

function decodeValue :: "decoder \<Rightarrow> (bencode_error, bvalue) result \<times> decoder"
  and decodeList :: "decoder \<Rightarrow> (bencode_error, bvalue list) result \<times> decoder"
  and listLoop :: "bvalue list \<Rightarrow> decoder \<Rightarrow> (bencode_error, bvalue list) result \<times> decoder"
  and decodeDictionary :: "decoder \<Rightarrow> (bencode_error, dictionary) result \<times> decoder"
  and dictLoop :: "dictionary \<Rightarrow> bytes \<Rightarrow> bool \<Rightarrow> decoder \<Rightarrow>
    (bencode_error, dictionary) result \<times> decoder"
where
  "decodeValue d =
     (case peek d of
        None \<Rightarrow> (Inl ErrUnexpectedEOF, d)
      | Some b \<Rightarrow>
        if b = 105 then (case decodeInteger d of (r, d1) \<Rightarrow> (map_sum id Integer r, d1))
        else if b = 108 then (case decodeList d of (r, d1) \<Rightarrow> (map_sum id BList r, d1))
        else if b = 100 then (case decodeDictionary d of (r, d1) \<Rightarrow> (map_sum id Dictionary r, d1))
        else if is_digit b then (case decodeByteString d of (r, d1) \<Rightarrow> (map_sum id ByteString r, d1))
        else (Inl ErrInvalidTypeMarker, d))"
| "decodeList d =
     (case readByte d of (None, d1) \<Rightarrow> (Inl ErrUnexpectedEOF, d1)
      | (Some _, d1) \<Rightarrow>
        let d2 = enter d1
        in if depth d2 > MaxNestingDepth then (Inl ErrLimitExceeded, leave d2)
           else (case listLoop [] d2 of (r, d3) \<Rightarrow> (r, leave d3)))"
| "listLoop list d =
     (case peek d of
        None \<Rightarrow> (Inl ErrUnexpectedEOF, d)
      | Some b \<Rightarrow>
        if b = 101 then (Inr list, consume 1 d)
        else (case decodeValue d of
                (Inl e, d1) \<Rightarrow> (Inl e, d1)
              | (Inr v, d1) \<Rightarrow> listLoop (list @ [v]) d1))"
| "decodeDictionary d =
     (case readByte d of (None, d1) \<Rightarrow> (Inl ErrUnexpectedEOF, d1)
      | (Some _, d1) \<Rightarrow>
        let d2 = enter d1
        in if depth d2 > MaxNestingDepth then (Inl ErrLimitExceeded, leave d2)
           else (case dictLoop [] [] True d2 of (r, d3) \<Rightarrow> (r, leave d3)))"
| "dictLoop dict prevKey first d =
     (case peek d of
        None \<Rightarrow> (Inl ErrUnexpectedEOF, d)
      | Some b \<Rightarrow>
        if b = 101 then (Inr dict, consume 1 d)
        else (case decodeValue d of
                (Inl e, d1) \<Rightarrow> (Inl e, d1)
              | (Inr keyVal, d1) \<Rightarrow>
                (case AsByteString keyVal of
                   Inl _ \<Rightarrow> (Inl ErrNonStringKey, d1)
                 | Inr key \<Rightarrow>
                   if \<not> first \<and> key \<le> prevKey then (Inl ErrUnsortedKeys, d1)
                   else (case decodeValue d1 of
                           (Inl e, d2) \<Rightarrow> (Inl e, d2)
                         | (Inr v, d2) \<Rightarrow> dictLoop (AList.update key v dict) key False d2))))"
  by pat_completeness auto


section \<open>The decoder always stops\<close>

text \<open>
  Every successful call consumes at least one byte, so the loops of the container decoders
  stop. The fact is first proved where the functions are defined, and gives their termination.
\<close>

lemma consume_rest [simp]: "rest (consume n d) = drop n (rest d)"
  and consume_pos [simp]: "pos (consume n d) = pos d + int n"
  and consume_depth [simp]: "depth (consume n d) = depth d"
  by (simp_all add: consume_def)

lemma enter_sel [simp]: "rest (enter d) = rest d" "pos (enter d) = pos d" "depth (enter d) = depth d + 1"
  by (simp_all add: enter_def)

lemma leave_sel [simp]: "rest (leave d) = rest d" "pos (leave d) = pos d" "depth (leave d) = depth d - 1"
  by (simp_all add: leave_def)

lemma peek_Some: "peek d = Some b \<longleftrightarrow> (\<exists>bs. rest d = b # bs)"
  by (auto simp: peek_def split: list.splits)


lemma readByte_Some: "readByte d = (Some b, d1) \<longleftrightarrow> (\<exists>r. rest d = b # r \<and> d1 = consume 1 d)"
  by (auto simp: readByte_def split: list.splits)

lemma readString_Some:
  "readString c d = (Some s, d1) \<longleftrightarrow>
     c \<in> set (rest d) \<and> s = takeWhile (\<lambda>b. b \<noteq> c) (rest d) @ [c] \<and> d1 = consume (length s) d"
  by (auto simp: readString_def Let_def)

lemma readFull_Some:
  "readFull n d = (Some s, d1) \<longleftrightarrow> n \<le> length (rest d) \<and> s = take n (rest d) \<and> d1 = consume n d"
  by (auto simp: readFull_def)

lemma decodeInteger_shrinks:
  "decodeInteger d = (Inr n, d1) \<Longrightarrow> length (rest d1) < length (rest d)"
  by (auto simp: decodeInteger_def readByte_def readString_def Let_def
    split: list.splits option.splits if_splits)

lemma decodeByteString_shrinks:
  "decodeByteString d = (Inr s, d1) \<Longrightarrow> length (rest d1) < length (rest d)"
  by (cases "rest d") (auto simp: decodeByteString_def readString_def readFull_def Let_def
    split: option.splits if_splits)

lemma decode_shrinks_dom:
  "decodeValue_decodeList_listLoop_decodeDictionary_dictLoop_dom (Inl (Inl d)) \<Longrightarrow>
    decodeValue d = (Inr v, d') \<Longrightarrow> length (rest d') < length (rest d)"
  "decodeValue_decodeList_listLoop_decodeDictionary_dictLoop_dom (Inl (Inr d)) \<Longrightarrow>
    decodeList d = (Inr l, d') \<Longrightarrow> length (rest d') < length (rest d)"
  "decodeValue_decodeList_listLoop_decodeDictionary_dictLoop_dom (Inr (Inl (acc, d))) \<Longrightarrow>
    listLoop acc d = (Inr l, d') \<Longrightarrow> length (rest d') < length (rest d)"
  "decodeValue_decodeList_listLoop_decodeDictionary_dictLoop_dom (Inr (Inr (Inl d))) \<Longrightarrow>
    decodeDictionary d = (Inr m, d') \<Longrightarrow> length (rest d') < length (rest d)"
  "decodeValue_decodeList_listLoop_decodeDictionary_dictLoop_dom (Inr (Inr (Inr (dict, k, f, d)))) \<Longrightarrow>
    dictLoop dict k f d = (Inr m, d') \<Longrightarrow> length (rest d') < length (rest d)"
proof (induction arbitrary: v d' and l d' and l d' and m d' and m d'
    rule: decodeValue_decodeList_listLoop_decodeDictionary_dictLoop.pinduct)
  case (1 d)
  then show ?case
    by (auto simp: decodeValue.psimps peek_def split: list.splits if_splits prod.splits sum.splits
        dest: decodeInteger_shrinks decodeByteString_shrinks)
next
  case (2 d)
  then show ?case
    by (force simp: decodeList.psimps readByte_def Let_def split: list.splits if_splits prod.splits)
next
  case (3 list d)
  then show ?case
    by (force simp: listLoop.psimps peek_def split: list.splits if_splits prod.splits sum.splits)
next
  case (4 d)
  then show ?case
    by (force simp: decodeDictionary.psimps readByte_def Let_def split: list.splits if_splits prod.splits)
next
  case (5 dict prevKey first d)
  from "5.prems" "5.hyps" have eq: "(case peek d of
        None \<Rightarrow> (Inl ErrUnexpectedEOF, d)
      | Some b \<Rightarrow>
        if b = 101 then (Inr dict, consume 1 d)
        else (case decodeValue d of
                (Inl e, d1) \<Rightarrow> (Inl e, d1)
              | (Inr keyVal, d1) \<Rightarrow>
                (case AsByteString keyVal of
                   Inl _ \<Rightarrow> (Inl ErrNonStringKey, d1)
                 | Inr key \<Rightarrow>
                   if \<not> first \<and> key \<le> prevKey then (Inl ErrUnsortedKeys, d1)
                   else (case decodeValue d1 of
                           (Inl e, d2) \<Rightarrow> (Inl e, d2)
                         | (Inr v, d2) \<Rightarrow> dictLoop (AList.update key v dict) key False d2)))) = (Inr m, d')"
    by (simp add: dictLoop.psimps)
  then consider (stop) b r where "rest d = b # r" "d' = consume 1 d"
    | (more) b kv d1 key v d2 where "peek d = Some b" "b \<noteq> 101"
        "decodeValue d = (Inr kv, d1)" "AsByteString kv = Inr key"
        "\<not> (\<not> first \<and> key \<le> prevKey)" "decodeValue d1 = (Inr v, d2)"
        "dictLoop (AList.update key v dict) key False d2 = (Inr m, d')"
    by (auto simp: peek_Some split: option.splits if_splits prod.splits sum.splits)
  then show ?case
  proof cases
    case stop
    then show ?thesis by simp
  next
    case more
    have "length (rest d1) < length (rest d)"
      by (rule "5.IH"(1)) (use more in auto)
    moreover have "length (rest d2) < length (rest d1)"
      by (rule "5.IH"(2)) (use more in auto)
    moreover have "length (rest d') < length (rest d2)"
      by (rule "5.IH"(3)) (use more in auto)
    ultimately show ?thesis by linarith
  qed
qed

lemma decode_shrinks_dom':
  "decodeValue_decodeList_listLoop_decodeDictionary_dictLoop_dom (Inl (Inl d)) \<Longrightarrow>
    (Inr v, d') = decodeValue d \<Longrightarrow> length (rest d') < length (rest d)"
  by (rule decode_shrinks_dom(1) [of d v d']) auto

termination decodeValue
  by (relation "measure (\<lambda>x. case x of
      Inl (Inl d) \<Rightarrow> 3 * length (rest d) + 1
    | Inl (Inr d) \<Rightarrow> 3 * length (rest d)
    | Inr (Inl (_, d)) \<Rightarrow> 3 * length (rest d) + 2
    | Inr (Inr (Inl d)) \<Rightarrow> 3 * length (rest d)
    | Inr (Inr (Inr (_, _, _, d))) \<Rightarrow> 3 * length (rest d) + 2)")
    (auto simp: readByte_Some peek_Some eq_commute [of _ "readByte _"] dest!: decode_shrinks_dom')

declare decodeValue.simps [simp del] decodeList.simps [simp del] listLoop.simps [simp del]
  decodeDictionary.simps [simp del] dictLoop.simps [simp del]

section \<open>Whole inputs\<close>

definition DecodeStrict :: "bytes \<Rightarrow> (bencode_error, bvalue) result" where
  "DecodeStrict r =
     (case decodeValue (NewDecoder r) of
        (Inl e, d) \<Rightarrow> Inl e
      | (Inr v, d) \<Rightarrow> (if peek d \<noteq> None then Inl ErrTrailingData else Inr v))"

definition AtEnd :: "decoder \<Rightarrow> bool" where
  "AtEnd d \<longleftrightarrow> peek d = None"

end
