(* ===== verification/Bencode_Grammar.thy ===== *)
theory Bencode_Grammar
  imports Bencode
begin

text \<open>
  What the decoder accepts, stated without a decoder: \<open>bgrammar k u v\<close> says that the bytes
  \<open>u\<close>, read at nesting depth \<open>k\<close>, are the bencoding of \<open>v\<close>. The two halves of the
  specification are \<open>decodeValue_sound\<close> (what is returned was spelled by the consumed bytes) and
  \<open>decodeValue_complete\<close> (every bencoding is decoded, whatever follows it).
\<close>

section \<open>The language\<close>

definition int_text :: "bytes \<Rightarrow> int \<Rightarrow> bool" where
  "int_text s n \<longleftrightarrow> validateIntegerString s = None \<and> ParseInt s = Some n"

definition len_text :: "bytes \<Rightarrow> int \<Rightarrow> bool" where
  "len_text l n \<longleftrightarrow> l \<noteq> [] \<and> list_all is_digit l \<and> digits_value l = n \<and> n \<le> MaxStringLength"

inductive bgrammar :: "int \<Rightarrow> bytes \<Rightarrow> bvalue \<Rightarrow> bool"
  and bitems :: "int \<Rightarrow> bytes \<Rightarrow> bvalue list \<Rightarrow> bool"
  and bpairs :: "int \<Rightarrow> bytes \<Rightarrow> dictionary \<Rightarrow> bool"
where
  integer: "int_text s n \<Longrightarrow> bgrammar k (105 # s @ [101]) (Integer n)"
| byte_string: "len_text l (int (length s)) \<Longrightarrow> bgrammar k (l @ 58 # s) (ByteString s)"
| list: "k < MaxNestingDepth \<Longrightarrow> bitems (k + 1) u vs \<Longrightarrow> bgrammar k (108 # u @ [101]) (BList vs)"
| dict: "k < MaxNestingDepth \<Longrightarrow> bpairs (k + 1) u ps \<Longrightarrow>
    bgrammar k (100 # u @ [101]) (Dictionary ps)"
| items_Nil: "bitems k [] []"
| items_Cons: "bgrammar k u v \<Longrightarrow> bitems k us vs \<Longrightarrow> bitems k (u @ us) (v # vs)"
| pairs_Nil: "bpairs k [] []"
| pairs_Cons: "bgrammar k ku (ByteString key) \<Longrightarrow> bgrammar k u v \<Longrightarrow> bpairs k us ps \<Longrightarrow>
    (\<forall>p \<in> set ps. key < fst p) \<Longrightarrow> bpairs k (ku @ u @ us) ((key, v) # ps)"

lemmas bgrammar_intros = bgrammar_bitems_bpairs.intros
lemmas bgrammar_induct = bgrammar_bitems_bpairs.inducts

inductive_cases bgrammar_ByteStringE: "bgrammar k u (ByteString s)"

section \<open>Digits\<close>

lemma is_digit_not_colon: "is_digit c \<Longrightarrow> c \<noteq> 58" "is_digit c \<Longrightarrow> c \<noteq> 101"
    "is_digit c \<Longrightarrow> c \<noteq> 105" "is_digit c \<Longrightarrow> c \<noteq> 108" "is_digit c \<Longrightarrow> c \<noteq> 100"
    "is_digit c \<Longrightarrow> c \<noteq> 43" "is_digit c \<Longrightarrow> c \<noteq> 45"
  by (auto simp: is_digit_def)

lemma is_digit_value: "is_digit c \<Longrightarrow> 0 \<le> uint c - 48 \<and> uint c - 48 \<le> 9"
proof -
  assume "is_digit c"
  then have "uint (48 :: byte) \<le> uint c" "uint c \<le> uint (57 :: byte)"
    by (simp_all only: is_digit_def word_le_def)
  moreover have "uint (48 :: byte) = 48" "uint (57 :: byte) = 57" by simp_all
  ultimately show ?thesis by linarith
qed

lemma digits_value_nonneg: "list_all is_digit ds \<Longrightarrow> 0 \<le> digits_value ds"
proof -
  have "list_all is_digit ds \<Longrightarrow> 0 \<le> n \<Longrightarrow> 0 \<le> foldl (\<lambda>n c. n * 10 + (uint c - 48)) n ds" for n
  proof (induction ds arbitrary: n)
    case (Cons c ds)
    then have "0 \<le> uint c - 48" using is_digit_value by simp
    with Cons show ?case by simp
  qed simp
  then show "list_all is_digit ds \<Longrightarrow> 0 \<le> digits_value ds"
    by (simp add: digits_value_def)
qed

lemma int_text_no_e: "int_text s n \<Longrightarrow> 101 \<notin> set s"
  by (cases s) (auto simp: int_text_def validateIntegerString_def Let_def list_all_iff
      split: if_splits dest: is_digit_not_colon)

lemma int_text_int64: "int_text s n \<Longrightarrow> int64_ok n"
  by (auto simp: int_text_def ParseInt_def Let_def split: if_splits)

lemma len_text_no_colon: "len_text l n \<Longrightarrow> 58 \<notin> set l"
  by (auto simp: len_text_def list_all_iff dest: is_digit_not_colon)

lemma len_text_ParseInt:
  assumes "len_text l n"
  shows "ParseInt l = Some n" "0 \<le> n" "n \<le> MaxStringLength"
proof -
  obtain c cs where l: "l = c # cs" using assms by (cases l) (auto simp: len_text_def)
  have c: "is_digit c" and v: "digits_value l = n" "list_all is_digit l" "n \<le> MaxStringLength"
    using assms l by (auto simp: len_text_def)
  show n: "0 \<le> n" "n \<le> MaxStringLength" using v digits_value_nonneg [OF v(2)] by simp_all
  have "c \<noteq> 45" "c \<noteq> 43" using c by (auto dest: is_digit_not_colon)
  then show "ParseInt l = Some n"
    using v n by (simp add: l ParseInt_def MaxStringLength_def)
qed

lemma ParseInt_len_text:
  assumes "ParseInt l = Some n" "n \<le> MaxStringLength" "l = c # cs" "is_digit c"
  shows "len_text l n"
  using assms by (auto simp: ParseInt_def len_text_def Let_def split: if_splits dest: is_digit_not_colon)

section \<open>Completeness: every bencoding is decoded\<close>

lemma bgrammar_nonempty: "bgrammar k u v \<Longrightarrow> u \<noteq> []"
  by (erule bgrammar.cases) auto

lemma len_text_digit: "len_text l n \<Longrightarrow> \<exists>c cs. l = c # cs \<and> is_digit c"
  by (cases l) (auto simp: len_text_def)

text \<open>No value starts with the terminator, so a loop that sees it is at its end.\<close>

lemma bgrammar_hd: "bgrammar k u v \<Longrightarrow> hd u \<noteq> 101"
  by (erule bgrammar.cases) (auto dest!: len_text_digit dest: is_digit_not_colon)

lemma takeWhile_delim: "c \<notin> set s \<Longrightarrow> takeWhile (\<lambda>b. b \<noteq> c) (s @ c # r) = s"
  by (induction s) auto

lemma readString_delim:
  "c \<notin> set s \<Longrightarrow> rest d = s @ c # r \<Longrightarrow> readString c d = (Some (s @ [c]), consume (length s + 1) d)"
  by (simp add: readString_def takeWhile_delim)

lemma consume_consume [simp]: "consume m (consume n d) = consume (n + m) d"
  by (simp add: consume_def add.commute)

lemma leave_consume_enter [simp]: "leave (consume n (enter d)) = consume n d"
  by (simp add: leave_def enter_def consume_def)

lemma consume_enter: "consume n (enter d) = enter (consume n d)"
  by (simp add: enter_def consume_def)

lemma leave_enter [simp]: "leave (enter d) = d"
  by (simp add: enter_def leave_def)

lemma decodeInteger_complete:
  assumes "int_text s n" "rest d = 105 # s @ 101 # r"
  shows "decodeInteger d = (Inr n, consume (length s + 2) d)"
proof -
  have "readByte d = (Some 105, consume 1 d)" using assms(2) by (simp add: readByte_def)
  moreover have "readString 101 (consume 1 d) = (Some (s @ [101]), consume (length s + 1) (consume 1 d))"
    by (rule readString_delim [where r = r]) (use assms in \<open>auto dest: int_text_no_e\<close>)
  ultimately show ?thesis using assms(1) by (simp add: decodeInteger_def int_text_def)
qed

lemma decodeByteString_complete:
  assumes "len_text l (int (length s))" "rest d = l @ 58 # s @ r"
  shows "decodeByteString d = (Inr s, consume (length l + 1 + length s) d)"
proof -
  have "readString 58 d = (Some (l @ [58]), consume (length l + 1) d)"
    by (rule readString_delim [where r = "s @ r"]) (use assms in \<open>auto dest: len_text_no_colon\<close>)
  then show ?thesis
    using assms len_text_ParseInt [OF assms(1)] by (simp add: decodeByteString_def readFull_def)
qed

lemma update_new: "key \<notin> fst ` set dict \<Longrightarrow> AList.update key v dict = dict @ [(key, v)]"
  by (induction dict) auto

lemma decode_complete:
  "bgrammar k u v \<Longrightarrow> rest d = u @ r \<Longrightarrow> depth d \<le> k \<Longrightarrow>
    decodeValue d = (Inr v, consume (length u) d)"
  "bitems k u vs \<Longrightarrow> rest d = u @ 101 # r \<Longrightarrow> depth d \<le> k \<Longrightarrow>
    listLoop acc d = (Inr (acc @ vs), consume (length u + 1) d)"
  "bpairs k u ps \<Longrightarrow> rest d = u @ 101 # r \<Longrightarrow> depth d \<le> k \<Longrightarrow>
    (\<forall>p \<in> set ps. p0 \<or> prev < fst p) \<Longrightarrow> (\<forall>p \<in> set ps. fst p \<notin> fst ` set dict) \<Longrightarrow>
    dictLoop dict prev p0 d = (Inr (dict @ ps), consume (length u + 1) d)"
proof (induction arbitrary: d r and acc d r and dict prev p0 d r rule: bgrammar_induct)
  case (integer s n k)
  then have "decodeInteger d = (Inr n, consume (length s + 2) d)"
    by (intro decodeInteger_complete [where r = r]) auto
  with integer show ?case by (simp add: decodeValue.simps peek_def)
next
  case (byte_string l s k)
  then have "decodeByteString d = (Inr s, consume (length l + 1 + length s) d)"
    by (intro decodeByteString_complete [where r = r]) auto
  moreover obtain c cs where "l = c # cs" "is_digit c"
    using len_text_digit [OF byte_string.hyps] by blast
  ultimately show ?case
    using byte_string.prems by (simp add: decodeValue.simps peek_def is_digit_not_colon)
next
  case (list k u vs)
  have "listLoop [] (enter (consume 1 d)) = (Inr ([] @ vs), consume (length u + 1) (enter (consume 1 d)))"
    by (rule list.IH [where r = r]) (use list.prems in auto)
  then show ?case
    using list.prems list.hyps
    by (simp add: decodeValue.simps peek_def decodeList.simps readByte_def)
next
  case (dict k u ps)
  have "dictLoop [] [] True (enter (consume 1 d))
      = (Inr ([] @ ps), consume (length u + 1) (enter (consume 1 d)))"
    by (rule dict.IH [where r = r]) (use dict.prems in auto)
  then show ?case
    using dict.prems dict.hyps
    by (simp add: decodeValue.simps peek_def decodeDictionary.simps readByte_def)
next
  case (items_Nil k)
  then show ?case by (simp add: listLoop.simps peek_def)
next
  case (items_Cons k u v us vs)
  have "decodeValue d = (Inr v, consume (length u) d)"
    by (rule items_Cons.IH(1) [where r = "us @ 101 # r"]) (use items_Cons.prems in auto)
  moreover have "listLoop (acc @ [v]) (consume (length u) d)
      = (Inr ((acc @ [v]) @ vs), consume (length us + 1) (consume (length u) d))"
    by (rule items_Cons.IH(2) [where r = r]) (use items_Cons.prems in auto)
  moreover obtain b u' where "u = b # u'" "b \<noteq> 101"
    using bgrammar_nonempty [OF items_Cons.hyps(1)] bgrammar_hd [OF items_Cons.hyps(1)]
    by (cases u) auto
  ultimately show ?case
    using items_Cons.prems by (simp add: listLoop.simps [of acc d] peek_def add.assoc)
next
  case (pairs_Nil k)
  then show ?case by (simp add: dictLoop.simps peek_def)
next
  case (pairs_Cons k ku key u v us ps)
  have "decodeValue d = (Inr (ByteString key), consume (length ku) d)"
    by (rule pairs_Cons.IH(1) [where r = "u @ us @ 101 # r"]) (use pairs_Cons.prems in auto)
  moreover have "decodeValue (consume (length ku) d)
      = (Inr v, consume (length u) (consume (length ku) d))"
    by (rule pairs_Cons.IH(2) [where r = "us @ 101 # r"]) (use pairs_Cons.prems in auto)
  moreover have "dictLoop (AList.update key v dict) key False (consume (length ku + length u) d)
      = (Inr ((dict @ [(key, v)]) @ ps), consume (length us + 1) (consume (length ku + length u) d))"
    using pairs_Cons.prems pairs_Cons.hyps(4)
    by (subst update_new, force, intro pairs_Cons.IH(3) [where r = r]) auto
  moreover obtain b u' where "ku = b # u'" "b \<noteq> 101"
    using bgrammar_nonempty [OF pairs_Cons.hyps(1)] bgrammar_hd [OF pairs_Cons.hyps(1)]
    by (cases ku) auto
  moreover have "\<not> (\<not> p0 \<and> key \<le> prev)"
    using pairs_Cons.prems(3) by auto
  ultimately show ?case
    using pairs_Cons.prems by (simp add: dictLoop.simps [of dict prev p0 d] peek_def add.assoc)
qed


section \<open>Soundness: what is decoded was spelled\<close>

text \<open>One iteration of each loop, read backwards from a successful result.\<close>

lemma listLoop_InrE:
  assumes "listLoop acc d = (Inr l, d')"
  obtains (stop) r where "rest d = 101 # r" "l = acc" "d' = consume 1 d"
    | (more) b v d1 where "peek d = Some b" "b \<noteq> 101" "decodeValue d = (Inr v, d1)"
        "listLoop (acc @ [v]) d1 = (Inr l, d')"
  using assms by (subst (asm) listLoop.simps)
    (auto simp: peek_Some split: option.splits if_splits prod.splits sum.splits)

lemma dictLoop_InrE:
  assumes "dictLoop dict prev first d = (Inr m, d')"
  obtains (stop) r where "rest d = 101 # r" "m = dict" "d' = consume 1 d"
    | (more) b key d1 v d2 where "peek d = Some b" "b \<noteq> 101"
        "decodeValue d = (Inr (ByteString key), d1)" "\<not> (\<not> first \<and> key \<le> prev)"
        "decodeValue d1 = (Inr v, d2)"
        "dictLoop (AList.update key v dict) key False d2 = (Inr m, d')"
  using assms by (subst (asm) dictLoop.simps)
    (auto simp: peek_Some split: option.splits if_splits prod.splits sum.splits elim!: AsByteString.elims)

lemma takeWhile_readString:
  "c \<in> set xs \<Longrightarrow> xs = takeWhile (\<lambda>b. b \<noteq> c) xs @ c # drop (length (takeWhile (\<lambda>b. b \<noteq> c) xs) + 1) xs"
  by (induction xs) auto

lemma decodeInteger_sound:
  assumes "decodeInteger d = (Inr n, d')" "rest d = 105 # xs"
  obtains s r where "rest d = (105 # s @ [101]) @ r" "d' = consume (length s + 2) d" "int_text s n"
proof -
  let ?s = "takeWhile (\<lambda>b. b \<noteq> 101) xs"
  from assms have mem: "101 \<in> set xs" and d': "d' = consume (length ?s + 2) d"
    and t: "int_text ?s n"
    by (auto simp: decodeInteger_def readByte_def readString_def Let_def int_text_def
        split: option.splits if_splits)
  from takeWhile_readString [OF mem] assms(2)
  have "rest d = (105 # ?s @ [101]) @ drop (length ?s + 1) xs" by simp
  then show thesis using that d' t by blast
qed

lemma decodeByteString_sound:
  assumes "decodeByteString d = (Inr s, d')" "rest d = c # cs" "is_digit c"
  obtains l r where "rest d = (l @ 58 # s) @ r" "d' = consume (length l + 1 + length s) d"
    "len_text l (int (length s))"
proof -
  let ?l = "takeWhile (\<lambda>b. b \<noteq> 58) (rest d)"
  let ?t = "drop (length ?l + 1) (rest d)"
  from assms(1) obtain n where mem: "58 \<in> set (rest d)" and n: "ParseInt ?l = Some n"
    "0 \<le> n" "n \<le> MaxStringLength" and d': "d' = consume (length ?l + 1 + nat n) d"
    and len: "nat n \<le> length ?t" and s: "s = take (nat n) ?t"
    by (auto simp: decodeByteString_def readString_def readFull_def Let_def
        split: option.splits if_splits)
  have ls: "length s = nat n" using s len by simp
  have "?l = c # takeWhile (\<lambda>b. b \<noteq> 58) cs" using assms by (auto dest: is_digit_not_colon)
  then have t: "len_text ?l (int (length s))"
    using ParseInt_len_text [OF n(1) n(3)] assms(3) ls n(2) by simp
  have "rest d = ?l @ 58 # ?t" by (rule takeWhile_readString [OF mem])
  also have "?t = s @ drop (nat n) ?t" unfolding s by (rule append_take_drop_id [symmetric])
  finally have "rest d = (?l @ 58 # s) @ drop (nat n) ?t" by simp
  then show thesis using that d' t ls by simp
qed

text \<open>The invariant of the dictionary loop: \<open>prevKey\<close> is the largest key stored so far.\<close>

definition loop_ok :: "dictionary \<Rightarrow> bytes \<Rightarrow> bool \<Rightarrow> bool" where
  "loop_ok dict prev first \<longleftrightarrow> (first \<longrightarrow> dict = []) \<and> (\<forall>p \<in> set dict. fst p \<le> prev)"

lemma loop_ok_new: "loop_ok dict prev first \<Longrightarrow> \<not> (\<not> first \<and> key \<le> prev) \<Longrightarrow> key \<notin> fst ` set dict"
  by (cases first) (force simp: loop_ok_def)+

lemma loop_ok_start: "loop_ok [] [] True"
  by (simp add: loop_ok_def)

lemma loop_ok_step:
  "loop_ok dict prev first \<Longrightarrow> \<not> (\<not> first \<and> key \<le> prev) \<Longrightarrow>
    loop_ok (AList.update key v dict) key False"
  by (frule (1) loop_ok_new) (fastforce simp: loop_ok_def update_new)

lemma decode_sound:
  "decodeValue d = (Inr v, d') \<Longrightarrow>
    \<exists>u r. rest d = u @ r \<and> d' = consume (length u) d \<and> bgrammar (depth d) u v"
  "decodeList d = (Inr l, d') \<Longrightarrow>
    \<exists>b u r. rest d = b # u @ 101 # r \<and> d' = consume (length u + 2) d \<and>
      depth d < MaxNestingDepth \<and> bitems (depth d + 1) u l"
  "listLoop acc d = (Inr l, d') \<Longrightarrow>
    \<exists>u r vs. rest d = u @ 101 # r \<and> d' = consume (length u + 1) d \<and> l = acc @ vs \<and>
      bitems (depth d) u vs"
  "decodeDictionary d = (Inr m, d') \<Longrightarrow>
    \<exists>b u r. rest d = b # u @ 101 # r \<and> d' = consume (length u + 2) d \<and>
      depth d < MaxNestingDepth \<and> bpairs (depth d + 1) u m"
  "dictLoop dict prev first d = (Inr m, d') \<Longrightarrow> loop_ok dict prev first \<Longrightarrow>
    \<exists>u r ps. rest d = u @ 101 # r \<and> d' = consume (length u + 1) d \<and> m = dict @ ps \<and>
      bpairs (depth d) u ps \<and> (\<forall>p \<in> set ps. first \<or> prev < fst p)"
proof (induction d and d and acc d and d and dict prev first d
    arbitrary: v d' and l d' and l d' and m d' and m d'
    rule: decodeValue_decodeList_listLoop_decodeDictionary_dictLoop.induct)
  case (1 d)
  from "1.prems" obtain b xs where d: "rest d = b # xs"
    by (auto simp: decodeValue.simps [of d] peek_def split: list.splits)
  then have pk: "peek d = Some b" by (simp add: peek_def)
  consider "b = 105" | "b = 108" | "b = 100" | "b \<noteq> 105" "b \<noteq> 108" "b \<noteq> 100" by blast
  then show ?case
  proof cases
    assume b: "b = 105"
    then obtain n where n: "decodeInteger d = (Inr n, d')" "v = Integer n"
      using "1.prems" pk by (auto simp: decodeValue.simps [of d] split: prod.splits)
    obtain s r where s: "rest d = (105 # s @ [101]) @ r" "d' = consume (length s + 2) d" "int_text s n"
      using decodeInteger_sound [OF n(1)] d b by blast
    show ?thesis
      by (rule exI [of _ "105 # s @ [101]"], rule exI [of _ r])
        (use s n(2) in \<open>simp add: bgrammar_intros(1)\<close>)
  next
    assume b: "b = 108"
    then obtain l where l: "decodeList d = (Inr l, d')" "v = BList l"
      using "1.prems" pk by (auto simp: decodeValue.simps [of d] split: prod.splits)
    have "b \<noteq> 105" using b by simp
    then obtain b' u r where u: "rest d = b' # u @ 101 # r" "d' = consume (length u + 2) d"
      "depth d < MaxNestingDepth" "bitems (depth d + 1) u l"
      using "1.IH"(1) [OF pk _ b l(1)] by blast
    have "b' = 108" using u(1) d b by simp
    with u l(2) show ?thesis
      by (intro exI [of _ "108 # u @ [101]"] exI [of _ r]) (simp add: bgrammar_intros(3))
  next
    assume b: "b = 100"
    then obtain m where m: "decodeDictionary d = (Inr m, d')" "v = Dictionary m"
      using "1.prems" pk by (auto simp: decodeValue.simps [of d] split: prod.splits)
    have "b \<noteq> 105" "b \<noteq> 108" using b by simp_all
    then obtain b' u r where u: "rest d = b' # u @ 101 # r" "d' = consume (length u + 2) d"
      "depth d < MaxNestingDepth" "bpairs (depth d + 1) u m"
      using "1.IH"(2) [OF pk _ _ b m(1)] by blast
    have "b' = 100" using u(1) d b by simp
    with u m(2) show ?thesis
      by (intro exI [of _ "100 # u @ [101]"] exI [of _ r]) (simp add: bgrammar_intros(4))
  next
    assume b: "b \<noteq> 105" "b \<noteq> 108" "b \<noteq> 100"
    then obtain s where s: "decodeByteString d = (Inr s, d')" "v = ByteString s" "is_digit b"
      using "1.prems" pk by (auto simp: decodeValue.simps [of d] split: prod.splits if_splits)
    obtain l r where l: "rest d = (l @ 58 # s) @ r" "d' = consume (length l + 1 + length s) d"
      "len_text l (int (length s))"
      using decodeByteString_sound [OF s(1) d s(3)] by blast
    show ?thesis
      by (rule exI [of _ "l @ 58 # s"], rule exI [of _ r])
        (use l s(2) in \<open>simp add: bgrammar_intros(2)\<close>)
  qed
next
  case (2 d)
  from "2.prems" obtain b xs d3 where d: "rest d = b # xs" and k: "depth d < MaxNestingDepth"
    and loop: "listLoop [] (enter (consume 1 d)) = (Inr l, d3)" and d': "d' = leave d3"
    by (auto simp: decodeList.simps [of d] readByte_def Let_def split: list.splits if_splits prod.splits)
  have "\<exists>u r vs. rest (enter (consume 1 d)) = u @ 101 # r \<and>
      d3 = consume (length u + 1) (enter (consume 1 d)) \<and> l = [] @ vs \<and>
      bitems (depth (enter (consume 1 d))) u vs"
    by (rule "2.IH" [OF _ _ _ _ loop]) (use d k in \<open>auto simp: readByte_def\<close>)
  then show ?case using d d' k by auto
next
  case (3 acc d)
  from "3.prems" show ?case
  proof (cases rule: listLoop_InrE)
    case (stop r)
    then show ?thesis
      by (intro exI [of _ "[]"] exI [of _ r] exI [of _ "[]"]) (simp add: bgrammar_intros)
  next
    case (more b v d1)
    obtain u r where u: "rest d = u @ r" "d1 = consume (length u) d" "bgrammar (depth d) u v"
      using "3.IH"(1) [OF more(1,2,3)] by blast
    obtain us rs vs where "rest d1 = us @ 101 # rs" "d' = consume (length us + 1) d1"
      "l = (acc @ [v]) @ vs" "bitems (depth d1) us vs"
      using "3.IH"(2) [OF more(1,2) more(3) [symmetric] refl more(4)] by blast
    then show ?thesis
      using u by (intro exI [of _ "u @ us"] exI [of _ rs] exI [of _ "v # vs"])
        (simp add: bgrammar_intros add.assoc)
  qed
next
  case (4 d)
  from "4.prems" obtain b xs d3 where d: "rest d = b # xs" and k: "depth d < MaxNestingDepth"
    and loop: "dictLoop [] [] True (enter (consume 1 d)) = (Inr m, d3)" and d': "d' = leave d3"
    by (auto simp: decodeDictionary.simps [of d] readByte_def Let_def
        split: list.splits if_splits prod.splits)
  have rb: "readByte d = (Some b, consume 1 d)" using d by (simp add: readByte_def)
  have k': "\<not> MaxNestingDepth < depth (enter (consume 1 d))" using k by simp
  have "\<exists>u r ps. rest (enter (consume 1 d)) = u @ 101 # r \<and>
      d3 = consume (length u + 1) (enter (consume 1 d)) \<and> m = [] @ ps \<and>
      bpairs (depth (enter (consume 1 d))) u ps"
    using "4.IH" [OF rb [symmetric] refl refl k' loop loop_ok_start] by blast
  then show ?case using d d' k by auto
next
  case (5 dict prev first d)
  from "5.prems"(1) show ?case
  proof (cases rule: dictLoop_InrE)
    case (stop r)
    then show ?thesis
      by (intro exI [of _ "[]"] exI [of _ r] exI [of _ "[]"]) (simp add: bgrammar_intros)
  next
    case (more b key d1 v d2)
    have new: "key \<notin> fst ` set dict"
      by (rule loop_ok_new [OF "5.prems"(2) more(4)])
    have prev: "first \<or> prev < key" using more(4) by auto
    obtain ku r where ku: "rest d = ku @ r" "d1 = consume (length ku) d"
      "bgrammar (depth d) ku (ByteString key)"
      using "5.IH"(1) [OF more(1,2,3)] by blast
    obtain u r1 where u: "rest d1 = u @ r1" "d2 = consume (length u) d1" "bgrammar (depth d1) u v"
      using "5.IH"(2) [OF more(1,2) more(3) [symmetric] refl _ more(4,5)] by auto
    obtain us r2 ps where us: "rest d2 = us @ 101 # r2" "d' = consume (length us + 1) d2"
      "m = dict @ (key, v) # ps" "bpairs (depth d2) us ps" "\<forall>p \<in> set ps. key < fst p"
      using "5.IH"(3) [OF more(1,2) more(3) [symmetric] refl _ more(4) more(5) [symmetric] refl more(6)
        loop_ok_step [OF "5.prems"(2) more(4)]] new by (auto simp: update_new)
    have "bpairs (depth d) (ku @ u @ us) ((key, v) # ps)"
      by (rule bgrammar_intros(8)) (use ku u us in simp_all)
    moreover have "\<forall>p \<in> set ((key, v) # ps). first \<or> prev < fst p"
      using prev us(5) by (auto intro: less_trans)
    ultimately show ?thesis
      using ku u us by (intro exI [of _ "ku @ u @ us"] exI [of _ r2] exI [of _ "(key, v) # ps"])
        (simp add: add.assoc)
  qed
qed

end
