(* ===== verification/Bencode_Encode.thy ===== *)
theory Bencode_Encode
  imports Bencode_Grammar
begin

text \<open>
  The encoder of \<open>internal/bencode/encode.go\<close>, over any writer. A writer is a state and a write
  operation that reports an error or not; \<open>bencode\<close> is the byte string the encoder means to
  write, and the locale \<open>writer\<close> states the law of a writer that never fails, such as the
  \<open>bytes.Buffer\<close> the info hash is computed over.
\<close>

section \<open>Decimal output: the verb \<open>%d\<close>\<close>

fun show_nat :: "nat \<Rightarrow> bytes" where
  "show_nat n = (if n < 10 then [48 + of_nat n] else show_nat (n div 10) @ [48 + of_nat (n mod 10)])"

declare show_nat.simps [simp del]

definition show_int :: "int \<Rightarrow> bytes" where
  "show_int i = (if i < 0 then 45 # show_nat (nat (- i)) else show_nat (nat i))"

section \<open>The encoder\<close>

type_synonym ('w, 'x) write_op = "'w \<Rightarrow> bytes \<Rightarrow> 'x option \<times> 'w"

definition encodeByteString :: "('w, 'x) write_op \<Rightarrow> 'w \<Rightarrow> bytes \<Rightarrow> 'x option \<times> 'w" where
  "encodeByteString wr w s = wr w (show_int (int (length s)) @ bs '':'' @ s)"

definition encodeInteger :: "('w, 'x) write_op \<Rightarrow> 'w \<Rightarrow> int \<Rightarrow> 'x option \<times> 'w" where
  "encodeInteger wr w n = wr w (bs ''i'' @ show_int n @ bs ''e'')"

text \<open>
  The first error of the list encoder is dropped (\<open>return nil\<close> at line 37 of the source);
  every other write error is returned. \<open>sort.Strings\<close> orders the keys by bytes.
\<close>

function Encode :: "('w, 'x) write_op \<Rightarrow> 'w \<Rightarrow> bvalue \<Rightarrow> 'x option \<times> 'w"
  and encodeList :: "('w, 'x) write_op \<Rightarrow> 'w \<Rightarrow> bvalue list \<Rightarrow> 'x option \<times> 'w"
  and encodeItems :: "('w, 'x) write_op \<Rightarrow> 'w \<Rightarrow> bvalue list \<Rightarrow> 'x option \<times> 'w"
  and encodeDictionary :: "('w, 'x) write_op \<Rightarrow> 'w \<Rightarrow> dictionary \<Rightarrow> 'x option \<times> 'w"
  and encodePairs :: "('w, 'x) write_op \<Rightarrow> 'w \<Rightarrow> dictionary \<Rightarrow> 'x option \<times> 'w"
where
  "Encode wr w (ByteString s) = encodeByteString wr w s"
| "Encode wr w (Integer n) = encodeInteger wr w n"
| "Encode wr w (BList l) = encodeList wr w l"
| "Encode wr w (Dictionary d) = encodeDictionary wr w d"
| "encodeList wr w l =
     (case wr w (bs ''l'') of (Some e, w1) \<Rightarrow> (None, w1)
      | (None, w1) \<Rightarrow>
        (case encodeItems wr w1 l of (Some e, w2) \<Rightarrow> (Some e, w2)
         | (None, w2) \<Rightarrow> wr w2 (bs ''e'')))"
| "encodeItems wr w [] = (None, w)"
| "encodeItems wr w (v # vs) =
     (case Encode wr w v of (Some e, w1) \<Rightarrow> (Some e, w1)
      | (None, w1) \<Rightarrow> encodeItems wr w1 vs)"
| "encodeDictionary wr w d =
     (case wr w (bs ''d'') of (Some e, w1) \<Rightarrow> (Some e, w1)
      | (None, w1) \<Rightarrow>
        (case encodePairs wr w1 (sort_key fst d) of (Some e, w2) \<Rightarrow> (Some e, w2)
         | (None, w2) \<Rightarrow> wr w2 (bs ''e'')))"
| "encodePairs wr w [] = (None, w)"
| "encodePairs wr w ((k, v) # ps) =
     (case encodeByteString wr w k of (Some e, w1) \<Rightarrow> (Some e, w1)
      | (None, w1) \<Rightarrow>
        (case Encode wr w1 v of (Some e, w2) \<Rightarrow> (Some e, w2)
         | (None, w2) \<Rightarrow> encodePairs wr w2 ps))"
  by pat_completeness auto
termination
  by (relation "measure (\<lambda>x. case x of
      Inl (Inl (_, _, v)) \<Rightarrow> 2 * size v
    | Inl (Inr (_, _, l)) \<Rightarrow> 2 * size_list size l + 1
    | Inr (Inl (_, _, l)) \<Rightarrow> 2 * size_list size l
    | Inr (Inr (Inl (_, _, d))) \<Rightarrow> 2 * size_list (size_prod (\<lambda>_. 0) size) d + 1
    | Inr (Inr (Inr (_, _, d))) \<Rightarrow> 2 * size_list (size_prod (\<lambda>_. 0) size) d)") simp_all

section \<open>The canonical encoding\<close>

fun bencode :: "bvalue \<Rightarrow> bytes" 
  and bencode_items :: "bvalue list \<Rightarrow> bytes" 
  and bencode_pairs :: "dictionary \<Rightarrow> bytes" where
  "bencode (ByteString s) = show_int (int (length s)) @ bs '':'' @ s"
| "bencode (Integer n) = bs ''i'' @ show_int n @ bs ''e''"
| "bencode (BList l) = bs ''l'' @ bencode_items l @ bs ''e''"
| "bencode (Dictionary d) = bs ''d'' @ bencode_pairs (sort_key fst d) @ bs ''e''"
| "bencode_items [] = []"
| "bencode_items (v # vs) = bencode v @ bencode_items vs"
| "bencode_pairs [] = []"
| "bencode_pairs ((k, v) # ps) = bencode (ByteString k) @ bencode v @ bencode_pairs ps"

fun wf_value :: "bvalue \<Rightarrow> bool" where
  "wf_value (ByteString s) \<longleftrightarrow> int (length s) \<le> MaxStringLength"
| "wf_value (Integer n) \<longleftrightarrow> int64_ok n"
| "wf_value (BList l) \<longleftrightarrow> (\<forall>v \<in> set l. wf_value v)"
| "wf_value (Dictionary d) \<longleftrightarrow> sorted_wrt (<) (map fst d) \<and>
     (\<forall>p \<in> set d. int (length (fst p)) \<le> MaxStringLength \<and> wf_value (snd p))"

text \<open>How deep containers nest: the decoder accepts up to \<open>MaxNestingDepth\<close> levels.\<close>

fun vdepth :: "bvalue \<Rightarrow> int" where
  "vdepth (ByteString s) = 0"
| "vdepth (Integer n) = 0"
| "vdepth (BList l) = 1 + Max (insert 0 (vdepth ` set l))"
| "vdepth (Dictionary d) = 1 + Max (insert 0 ((\<lambda>p. vdepth (snd p)) ` set d))"

section \<open>Digits printed and parsed back\<close>

lemma digit_byte: "d < 10 \<Longrightarrow> uint (48 + of_nat d :: byte) = 48 + int d"
proof -
  assume "d < 10"
  then have "48 + of_nat d = (of_int (48 + int d) :: byte)" by simp
  also have "uint (of_int (48 + int d) :: byte) = 48 + int d"
    using \<open>d < 10\<close> by (simp only: uint_of_int_byte) simp
  finally show ?thesis .
qed

lemma is_digit_byte: "d < 10 \<Longrightarrow> is_digit (48 + of_nat d)"
proof -
  assume d: "d < 10"
  have "uint (48 :: byte) = 48" "uint (57 :: byte) = 57" by simp_all
  with digit_byte [OF d] d show ?thesis unfolding is_digit_def word_le_def by linarith
qed

lemma digits_value_snoc: "digits_value (ds @ [c]) = digits_value ds * 10 + (uint c - 48)"
  by (simp add: digits_value_def)

lemma show_nat_digits: "list_all is_digit (show_nat n) \<and> show_nat n \<noteq> [] \<and>
    digits_value (show_nat n) = int n \<and> (hd (show_nat n) = 48 \<longrightarrow> length (show_nat n) = 1)"
proof (induction n rule: show_nat.induct)
  case (1 n)
  show ?case
  proof (cases "n < 10")
    case True
    then show ?thesis
      using is_digit_byte [OF True] digit_byte [OF True]
      by (simp add: show_nat.simps [of n] digits_value_def)
  next
    case False
    have m: "n mod 10 < 10" by simp
    have hd: "hd (show_nat (n div 10)) \<noteq> 48"
    proof
      assume z: "hd (show_nat (n div 10)) = 48"
      then have "show_nat (n div 10) = [48]" using "1.IH" [OF False] by (cases "show_nat (n div 10)") auto
      then have "digits_value (show_nat (n div 10)) = 0" by (simp add: digits_value_def)
      then show False using "1.IH" [OF False] False by simp
    qed
    have "int (n div 10) * 10 + int (n mod 10) = int n"
      using div_mult_mod_eq [of n 10] by (metis of_nat_add of_nat_mult of_nat_numeral)
    then show ?thesis
      using False "1.IH" [OF False] is_digit_byte [OF m] digit_byte [OF m] hd
      by (simp add: show_nat.simps [of n] digits_value_snoc)
  qed
qed

lemma show_int_nonneg: "0 \<le> i \<Longrightarrow> show_int i = show_nat (nat i)"
  by (simp add: show_int_def)

lemma len_text_show: "int n \<le> MaxStringLength \<Longrightarrow> len_text (show_int (int n)) (int n)"
  using show_nat_digits [of n] by (simp add: len_text_def show_int_nonneg)

lemma digit_not_sign: "list_all is_digit ds \<Longrightarrow> ds \<noteq> [] \<Longrightarrow> hd ds \<noteq> 45 \<and> hd ds \<noteq> 43"
  by (cases ds) (auto dest: is_digit_not_colon)

lemma int_text_show: "int64_ok n \<Longrightarrow> int_text (show_int n) n"
proof (cases "n < 0")
  case True
  assume ok: "int64_ok n"
  let ?d = "show_nat (nat (- n))"
  have d: "list_all is_digit ?d" "?d \<noteq> []" "digits_value ?d = - n"
      "hd ?d = 48 \<longrightarrow> length ?d = 1"
    using show_nat_digits [of "nat (- n)"] True by simp_all
  have "?d \<noteq> [48]" using d(3) True by (auto simp: digits_value_def)
  moreover from this have "hd ?d \<noteq> 48" using d(2,4) by (cases ?d) auto
  ultimately show ?thesis
    using True ok d by (simp add: show_int_def int_text_def validateIntegerString_def ParseInt_def)
next
  case False
  assume ok: "int64_ok n"
  let ?d = "show_nat (nat n)"
  have d: "list_all is_digit ?d" "?d \<noteq> []" "digits_value ?d = n"
      "hd ?d = 48 \<longrightarrow> length ?d = 1"
    using show_nat_digits [of "nat n"] False by simp_all
  moreover have "hd ?d \<noteq> 45" "hd ?d \<noteq> 43" using digit_not_sign [OF d(1,2)] by simp_all
  ultimately show ?thesis
    using False ok by (auto simp: show_int_def int_text_def validateIntegerString_def ParseInt_def)
qed

section \<open>The canonical encoding is in the language\<close>

lemma insort_key_first: "\<forall>y \<in> set xs. f x \<le> f y \<Longrightarrow> insort_key f x xs = x # xs"
  by (cases xs) auto

lemma sort_key_strict: "sorted_wrt (<) (map f xs) \<Longrightarrow> sort_key f xs = xs"
  for f :: "'a \<Rightarrow> 'b :: linorder"
  by (induction xs) (auto intro!: insort_key_first)

lemma Max0_le_iff: "finite A \<Longrightarrow> Max (insert 0 A) \<le> m \<longleftrightarrow> 0 \<le> m \<and> (\<forall>x \<in> A. x \<le> m)" for m :: int
  by (subst Max_le_iff) auto

lemma vdepth_BList:
  "k + vdepth (BList l) \<le> m \<longleftrightarrow> k + 1 \<le> m \<and> (\<forall>v \<in> set l. k + 1 + vdepth v \<le> m)"
  using Max0_le_iff [of "vdepth ` set l" "m - k - 1"] by (simp add: algebra_simps)

lemma vdepth_Dictionary:
  "k + vdepth (Dictionary d) \<le> m \<longleftrightarrow> k + 1 \<le> m \<and> (\<forall>p \<in> set d. k + 1 + vdepth (snd p) \<le> m)"
  using Max0_le_iff [of "(\<lambda>p. vdepth (snd p)) ` set d" "m - k - 1"] by (simp add: algebra_simps)

lemma vdepth_nonneg: "0 \<le> vdepth v"
  using vdepth_BList [of 0 _ "vdepth v"] vdepth_Dictionary [of 0 _ "vdepth v"] by (cases v) auto

lemma bencode_grammar:
  "wf_value v \<Longrightarrow> k + vdepth v \<le> MaxNestingDepth \<Longrightarrow> bgrammar k (bencode v) v"
  "(\<forall>v \<in> set vs. wf_value v \<and> k + vdepth v \<le> MaxNestingDepth) \<Longrightarrow> bitems k (bencode_items vs) vs"
  "(\<forall>p \<in> set ps. int (length (fst p)) \<le> MaxStringLength \<and> wf_value (snd p) \<and>
      k + vdepth (snd p) \<le> MaxNestingDepth) \<Longrightarrow> sorted_wrt (<) (map fst ps) \<Longrightarrow>
    bpairs k (bencode_pairs ps) ps"
proof (induction v and vs and ps arbitrary: k and k and k
    rule: bencode_bencode_items_bencode_pairs.induct)
  case (1 s)
  then show ?case using bgrammar_intros(2) [OF len_text_show, of s k] by simp
next
  case (2 n)
  then show ?case using bgrammar_intros(1) [OF int_text_show, of n k] by simp
next
  case (3 l)
  have "bitems (k + 1) (bencode_items l) l"
    by (rule "3.IH") (use "3.prems" in \<open>simp only: vdepth_BList wf_value.simps, blast\<close>)
  moreover have "k < MaxNestingDepth" using "3.prems"(2) unfolding vdepth_BList by simp
  ultimately show ?case using bgrammar_intros(3) by fastforce
next
  case (4 d)
  have srt: "sort_key fst d = d" using "4.prems" by (intro sort_key_strict) simp
  have "bpairs (k + 1) (bencode_pairs (sort_key fst d)) (sort_key fst d)"
    by (rule "4.IH") (use "4.prems" in \<open>simp_all only: srt vdepth_Dictionary wf_value.simps, blast+\<close>)
  moreover have "k < MaxNestingDepth" using "4.prems"(2) unfolding vdepth_Dictionary by simp
  ultimately show ?case using bgrammar_intros(4) srt by fastforce
next
  case (6 v vs)
  then show ?case by (simp add: bgrammar_intros)
next
  case (8 key v ps)
  have "bgrammar k (bencode (ByteString key)) (ByteString key)"
    by (rule "8.IH"(1)) (use "8.prems" vdepth_nonneg [of v] in auto)
  then show ?case using "8.prems" "8.IH"(2,3) by (auto intro!: bgrammar_intros simp del: bencode.simps)
qed (simp_all add: bgrammar_intros)

lemma grammar_wf:
  "bgrammar k u v \<Longrightarrow> k \<le> MaxNestingDepth \<Longrightarrow> wf_value v \<and> k + vdepth v \<le> MaxNestingDepth"
  "bitems k u vs \<Longrightarrow> k \<le> MaxNestingDepth \<Longrightarrow>
    (\<forall>v \<in> set vs. wf_value v \<and> k + vdepth v \<le> MaxNestingDepth)"
  "bpairs k u ps \<Longrightarrow> k \<le> MaxNestingDepth \<Longrightarrow> sorted_wrt (<) (map fst ps) \<and>
    (\<forall>p \<in> set ps. int (length (fst p)) \<le> MaxStringLength \<and> wf_value (snd p) \<and>
      k + vdepth (snd p) \<le> MaxNestingDepth)"
proof (induction rule: bgrammar_induct)
  case (integer s n k)
  then show ?case by (auto dest: int_text_int64)
next
  case (byte_string l s k)
  then show ?case by (simp add: len_text_def)
next
  case (list k u vs)
  then show ?case by (simp only: vdepth_BList wf_value.simps) simp
next
  case (dict k u ps)
  then show ?case by (simp only: vdepth_Dictionary wf_value.simps) simp
qed auto


section \<open>A writer that never fails\<close>

text \<open>
  What the encoder relies on: a write appends its bytes and reports no error. Under this
  contract the encoder writes the canonical encoding and nothing else.
\<close>

locale writer =
  fixes wr :: "('w, 'x) write_op"
    and content :: "'w \<Rightarrow> bytes"
  assumes write_ok: "fst (wr w xs) = None"
    and write_content: "content (snd (wr w xs)) = content w @ xs"
begin

lemma write_cases: obtains w' where "wr w xs = (None, w')" "content w' = content w @ xs"
  using write_ok [of w xs] write_content [of w xs] by (cases "wr w xs") auto

lemma Encode_writes:
  "\<exists>w'. Encode wr w v = (None, w') \<and> content w' = content w @ bencode v"
  "\<exists>w'. encodeItems wr w vs = (None, w') \<and> content w' = content w @ bencode_items vs"
  "\<exists>w'. encodePairs wr w ps = (None, w') \<and> content w' = content w @ bencode_pairs ps"
proof (induction v and vs and ps arbitrary: w and w and w
    rule: bencode_bencode_items_bencode_pairs.induct)
  case (1 s)
  then show ?case
    using write_cases [of w "bencode (ByteString s)"] by (force simp: encodeByteString_def)
next
  case (2 n)
  then show ?case
    using write_cases [of w "bencode (Integer n)"] by (force simp: encodeInteger_def)
next
  case (3 l)
  obtain w1 where w1: "wr w (bs ''l'') = (None, w1)" "content w1 = content w @ bs ''l''"
    by (rule write_cases)
  obtain w2 where w2: "encodeItems wr w1 l = (None, w2)" "content w2 = content w1 @ bencode_items l"
    using "3.IH" by blast
  obtain w3 where "wr w2 (bs ''e'') = (None, w3)" "content w3 = content w2 @ bs ''e''"
    by (rule write_cases)
  with w1 w2 show ?case by simp
next
  case (4 d)
  obtain w1 where w1: "wr w (bs ''d'') = (None, w1)" "content w1 = content w @ bs ''d''"
    by (rule write_cases)
  obtain w2 where w2: "encodePairs wr w1 (sort_key fst d) = (None, w2)"
      "content w2 = content w1 @ bencode_pairs (sort_key fst d)"
    using "4.IH" by blast
  obtain w3 where "wr w2 (bs ''e'') = (None, w3)" "content w3 = content w2 @ bs ''e''"
    by (rule write_cases)
  with w1 w2 show ?case by simp
next
  case (6 v vs)
  obtain w1 where "Encode wr w v = (None, w1)" "content w1 = content w @ bencode v"
    using "6.IH"(1) by blast
  moreover obtain w2 where "encodeItems wr w1 vs = (None, w2)" "content w2 = content w1 @ bencode_items vs"
    using "6.IH"(2) by blast
  ultimately show ?case by simp
next
  case (8 key v ps)
  obtain w1 where "Encode wr w (ByteString key) = (None, w1)"
      "content w1 = content w @ bencode (ByteString key)"
    using "8.IH"(1) by blast
  moreover obtain w2 where "Encode wr w1 v = (None, w2)" "content w2 = content w1 @ bencode v"
    using "8.IH"(2) by blast
  moreover obtain w3 where "encodePairs wr w2 ps = (None, w3)" "content w3 = content w2 @ bencode_pairs ps"
    using "8.IH"(3) by blast
  ultimately show ?case by simp
qed simp_all

lemma Encode_content:
  "fst (Encode wr w v) = None" "content (snd (Encode wr w v)) = content w @ bencode v"
  using Encode_writes(1) [of w v] by auto

end

text \<open>\<open>bytes.Buffer\<close>: its state is what has been written, and \<open>Write\<close> always succeeds.\<close>

definition buffer_write :: "(bytes, unit) write_op" where
  "buffer_write b xs = (None, b @ xs)"

interpretation buffer: writer buffer_write "\<lambda>b. b"
  by unfold_locales (simp_all add: buffer_write_def)

end
