(* ===== verification/Wire.thy ===== *)
theory Wire
  imports Bitfield Bencode_Encode
begin

text \<open>
  Package \<open>peer\<close>, the wire format: messages (\<open>message.go\<close>), their payloads (\<open>payload.go\<close>), the
  handshake (\<open>handshake.go\<close>) and the payloads the send helpers build (\<open>send.go\<close>). A reader is the
  sequence of bytes that will arrive on it together with the error a read past their end reports
  (the connection closed, or the read deadline passed).
\<close>

section \<open>Readers\<close>

datatype io_error = EOF | TimedOut | ClosedError | OtherError

text \<open>\<open>io.ReadFull\<close>: \<open>n\<close> bytes, or everything there is and the reader's error.\<close>

definition ReadFull :: "io_error \<Rightarrow> nat \<Rightarrow> bytes \<Rightarrow> (io_error, bytes) result \<times> bytes" where
  "ReadFull e n r = (if n \<le> length r then (Inr (take n r), drop n r) else (Inl e, []))"

lemma ReadFull_Inr: "ReadFull e n r = (Inr u, r') \<longleftrightarrow> r = u @ r' \<and> length u = n"
  by (auto simp: ReadFull_def min_def)

lemma ReadFull_append [simp]: "length u = n \<Longrightarrow> ReadFull e n (u @ r) = (Inr u, r)"
  by (simp add: ReadFull_Inr)

section \<open>Messages\<close>

text \<open>\<open>MessageID\<close> is an \<open>int8\<close>.\<close>

definition MsgKeepAlive :: int where "MsgKeepAlive = - 1"
definition MsgChoke :: int where "MsgChoke = 0"
definition MsgUnchoke :: int where "MsgUnchoke = 1"
definition MsgInterested :: int where "MsgInterested = 2"
definition MsgNotInterested :: int where "MsgNotInterested = 3"
definition MsgHave :: int where "MsgHave = 4"
definition MsgBitfield :: int where "MsgBitfield = 5"
definition MsgRequest :: int where "MsgRequest = 6"
definition MsgPiece :: int where "MsgPiece = 7"
definition MsgCancel :: int where "MsgCancel = 8"
definition MsgPort :: int where "MsgPort = 9"

lemmas msg_ids = MsgKeepAlive_def MsgChoke_def MsgUnchoke_def MsgInterested_def MsgNotInterested_def
  MsgHave_def MsgBitfield_def MsgRequest_def MsgPiece_def MsgCancel_def MsgPort_def

definition MessageID_String :: "int \<Rightarrow> bytes" where
  "MessageID_String i =
     (if i = MsgKeepAlive then bs ''keep-alive''
      else if i = MsgChoke then bs ''choke''
      else if i = MsgUnchoke then bs ''unchoke''
      else if i = MsgInterested then bs ''interested''
      else if i = MsgNotInterested then bs ''not interested''
      else if i = MsgHave then bs ''have''
      else if i = MsgBitfield then bs ''bitfield''
      else if i = MsgRequest then bs ''request''
      else if i = MsgPiece then bs ''piece''
      else if i = MsgCancel then bs ''cancel''
      else if i = MsgPort then bs ''port''
      else bs ''unknown('' @ show_int i @ bs '')'')"

record message =
  ID :: int
  Payload :: bytes

definition MaxMessageLength :: int where "MaxMessageLength = 128 * 1024"

datatype read_error =
    ReadLength io_error
  | LengthExceedsCap int
  | ReadBody io_error

definition ReadMessage :: "io_error \<Rightarrow> bytes \<Rightarrow> (read_error, message) result \<times> bytes" where
  "ReadMessage e r =
     (case ReadFull e 4 r of
        (Inl err, r1) \<Rightarrow> (Inl (ReadLength err), r1)
      | (Inr lenBuf, r1) \<Rightarrow>
          let len = get_u32 lenBuf in
          if len = 0 then (Inr \<lparr>ID = MsgKeepAlive, Payload = []\<rparr>, r1)
          else if len > MaxMessageLength then (Inl (LengthExceedsCap len), r1)
          else (case ReadFull e (nat len) r1 of
                  (Inl err, r2) \<Rightarrow> (Inl (ReadBody err), r2)
                | (Inr buf, r2) \<Rightarrow> (Inr \<lparr>ID = sint (hd buf), Payload = tl buf\<rparr>, r2)))"

definition Serialize :: "message \<Rightarrow> bytes" where
  "Serialize m =
     (if ID m = MsgKeepAlive then replicate 4 0
      else let len = 1 + int (length (Payload m)) in
           put_u32 len @ [of_int (ID m)] @ Payload m)"

section \<open>Payloads\<close>

datatype payload_error =
    PayloadLength int
  | IndexRange int
  | BeginRange int
  | BlockRange int int

definition ParseHavePayload :: "bytes \<Rightarrow> int \<Rightarrow> (payload_error, int) result" where
  "ParseHavePayload payload pieceCount =
     (if length payload \<noteq> 4 then Inl (PayloadLength (int (length payload)))
      else let index = get_u32 payload in
           if index < 0 \<or> index \<ge> pieceCount then Inl (IndexRange index) else Inr index)"

record request_payload =
  RIndex :: int
  RBegin :: int
  RLength :: int

definition ParseRequestPayload :: "bytes \<Rightarrow> int \<Rightarrow> int \<Rightarrow> (payload_error, request_payload) result" where
  "ParseRequestPayload payload pieceCount pieceLength =
     (if length payload \<noteq> 12 then Inl (PayloadLength (int (length payload)))
      else let index = get_u32 (slice_of payload 0 4);
               beg = get_u32 (slice_of payload 4 8);
               len = get_u32 (slice_of payload 8 12) in
           if index < 0 \<or> index \<ge> pieceCount then Inl (IndexRange index)
           else if beg < 0 \<or> beg \<ge> pieceLength then Inl (BeginRange beg)
           else if beg + len > pieceLength then Inl (BlockRange beg (beg + len))
           else Inr \<lparr>RIndex = index, RBegin = beg, RLength = len\<rparr>)"

record piece_payload =
  PIndex :: int
  PBegin :: int
  Block :: bytes

definition ParsePiecePayload :: "bytes \<Rightarrow> int \<Rightarrow> int \<Rightarrow> (payload_error, piece_payload) result" where
  "ParsePiecePayload payload pieceCount pieceLength =
     (if length payload < 8 then Inl (PayloadLength (int (length payload)))
      else let index = get_u32 (slice_of payload 0 4);
               beg = get_u32 (slice_of payload 4 8);
               block = drop 8 payload in
           if index < 0 \<or> index \<ge> pieceCount then Inl (IndexRange index)
           else if beg < 0 \<or> beg \<ge> pieceLength then Inl (BeginRange beg)
           else if beg + int (length block) > pieceLength
             then Inl (BlockRange beg (beg + int (length block)))
           else Inr \<lparr>PIndex = index, PBegin = beg, Block = block\<rparr>)"

definition ParsePortPayload :: "bytes \<Rightarrow> (payload_error, int) result" where
  "ParsePortPayload payload =
     (if length payload \<noteq> 2 then Inl (PayloadLength (int (length payload)))
      else Inr (get_u16 payload))"

text \<open>The messages the send helpers of \<open>send.go\<close> build.\<close>

definition InterestedMsg :: message where "InterestedMsg = \<lparr>ID = MsgInterested, Payload = []\<rparr>"
definition NotInterestedMsg :: message where "NotInterestedMsg = \<lparr>ID = MsgNotInterested, Payload = []\<rparr>"
definition ChokeMsg :: message where "ChokeMsg = \<lparr>ID = MsgChoke, Payload = []\<rparr>"
definition UnchokeMsg :: message where "UnchokeMsg = \<lparr>ID = MsgUnchoke, Payload = []\<rparr>"
definition BitfieldMsg :: "bitfield \<Rightarrow> message" where "BitfieldMsg bf = \<lparr>ID = MsgBitfield, Payload = bf\<rparr>"
definition HaveMsg :: "int \<Rightarrow> message" where "HaveMsg index = \<lparr>ID = MsgHave, Payload = put_u32 index\<rparr>"

definition RequestMsg :: "int \<Rightarrow> int \<Rightarrow> int \<Rightarrow> message" where
  "RequestMsg index beg len = \<lparr>ID = MsgRequest, Payload = put_u32 index @ put_u32 beg @ put_u32 len\<rparr>"

definition PieceMsg :: "int \<Rightarrow> int \<Rightarrow> bytes \<Rightarrow> message" where
  "PieceMsg index beg block = \<lparr>ID = MsgPiece, Payload = put_u32 index @ put_u32 beg @ block\<rparr>"

section \<open>The handshake\<close>

definition protocolString :: bytes where "protocolString = bs ''BitTorrent protocol''"
definition handshakeLen :: nat where "handshakeLen = 1 + length protocolString + 8 + 20 + 20"

record handshake =
  HReserved :: bytes
  HInfoHash :: bytes
  HPeerID :: bytes

datatype handshake_error =
    ReadHandshake io_error
  | ProtocolLength
  | ProtocolString

definition SerializeHandshake :: "handshake \<Rightarrow> bytes" where
  "SerializeHandshake h =
     [of_nat (length protocolString)] @ protocolString @ HReserved h @ HInfoHash h @ HPeerID h"

definition ParseHandshake :: "io_error \<Rightarrow> bytes \<Rightarrow> (handshake_error, handshake) result \<times> bytes" where
  "ParseHandshake e r =
     (case ReadFull e handshakeLen r of
        (Inl err, r1) \<Rightarrow> (Inl (ReadHandshake err), r1)
      | (Inr buf, r1) \<Rightarrow>
          if hd buf \<noteq> of_nat (length protocolString) then (Inl ProtocolLength, r1)
          else if take (length protocolString) (tl buf) \<noteq> protocolString then (Inl ProtocolString, r1)
          else let off = 1 + length protocolString in
            (Inr \<lparr>HReserved = take 8 (drop off buf), HInfoHash = take 20 (drop (off + 8) buf),
                  HPeerID = take 20 (drop (off + 28) buf)\<rparr>, r1))"

text \<open>\<open>[8]byte\<close> and \<open>[20]byte\<close> arrays have their length.\<close>

definition handshake_ok :: "handshake \<Rightarrow> bool" where
  "handshake_ok h \<longleftrightarrow> length (HReserved h) = 8 \<and> length (HInfoHash h) = 20 \<and> length (HPeerID h) = 20"

section \<open>Fields\<close>

lemma of_int_byte_iff: "of_int n = (b :: byte) \<longleftrightarrow> n mod 256 = uint b"
  by (metis uint_of_int_byte word_uint_eq_iff)

lemma base_256: "0 \<le> w \<Longrightarrow> w < 256 \<Longrightarrow> (q * 256 + w) div 256 = q \<and> (q * 256 + w) mod 256 = w" for w :: int
  by simp

lemma put_get_u32: "length xs = 4 \<Longrightarrow> put_u32 (get_u32 xs) = xs"
proof -
  assume "length xs = 4"
  then obtain a b c d where xs: "xs = [a, b, c, d]"
    by (auto simp: numeral_eq_Suc length_Suc_conv)
  define p where "p = uint a * 256 + uint b"
  define q where "q = p * 256 + uint c"
  define n where "n = q * 256 + uint d"
  have n: "get_u32 xs = n" by (simp add: xs n_def q_def p_def algebra_simps)
  have m: "n mod 256 = uint d" "n div 256 = q" "q mod 256 = uint c" "q div 256 = p" "p mod 256 = uint b"
    "p div 256 = uint a"
    unfolding n_def q_def p_def by (simp_all only: base_256 uint_byte_bounds)
  have d: "n div 2 ^ 8 = q" "n div 2 ^ 16 = p" "n div 2 ^ 24 = uint a"
    using zdiv_zmult2_eq [of 256 n 256] zdiv_zmult2_eq [of 256 n 65536] zdiv_zmult2_eq [of 256 q 256]
    by (simp_all add: m)
  have "uint a mod 256 = uint a" by simp
  then have "of_int (uint a) = a" "of_int p = b" "of_int q = c" "of_int n = d"
    by (simp_all only: of_int_byte_iff m)
  then show ?thesis unfolding n put_u32_def d by (simp only: xs)
qed

lemma get_u32_append [simp]: "get_u32 (put_u32 n @ xs) = n" if "0 \<le> n" "n < 2 ^ 32"
  using that by (rule get_put_u32)

section \<open>Messages survive the wire\<close>

definition message_ok :: "message \<Rightarrow> bool" where
  "message_ok m \<longleftrightarrow> - 128 \<le> ID m \<and> ID m < 128"

definition deliverable :: "message \<Rightarrow> bool" where
  "deliverable m \<longleftrightarrow>
     (if ID m = MsgKeepAlive then Payload m = [] else 1 + int (length (Payload m)) \<le> MaxMessageLength)"

lemma get_put_zero [simp]: "get_u32 (put_u32 0) = 0"
  by (simp add: put_u32_def)

lemma sint_of_int_byte: "- 128 \<le> i \<Longrightarrow> i < 128 \<Longrightarrow> sint (of_int i :: byte) = i"
  by (simp add: int_word_sint)

lemma ReadMessage_Serialize:
  assumes "message_ok m" "deliverable m"
  shows "ReadMessage e (Serialize m @ r) = (Inr m, r)"
proof (cases "ID m = MsgKeepAlive")
  case True
  have "replicate 4 0 = put_u32 0" by (simp add: put_u32_def numeral_eq_Suc)
  then show ?thesis
    using True assms(2) by (cases m) (simp add: Serialize_def ReadMessage_def deliverable_def)
next
  case False
  let ?n = "1 + int (length (Payload m))"
  have n: "0 < ?n" "?n \<le> MaxMessageLength" "?n < 2 ^ 32" "nat ?n = Suc (length (Payload m))"
    using assms(2) False by (simp_all add: deliverable_def MaxMessageLength_def)
  have "get_u32 (put_u32 ?n) = ?n" using n by (intro get_put_u32') auto
  moreover have "ReadFull e (nat ?n) (of_int (ID m) # Payload m @ r) = (Inr (of_int (ID m) # Payload m), r)"
    by (simp add: ReadFull_Inr n(4))
  ultimately show ?thesis
    using assms(1) False n unfolding Serialize_def ReadMessage_def
    by (simp add: message_ok_def sint_of_int_byte)
qed

text \<open>What \<open>ReadMessage\<close> accepts: a zero length, or a length prefix, an ID byte and a payload.\<close>

lemma ReadMessage_Inr:
  "ReadMessage e s = (Inr m, r) \<longleftrightarrow>
     (\<exists>p. length p = 4 \<and>
        (get_u32 p = 0 \<and> m = \<lparr>ID = MsgKeepAlive, Payload = []\<rparr> \<and> s = p @ r \<or>
         (\<exists>b u. get_u32 p = 1 + int (length u) \<and> get_u32 p \<le> MaxMessageLength \<and>
            m = \<lparr>ID = sint b, Payload = u\<rparr> \<and> s = p @ b # u @ r)))"
  (is "?l \<longleftrightarrow> ?r")
proof
  assume ?l
  then obtain p r1 where p: "ReadFull e 4 s = (Inr p, r1)"
    by (auto simp: ReadMessage_def split: prod.splits sum.splits)
  then have s: "s = p @ r1" "length p = 4" by (simp_all add: ReadFull_Inr)
  consider "get_u32 p = 0" "m = \<lparr>ID = MsgKeepAlive, Payload = []\<rparr>" "r1 = r"
    | buf where "get_u32 p \<noteq> 0" "get_u32 p \<le> MaxMessageLength" "ReadFull e (nat (get_u32 p)) r1 = (Inr buf, r)"
      "m = \<lparr>ID = sint (hd buf), Payload = tl buf\<rparr>"
    using \<open>?l\<close> p by (auto simp: ReadMessage_def Let_def split: prod.splits sum.splits if_splits)
  then show ?r
  proof cases
    case 1
    then show ?thesis using s by blast
  next
    case 2
    then have "r1 = buf @ r" "int (length buf) = get_u32 p" "0 < get_u32 p"
      using get_u32_bounds [of p] by (auto simp: ReadFull_Inr)
    then obtain b u where "buf = b # u" "r1 = b # u @ r" "get_u32 p = 1 + int (length u)"
      by (cases buf) auto
    then show ?thesis using 2 s by auto
  qed
next
  assume ?r
  then show ?l
    by (auto simp: ReadMessage_def ReadFull_Inr Let_def nat_add_distrib) (simp_all add: ReadFull_def)
qed

section \<open>Properties\<close>

text \<open>
  C19. Framing: reading what \<open>Serialize\<close> wrote gives the message back and leaves the rest of the
  stream untouched, exactly for the messages that can be delivered - a keep-alive without a payload,
  or a message whose length is within the 128 KiB cap. Nothing else round-trips.
\<close>

theorem message_roundtrip_iff:
  assumes "message_ok m"
  shows "ReadMessage e (Serialize m @ r) = (Inr m, r) \<longleftrightarrow> deliverable m"
proof
  assume l: "ReadMessage e (Serialize m @ r) = (Inr m, r)"
  show "deliverable m"
  proof (cases "ID m = MsgKeepAlive")
    case True
    have "replicate 4 0 = put_u32 0" by (simp add: put_u32_def numeral_eq_Suc)
    then show ?thesis
      using True l by (cases m) (simp add: Serialize_def ReadMessage_def deliverable_def)
  next
    case False
    then show ?thesis using l unfolding ReadMessage_Inr by (auto simp: deliverable_def)
  qed
qed (rule ReadMessage_Serialize [OF assms])

theorem message_roundtrip_iff_witness:
  "ReadMessage EOF (Serialize (HaveMsg 5) @ bs ''xyz'') = (Inr (HaveMsg 5), bs ''xyz'')"
  using message_roundtrip_iff [of "HaveMsg 5" EOF "bs ''xyz''"]
  by (simp add: message_ok_def deliverable_def HaveMsg_def msg_ids MaxMessageLength_def)

text \<open>
  The sentinel that "does not exist on the wire" can be sent: a message whose ID byte is 255 is
  read as a keep-alive that carries a payload, and serializing what was read no longer gives the
  bytes that arrived.
\<close>

theorem keepalive_sentinel_on_the_wire:
  assumes "1 + int (length u) \<le> MaxMessageLength"
  shows "ReadMessage e (put_u32 (1 + int (length u)) @ 255 # u @ r) =
      (Inr \<lparr>ID = MsgKeepAlive, Payload = u\<rparr>, r) \<and>
    Serialize \<lparr>ID = MsgKeepAlive, Payload = u\<rparr> = replicate 4 0"
proof
  have "get_u32 (put_u32 (1 + int (length u))) = 1 + int (length u)"
    using assms by (intro get_put_u32') (auto simp: MaxMessageLength_def)
  moreover have "sint (255 :: byte) = MsgKeepAlive" by (simp add: msg_ids)
  ultimately show "ReadMessage e (put_u32 (1 + int (length u)) @ 255 # u @ r) =
      (Inr \<lparr>ID = MsgKeepAlive, Payload = u\<rparr>, r)"
    unfolding ReadMessage_Inr using assms by (intro exI [of _ "put_u32 (1 + int (length u))"]) auto
qed (simp add: Serialize_def)

theorem keepalive_sentinel_on_the_wire_witness:
  "ReadMessage EOF (put_u32 3 @ 255 # bs ''hi'' @ []) = (Inr \<lparr>ID = - 1, Payload = bs ''hi''\<rparr>, [])"
  using keepalive_sentinel_on_the_wire [of "bs ''hi''" EOF "[]"] by (simp add: MaxMessageLength_def msg_ids)

lemma split_at: "take a xs @ take b (drop a xs) @ drop (a + b) xs = xs"
  by (metis append_take_drop_id drop_drop add.commute)

lemma request_payload_slices:
  assumes "length a = 4" "length b = 4" "length c = 4"
  shows "slice_of (a @ b @ c) 0 4 = a" "slice_of (a @ b @ c) 4 8 = b" "slice_of (a @ b @ c) 8 12 = c"
  using assms by (simp_all add: slice_of_def)

lemma split_12:
  assumes "length p = 12"
  obtains a b c where "p = a @ b @ c" "length a = 4" "length b = 4" "length c = 4"
proof -
  have "p = take 4 p @ take 4 (drop 4 p) @ drop 8 p"
    using split_at [of 4 p 4] by simp
  then show ?thesis using assms that [of "take 4 p" "take 4 (drop 4 p)" "drop 8 p"] by simp
qed

text \<open>
  A request is accepted exactly when it is the 12-byte payload \<open>SendRequest\<close> builds for a block
  that lies inside the piece; the parsed fields are the ones that were sent.
\<close>

lemma request_payload_exact:
  "ParseRequestPayload p pieceCount pieceLength = Inr \<lparr>RIndex = i, RBegin = b, RLength = n\<rparr> \<longleftrightarrow>
     p = Payload (RequestMsg i b n) \<and> 0 \<le> i \<and> i < min pieceCount (2 ^ 32) \<and>
     0 \<le> b \<and> b < min pieceLength (2 ^ 32) \<and> 0 \<le> n \<and> n < 2 ^ 32 \<and> b + n \<le> pieceLength"
proof
  assume l: "ParseRequestPayload p pieceCount pieceLength = Inr \<lparr>RIndex = i, RBegin = b, RLength = n\<rparr>"
  then have "length p = 12" by (auto simp: ParseRequestPayload_def split: if_splits)
  then obtain x y z where p: "p = x @ y @ z" "length x = 4" "length y = 4" "length z = 4"
    by (rule split_12)
  have "i = get_u32 x" "b = get_u32 y" "n = get_u32 z" "i < pieceCount" "b < pieceLength" "b + n \<le> pieceLength"
    using l request_payload_slices [OF p(2-4)] p
    by (auto simp: ParseRequestPayload_def Let_def split: if_splits)
  then show "p = Payload (RequestMsg i b n) \<and> 0 \<le> i \<and> i < min pieceCount (2 ^ 32) \<and>
     0 \<le> b \<and> b < min pieceLength (2 ^ 32) \<and> 0 \<le> n \<and> n < 2 ^ 32 \<and> b + n \<le> pieceLength"
    using p get_u32_bounds [of x] get_u32_bounds [of y] get_u32_bounds [of z]
    by (simp add: RequestMsg_def put_get_u32)
next
  assume r: "p = Payload (RequestMsg i b n) \<and> 0 \<le> i \<and> i < min pieceCount (2 ^ 32) \<and>
     0 \<le> b \<and> b < min pieceLength (2 ^ 32) \<and> 0 \<le> n \<and> n < 2 ^ 32 \<and> b + n \<le> pieceLength"
  then have "get_u32 (put_u32 i) = i" "get_u32 (put_u32 b) = b" "get_u32 (put_u32 n) = n"
    by (auto intro!: get_put_u32')
  then show "ParseRequestPayload p pieceCount pieceLength = Inr \<lparr>RIndex = i, RBegin = b, RLength = n\<rparr>"
    using r request_payload_slices [of "put_u32 i" "put_u32 b" "put_u32 n"]
    by (simp add: ParseRequestPayload_def RequestMsg_def Let_def)
qed

text \<open>
  The same for blocks: \<open>ParsePiecePayload\<close> accepts exactly what \<open>SendPiece\<close> sends for a block
  inside the piece, so a received block never reaches past the buffer it is copied into.
\<close>

theorem piece_payload_exact:
  "ParsePiecePayload p pieceCount pieceLength = Inr \<lparr>PIndex = i, PBegin = b, Block = blk\<rparr> \<longleftrightarrow>
     p = Payload (PieceMsg i b blk) \<and> 0 \<le> i \<and> i < min pieceCount (2 ^ 32) \<and>
     0 \<le> b \<and> b < min pieceLength (2 ^ 32) \<and> b + int (length blk) \<le> pieceLength"
proof
  assume l: "ParsePiecePayload p pieceCount pieceLength = Inr \<lparr>PIndex = i, PBegin = b, Block = blk\<rparr>"
  define x y where "x = take 4 p" and "y = take 4 (drop 4 p)"
  have "8 \<le> length p" using l by (auto simp: ParsePiecePayload_def split: if_splits)
  moreover have "p = x @ y @ drop 8 p"
    using split_at [of 4 p 4] unfolding x_def y_def by simp
  ultimately have p: "p = x @ y @ drop 8 p" "length x = 4" "length y = 4" by (simp_all add: x_def y_def)
  have "i = get_u32 x" "b = get_u32 y" "blk = drop 8 p" "i < pieceCount" "b < pieceLength"
    "b + int (length blk) \<le> pieceLength"
    using l by (auto simp: ParsePiecePayload_def Let_def x_def y_def slice_of_def split: if_splits)
  then show "p = Payload (PieceMsg i b blk) \<and> 0 \<le> i \<and> i < min pieceCount (2 ^ 32) \<and>
     0 \<le> b \<and> b < min pieceLength (2 ^ 32) \<and> b + int (length blk) \<le> pieceLength"
    using p get_u32_bounds [of x] get_u32_bounds [of y] by (simp add: PieceMsg_def put_get_u32)
next
  assume r: "p = Payload (PieceMsg i b blk) \<and> 0 \<le> i \<and> i < min pieceCount (2 ^ 32) \<and>
     0 \<le> b \<and> b < min pieceLength (2 ^ 32) \<and> b + int (length blk) \<le> pieceLength"
  then have "get_u32 (put_u32 i) = i" "get_u32 (put_u32 b) = b" by (auto intro!: get_put_u32')
  then show "ParsePiecePayload p pieceCount pieceLength = Inr \<lparr>PIndex = i, PBegin = b, Block = blk\<rparr>"
    using r by (simp add: ParsePiecePayload_def PieceMsg_def Let_def slice_of_def)
qed

lemma handshake_stream:
  "ParseHandshake e s = (Inr h, r) \<longleftrightarrow> handshake_ok h \<and> s = SerializeHandshake h @ r"
proof
  assume "ParseHandshake e s = (Inr h, r)"
  then obtain buf where b: "s = buf @ r" "length buf = handshakeLen" "hd buf = of_nat (length protocolString)"
    "take (length protocolString) (tl buf) = protocolString"
    "h = \<lparr>HReserved = take 8 (drop (1 + length protocolString) buf),
          HInfoHash = take 20 (drop (1 + length protocolString + 8) buf),
          HPeerID = take 20 (drop (1 + length protocolString + 28) buf)\<rparr>"
    by (auto simp: ParseHandshake_def ReadFull_Inr Let_def split: prod.splits sum.splits if_splits)
  define n where "n = length protocolString"
  obtain c u where cu: "buf = c # u" using b(2) by (cases buf) (auto simp: handshakeLen_def)
  have u: "length u = n + 48" "take n u = protocolString" "c = of_nat n"
    using b(2-4) cu by (simp_all add: handshakeLen_def n_def)
  have "u = take n u @ take 8 (drop n u) @ take 20 (drop (n + 8) u) @ drop (n + 28) u"
    using split_at [of n u 8] append_take_drop_id [of 20 "drop (n + 8) u"] by (simp add: add.commute)
  moreover have "take 20 (drop (n + 28) u) = drop (n + 28) u" using u(1) by simp
  moreover have "1 + n = Suc n" "1 + n + 8 = Suc (n + 8)" "1 + n + 28 = Suc (n + 28)" by simp_all
  then have "h = \<lparr>HReserved = take 8 (drop n u), HInfoHash = take 20 (drop (n + 8) u),
      HPeerID = take 20 (drop (n + 28) u)\<rparr>"
    using b(5) unfolding cu n_def [symmetric] by (simp only: drop_Suc_Cons)
  ultimately show "handshake_ok h \<and> s = SerializeHandshake h @ r"
    using b(1) cu u by (simp add: handshake_ok_def SerializeHandshake_def n_def)
next
  assume a: "handshake_ok h \<and> s = SerializeHandshake h @ r"
  then have "ReadFull e handshakeLen s = (Inr (SerializeHandshake h), r)"
    by (simp add: ReadFull_Inr handshakeLen_def handshake_ok_def SerializeHandshake_def)
  then show "ParseHandshake e s = (Inr h, r)"
    using a by (cases h)
      (simp add: ParseHandshake_def SerializeHandshake_def handshake_ok_def Let_def numeral_eq_Suc)
qed


text \<open>
  The handshake is exact: parsing succeeds if and only if the stream starts with the 68 bytes
  \<open>Serialize\<close> writes for that handshake, and consumes only those.
\<close>

theorem handshake_exact:
  "ParseHandshake e s = (Inr h, r) \<longleftrightarrow> handshake_ok h \<and> s = SerializeHandshake h @ r"
  by (rule handshake_stream)

end
