(* ===== verification/Connection.thy ===== *)
theory Connection
  imports Wire
begin

text \<open>
  Package \<open>peer\<close>, connections: the handshaken \<open>Conn\<close> (\<open>conn.go\<close>, \<open>send.go\<close>), the dialling side
  (\<open>dial.go\<close>) and the accepting side (\<open>listen.go\<close>) of the handshake, and the listener with its
  connection limits. A TCP connection is the bytes that will arrive, the bytes written so far and
  whether it is open; the results of the deadline and write calls are arguments. The listener is a
  step relation over accepts and finishing handlers, each of them atomic under its mutex.
\<close>

section \<open>Network connections\<close>

record net_conn =
  NIn :: bytes
  NErr :: io_error
  NOut :: bytes
  NOpen :: bool

text \<open>A write goes through, or an error cuts it short.\<close>

datatype write_outcome = WroteAll | WroteSome nat io_error

fun net_write :: "write_outcome \<Rightarrow> bytes \<Rightarrow> net_conn \<Rightarrow> io_error option \<times> net_conn" where
  "net_write WroteAll b c = (None, c\<lparr>NOut := NOut c @ b\<rparr>)"
| "net_write (WroteSome k e) b c = (Some e, c\<lparr>NOut := NOut c @ take k b\<rparr>)"

definition net_close :: "net_conn \<Rightarrow> net_conn" where
  "net_close c = c\<lparr>NOpen := False\<rparr>"

section \<open>The peer connection\<close>

record conn =
  Net :: net_conn
  PeerID :: bytes
  Reserved :: bytes
  AmChoking :: bool
  AmInterested :: bool
  PeerChoking :: bool
  PeerInterested :: bool
  PeerBitfield :: bitfield

definition newConn :: "net_conn \<Rightarrow> bytes \<Rightarrow> bytes \<Rightarrow> conn" where
  "newConn nc peerID reserved =
     \<lparr>Net = nc, PeerID = peerID, Reserved = reserved, AmChoking = True, AmInterested = False,
      PeerChoking = True, PeerInterested = False, PeerBitfield = []\<rparr>"

definition conn_ReadMessage :: "conn \<Rightarrow> (read_error, message) result \<times> conn" where
  "conn_ReadMessage c =
     (case ReadMessage (NErr (Net c)) (NIn (Net c)) of
        (res, r) \<Rightarrow> (res, c\<lparr>Net := (Net c)\<lparr>NIn := r\<rparr>\<rparr>))"

definition SendMessage :: "write_outcome \<Rightarrow> message \<Rightarrow> conn \<Rightarrow> io_error option \<times> conn" where
  "SendMessage w m c =
     (case net_write w (Serialize m) (Net c) of (err, nc) \<Rightarrow> (err, c\<lparr>Net := nc\<rparr>))"

text \<open>\<open>send\<close> sets the write deadline first; \<open>d\<close> says whether that call succeeds.\<close>

definition send :: "bool \<Rightarrow> write_outcome \<Rightarrow> message \<Rightarrow> conn \<Rightarrow> io_error option \<times> conn" where
  "send d w m c = (if \<not> d then (Some OtherError, c) else SendMessage w m c)"

definition SendInterested where "SendInterested d w c = send d w InterestedMsg c"
definition SendNotInterested where "SendNotInterested d w c = send d w NotInterestedMsg c"
definition SendChoke where "SendChoke d w c = send d w ChokeMsg c"
definition SendUnchoke where "SendUnchoke d w c = send d w UnchokeMsg c"
definition SendBitfield where "SendBitfield d w bf c = send d w (BitfieldMsg bf) c"
definition SendHave where "SendHave d w index c = send d w (HaveMsg index) c"
definition SendRequest where "SendRequest d w index beg len c = send d w (RequestMsg index beg len) c"
definition SendPiece where "SendPiece d w index beg block c = send d w (PieceMsg index beg block) c"

section \<open>Handshakes\<close>

datatype dial_error =
    DialFailed
  | SetDeadlineFailed
  | ErrHandshakeTimeout
  | SendHandshakeFailed io_error
  | ReceiveHandshakeFailed handshake_error
  | ErrInfoHashMismatch
  | ClearDeadlineFailed

fun send_error :: "io_error \<Rightarrow> dial_error" where
  "send_error e = (if e = TimedOut then ErrHandshakeTimeout else SendHandshakeFailed e)"

fun receive_error :: "handshake_error \<Rightarrow> dial_error" where
  "receive_error e = (if e = ReadHandshake TimedOut then ErrHandshakeTimeout else ReceiveHandshakeFailed e)"

definition our_handshake :: "bytes \<Rightarrow> bytes \<Rightarrow> handshake" where
  "our_handshake infoHash peerID =
     \<lparr>HReserved = replicate 8 0, HInfoHash = infoHash, HPeerID = peerID\<rparr>"

text \<open>
  \<open>d1\<close> and \<open>d2\<close> are the outcomes of the two \<open>SetDeadline\<close> calls, \<open>w\<close> that of the write. The second
  component is the socket afterwards.
\<close>

definition handshakeOver :: "bool \<Rightarrow> write_outcome \<Rightarrow> bool \<Rightarrow> net_conn \<Rightarrow> bytes \<Rightarrow> bytes \<Rightarrow>
    (dial_error, conn) result \<times> net_conn" where
  "handshakeOver d1 w d2 c infoHash peerID =
     (if \<not> d1 then (Inl SetDeadlineFailed, net_close c)
      else (case net_write w (SerializeHandshake (our_handshake infoHash peerID)) c of
        (Some e, c1) \<Rightarrow> (Inl (send_error e), net_close c1)
      | (None, c1) \<Rightarrow>
      (case ParseHandshake (NErr c1) (NIn c1) of
        (Inl e, r) \<Rightarrow> (Inl (receive_error e), net_close (c1\<lparr>NIn := r\<rparr>))
      | (Inr theirs, r) \<Rightarrow>
          let c2 = c1\<lparr>NIn := r\<rparr> in
          if HInfoHash theirs \<noteq> infoHash then (Inl ErrInfoHashMismatch, net_close c2)
          else if \<not> d2 then (Inl ClearDeadlineFailed, net_close c2)
          else (Inr (newConn c2 (HPeerID theirs) (HReserved theirs)), c2))))"

text \<open>\<open>net.DialTimeout\<close> gives a connection or fails.\<close>

definition Dial :: "net_conn option \<Rightarrow> bool \<Rightarrow> write_outcome \<Rightarrow> bool \<Rightarrow> bytes \<Rightarrow> bytes \<Rightarrow>
    (dial_error, conn) result \<times> net_conn option" where
  "Dial dialed d1 w d2 infoHash peerID =
     (case dialed of
        None \<Rightarrow> (Inl DialFailed, None)
      | Some c \<Rightarrow> map_prod id Some (handshakeOver d1 w d2 c infoHash peerID))"

definition Accept :: "bool \<Rightarrow> write_outcome \<Rightarrow> bool \<Rightarrow> net_conn \<Rightarrow> bytes \<Rightarrow> bytes \<Rightarrow>
    (dial_error, conn) result \<times> net_conn" where
  "Accept d1 w d2 c infoHash peerID =
     (if \<not> d1 then (Inl SetDeadlineFailed, c)
      else (case ParseHandshake (NErr c) (NIn c) of
        (Inl e, r) \<Rightarrow> (Inl (receive_error e), c\<lparr>NIn := r\<rparr>)
      | (Inr theirs, r) \<Rightarrow>
          let c1 = c\<lparr>NIn := r\<rparr> in
          if HInfoHash theirs \<noteq> infoHash then (Inl ErrInfoHashMismatch, c1)
          else (case net_write w (SerializeHandshake (our_handshake infoHash peerID)) c1 of
                  (Some e, c2) \<Rightarrow> (Inl (send_error e), c2)
                | (None, c2) \<Rightarrow>
                    if \<not> d2 then (Inl ClearDeadlineFailed, c2)
                    else (Inr (newConn c2 (HPeerID theirs) (HReserved theirs)), c2))))"

section \<open>The listener\<close>

definition MaxIncomingConnections :: int where "MaxIncomingConnections = 200"
definition MaxConnectionsPerIP :: int where "MaxConnectionsPerIP = 3"

text \<open>
  The remote address of an accepted connection, as \<open>netip.ParseAddrPort\<close> reads it; an address that
  does not parse is the zero \<open>netip.Addr\<close>, here \<open>None\<close>.
\<close>

type_synonym 'a ip = "'a option"

record 'a listener =
  total :: int
  perIP :: "'a ip \<rightharpoonup> int"

definition Listen :: "'a listener" where
  "Listen = \<lparr>total = 0, perIP = Map.empty\<rparr>"

text \<open>Reading a missing key of a Go map gives 0.\<close>

definition per_ip :: "'a listener \<Rightarrow> 'a ip \<Rightarrow> int" where
  "per_ip l ip = (case perIP l ip of None \<Rightarrow> 0 | Some n \<Rightarrow> n)"

definition admit :: "'a ip \<Rightarrow> 'a listener \<Rightarrow> bool \<times> 'a listener" where
  "admit ip l =
     (if total l \<ge> MaxIncomingConnections then (False, l)
      else if per_ip l ip \<ge> MaxConnectionsPerIP then (False, l)
      else (True, l\<lparr>total := total l + 1, perIP := (perIP l)(ip \<mapsto> per_ip l ip + 1)\<rparr>))"

definition release :: "'a ip \<Rightarrow> 'a listener \<Rightarrow> 'a listener" where
  "release ip l =
     (let l1 = l\<lparr>total := total l - 1, perIP := (perIP l)(ip \<mapsto> per_ip l ip - 1)\<rparr> in
      if per_ip l1 ip \<le> 0 then l1\<lparr>perIP := (perIP l1)(ip := None)\<rparr> else l1)"

text \<open>
  What the accept loop and the handler goroutines do: the multiset holds the addresses of the
  connections whose handler is running. A rejected connection is closed at once.
\<close>

record 'a server =
  lst :: "'a listener"
  handlers :: "'a ip multiset"
  closed :: "'a ip multiset"
  serving :: bool

datatype 'a event =
    Accepted "'a ip"
  | AcceptError bool
  | HandlerDone "'a ip"
  | ContextDone

text \<open>
  \<open>AcceptError\<close> carries whether the error is \<open>net.ErrClosed\<close> (or the context is over): then the
  loop returns, otherwise it backs off and retries.
\<close>

fun serve :: "'a event \<Rightarrow> 'a server \<Rightarrow> 'a server" where
  "serve (Accepted ip) s =
     (case admit ip (lst s) of
        (True, l) \<Rightarrow> s\<lparr>lst := l, handlers := add_mset ip (handlers s)\<rparr>
      | (False, l) \<Rightarrow> s\<lparr>lst := l, closed := add_mset ip (closed s)\<rparr>)"
| "serve (AcceptError final) s = (if final then s\<lparr>serving := False\<rparr> else s)"
| "serve (HandlerDone ip) s =
     s\<lparr>lst := release ip (lst s), handlers := handlers s - {#ip#}, closed := add_mset ip (closed s)\<rparr>"
| "serve ContextDone s = s\<lparr>serving := False\<rparr>"

inductive serve_step :: "'a server \<Rightarrow> 'a server \<Rightarrow> bool" where
  accept: "serving s \<Longrightarrow> serve_step s (serve (Accepted ip) s)"
| accept_error: "serving s \<Longrightarrow> serve_step s (serve (AcceptError final) s)"
| handler_done: "ip \<in># handlers s \<Longrightarrow> serve_step s (serve (HandlerDone ip) s)"
| context_done: "serve_step s (serve ContextDone s)"

inductive_cases serve_stepE: "serve_step s s'"

inductive reachable :: "'a server \<Rightarrow> bool" where
  start: "reachable \<lparr>lst = Listen, handlers = {#}, closed = {#}, serving = True\<rparr>"
| step: "reachable s \<Longrightarrow> serve_step s s' \<Longrightarrow> reachable s'"

section \<open>The listener's invariant\<close>

definition listener_ok :: "'a server \<Rightarrow> bool" where
  "listener_ok s \<longleftrightarrow> total (lst s) = int (size (handlers s)) \<and>
     (\<forall>ip. perIP (lst s) ip = (if ip \<in># handlers s then Some (int (count (handlers s) ip)) else None)) \<and>
     size (handlers s) \<le> 200 \<and> (\<forall>ip. count (handlers s) ip \<le> 3)"

lemma per_ip_count: "listener_ok s \<Longrightarrow> per_ip (lst s) ip = int (count (handlers s) ip)"
  by (auto simp: listener_ok_def per_ip_def not_in_iff)

lemma listener_ok_admit:
  assumes "listener_ok s"
  shows "listener_ok (serve (Accepted ip) s)"
  using assms per_ip_count [OF assms, of ip]
  by (auto simp: admit_def listener_ok_def MaxIncomingConnections_def MaxConnectionsPerIP_def
      split: prod.splits if_splits)

lemma listener_ok_release:
  assumes "listener_ok s" "ip \<in># handlers s"
  shows "listener_ok (serve (HandlerDone ip) s)"
proof -
  have n: "per_ip (lst s) ip = int (count (handlers s) ip)" by (rule per_ip_count [OF assms(1)])
  have c: "0 < count (handlers s) ip" "size (handlers s - {#ip#}) = size (handlers s) - 1" "0 < size (handlers s)"
    using assms(2) by (auto simp: size_Diff_singleton nonempty_has_size [symmetric])
  have k: "j \<in># handlers s - {#ip#} \<longleftrightarrow> (if j = ip then 1 < count (handlers s) ip else j \<in># handlers s)" for j
    by (auto simp: in_diff_count count_greater_zero_iff)
  have le: "count (handlers s - {#ip#}) j \<le> 3" for j
    using assms(1) by (auto simp: listener_ok_def intro: le_trans [OF diff_le_self])
  show ?thesis
    using assms(1) c n k le
    by (auto simp: listener_ok_def release_def per_ip_def Let_def of_nat_diff split: if_splits)
qed

lemma listener_ok_other [simp]:
  "listener_ok (serve (AcceptError final) s) = listener_ok s"
  "listener_ok (serve ContextDone s) = listener_ok s"
  by (simp_all add: listener_ok_def)

lemma reachable_ok: "reachable s \<Longrightarrow> listener_ok s"
proof (induction rule: reachable.induct)
  case start
  then show ?case by (simp add: listener_ok_def Listen_def)
next
  case (step s s')
  from step.hyps(2) step.IH show ?case
    by (cases rule: serve_step.cases) (simp_all add: listener_ok_admit listener_ok_release del: serve.simps)
qed

section \<open>Properties\<close>

text \<open>The handshake as an equation on streams, shared by both sides.\<close>

lemma ParseHandshake_cases:
  obtains (bad) err r where "ParseHandshake e s = (Inl err, r)" "\<nexists>h r. handshake_ok h \<and> s = SerializeHandshake h @ r"
  | (good) h r where "ParseHandshake e s = (Inr h, r)" "handshake_ok h" "s = SerializeHandshake h @ r"
proof (cases "ParseHandshake e s")
  case (Pair res r)
  show thesis
  proof (cases res)
    case (Inl err)
    have "\<nexists>h r. handshake_ok h \<and> s = SerializeHandshake h @ r"
      using Inl Pair handshake_stream [of e s] by (metis Pair_inject sum.distinct(1))
    then show ?thesis using bad Inl Pair by blast
  next
    case (Inr h)
    then show ?thesis using good Pair handshake_stream [of e s h r] by blast
  qed
qed

lemma SerializeHandshake_inject:
  "handshake_ok h \<Longrightarrow> handshake_ok h' \<Longrightarrow> SerializeHandshake h @ r = SerializeHandshake h' @ r' \<Longrightarrow> h = h' \<and> r = r'"
  by (cases h; cases h') (simp add: SerializeHandshake_def handshake_ok_def)

definition claims :: "net_conn \<Rightarrow> bytes \<Rightarrow> handshake \<Rightarrow> bytes \<Rightarrow> bool" where
  "claims c infoHash h r \<longleftrightarrow>
     handshake_ok h \<and> NIn c = SerializeHandshake h @ r \<and> HInfoHash h = infoHash"

lemma accept_exact:
  "(is_ok (fst (Accept d1 w d2 c infoHash peerID)) \<longleftrightarrow>
      d1 \<and> w = WroteAll \<and> d2 \<and> (\<exists>h r. claims c infoHash h r)) \<and>
   (NOut (snd (Accept d1 w d2 c infoHash peerID)) =
      (if d1 \<and> (\<exists>h r. claims c infoHash h r)
       then NOut (snd (net_write w (SerializeHandshake (our_handshake infoHash peerID)) c)) else NOut c))"
proof (cases rule: ParseHandshake_cases [of "NErr c" "NIn c"])
  case (bad err r)
  then have "\<nexists>h r. claims c infoHash h r" by (auto simp: claims_def)
  with bad show ?thesis by (simp add: Accept_def)
next
  case (good h r)
  have "(\<exists>h' r'. claims c infoHash h' r') \<longleftrightarrow> HInfoHash h = infoHash"
    using good SerializeHandshake_inject [OF good(2)] by (auto simp: claims_def)
  with good(1) show ?thesis by (cases w) (auto simp: Accept_def Let_def)
qed

text \<open>
  The accepting side tells an unverified peer nothing: \<open>Accept\<close> succeeds exactly when the peer
  sent a complete handshake for our torrent and the socket calls worked, and unless the peer sent
  such a handshake not a single byte has been written, whatever else went wrong.
\<close>

theorem Accept_reveals_nothing:
  "(is_ok (fst (Accept d1 w d2 c infoHash peerID)) \<longleftrightarrow>
      d1 \<and> w = WroteAll \<and> d2 \<and> (\<exists>h r. claims c infoHash h r)) \<and>
   (NOut (snd (Accept d1 w d2 c infoHash peerID)) =
      (if d1 \<and> (\<exists>h r. claims c infoHash h r)
       then NOut (snd (net_write w (SerializeHandshake (our_handshake infoHash peerID)) c)) else NOut c))"
  by (rule accept_exact)

text \<open>
  The dialling side never keeps a bad connection: the socket is closed on every error path,
  stays open exactly on success, success means the peer's handshake carried our info hash, and the
  messages behind the handshake are still in the stream.
\<close>

theorem handshakeOver_closes_on_error:
  "(case handshakeOver d1 w d2 c infoHash peerID of
      (Inl _, c') \<Rightarrow> \<not> NOpen c'
    | (Inr k, c') \<Rightarrow> Net k = c' \<and> NOpen c' = NOpen c \<and>
        NOut c' = NOut c @ SerializeHandshake (our_handshake infoHash peerID) \<and>
        (\<exists>h. claims c infoHash h (NIn c') \<and> PeerID k = HPeerID h \<and> Reserved k = HReserved h \<and>
           AmChoking k \<and> PeerChoking k \<and> \<not> AmInterested k \<and> \<not> PeerInterested k))"
proof (cases w)
  case WroteAll
  show ?thesis
  proof (cases rule: ParseHandshake_cases [of "NErr c" "NIn c"])
    case (good h r)
    then show ?thesis
      using WroteAll by (auto simp: handshakeOver_def Let_def net_close_def claims_def newConn_def)
  qed (use WroteAll in \<open>simp add: handshakeOver_def net_close_def\<close>)
qed (simp add: handshakeOver_def net_close_def)



text \<open>
  C37. The connection guards hold whatever peers do: in every reachable state of the accept loop at
  most 200 handlers run, at most 3 of them for one address, the two counters agree with the running
  handlers, and the per-address map holds no stale entry.
\<close>

theorem listener_limits:
  assumes "reachable s"
  shows "size (handlers s) \<le> 200 \<and> count (handlers s) ip \<le> 3 \<and>
    total (lst s) = int (size (handlers s)) \<and> per_ip (lst s) ip = int (count (handlers s) ip) \<and>
    dom (perIP (lst s)) = set_mset (handlers s)"
  using reachable_ok [OF assms] per_ip_count [OF reachable_ok [OF assms]]
  by (auto simp: listener_ok_def dom_def)

theorem listener_limits_witness:
  "count (handlers (serve (Accepted (Some 7)) \<lparr>lst = Listen, handlers = {#}, closed = {#}, serving = True\<rparr>)) (Some (7 :: nat)) = 1 \<and>
   total (lst (serve (Accepted (Some (7 :: nat))) \<lparr>lst = Listen, handlers = {#}, closed = {#}, serving = True\<rparr>)) = 1"
proof -
  let ?s = "serve (Accepted (Some (7 :: nat))) \<lparr>lst = Listen, handlers = {#}, closed = {#}, serving = True\<rparr>"
  have "reachable ?s" by (rule reachable.step [OF reachable.start]) (rule serve_step.accept, simp)
  moreover have "handlers ?s = {#Some 7#}" by (simp add: admit_def Listen_def MaxIncomingConnections_def per_ip_def MaxConnectionsPerIP_def)
  ultimately show ?thesis using listener_limits [of ?s "Some 7"] by (simp del: serve.simps)
qed

end
