(* ===== verification/Storage.thy ===== *)
theory Storage
  imports Piece_Geometry
begin

text \<open>
  Package \<open>storage\<close>: the output file as a sequence of bytes (\<open>file.go\<close>, \<open>resume.go\<close>). The state is
  the content of the file; the operating system's part - whether an open, truncate or write
  succeeds, and how much of a failed write reached the disk - is an argument of each operation.
  The locale \<open>piece_store\<close> is the contract the download relies on (a piece is read back as it was
  written, and writes to different pieces do not disturb each other); it is interpreted on
  \<open>WritePiece\<close> and \<open>ReadPiece\<close>.
\<close>

section \<open>Files\<close>

datatype storage_error =
    OsError
  | NegativeOffset
  | EndOfFile
  | GeometryError geometry_error
  | BlockExceedsPiece int int int
  | MakeSlicePanic

text \<open>\<open>Truncate\<close> cuts the file or extends it with zeros; a negative size is an error.\<close>

definition truncate_to :: "nat \<Rightarrow> bytes \<Rightarrow> bytes" where
  "truncate_to n xs = take n xs @ replicate (n - length xs) 0"

text \<open>\<open>WriteAt\<close> past the end leaves a hole of zeros; writing no bytes changes nothing.\<close>

definition write_at :: "nat \<Rightarrow> bytes \<Rightarrow> bytes \<Rightarrow> bytes" where
  "write_at off data xs =
     (if data = [] then xs
      else take off xs @ replicate (off - length xs) 0 @ data @ drop (off + length data) xs)"

text \<open>\<open>ReadAt\<close> fills the whole buffer or reports an error.\<close>

definition read_at :: "int \<Rightarrow> int \<Rightarrow> bytes \<Rightarrow> (storage_error, bytes) result" where
  "read_at off n xs =
     (if off < 0 then Inl NegativeOffset
      else if n = 0 \<or> nat off + nat n \<le> length xs then Inr (slice_of xs off (off + n))
      else Inl EndOfFile)"

text \<open>
  \<open>Create\<close>: \<open>existing\<close> is the file found at the path, if any. The second result is what the path
  holds afterwards.
\<close>

definition Create :: "bool \<Rightarrow> bool \<Rightarrow> int \<Rightarrow> bytes option \<Rightarrow> (storage_error, bytes) result \<times> bytes option" where
  "Create open_ok truncate_ok totalLength existing =
     (if \<not> open_ok then (Inl OsError, existing)
      else let f = (case existing of None \<Rightarrow> [] | Some xs \<Rightarrow> xs) in
           if \<not> truncate_ok \<or> totalLength < 0 then (Inl OsError, Some f)
           else (Inr (truncate_to (nat totalLength) f), Some (truncate_to (nat totalLength) f)))"

text \<open>A write that fails after \<open>k\<close> bytes is \<open>Some k\<close>; a write that succeeds is \<open>None\<close>.\<close>

type_synonym write_fault = "nat option"

definition WritePiece :: "write_fault \<Rightarrow> int \<Rightarrow> int \<Rightarrow> int \<Rightarrow> int \<Rightarrow> bytes \<Rightarrow> bytes \<Rightarrow>
    storage_error option \<times> bytes" where
  "WritePiece w index pieceCount pieceLength totalLength data xs =
     (case Range_of index pieceCount pieceLength totalLength of
        Inl e \<Rightarrow> (Some (GeometryError e), xs)
      | Inr (start, _) \<Rightarrow>
          if start < 0 then (Some NegativeOffset, xs)
          else (case w of
                  None \<Rightarrow> (None, write_at (nat start) data xs)
                | Some k \<Rightarrow> (Some OsError, write_at (nat start) (take k data) xs)))"

definition ReadPiece :: "int \<Rightarrow> int \<Rightarrow> int \<Rightarrow> int \<Rightarrow> bytes \<Rightarrow> (storage_error, bytes) result" where
  "ReadPiece index pieceCount pieceLength totalLength xs =
     (case Range_of index pieceCount pieceLength totalLength of
        Inl e \<Rightarrow> Inl (GeometryError e)
      | Inr (start, fin) \<Rightarrow>
          if i64 (fin - start) < 0 then Inl MakeSlicePanic
          else read_at start (i64 (fin - start)) xs)"

definition ReadBlock :: "int \<Rightarrow> int \<Rightarrow> int \<Rightarrow> int \<Rightarrow> int \<Rightarrow> int \<Rightarrow> bytes \<Rightarrow> (storage_error, bytes) result" where
  "ReadBlock index pieceCount pieceLength totalLength beg len xs =
     (case Range_of index pieceCount pieceLength totalLength of
        Inl e \<Rightarrow> Inl (GeometryError e)
      | Inr (start, fin) \<Rightarrow>
          if beg < 0 \<or> i64 (beg + len) > i64 (fin - start)
          then Inl (BlockExceedsPiece beg (i64 (beg + len)) (i64 (fin - start)))
          else if len < 0 then Inl MakeSlicePanic
          else read_at (i64 (start + beg)) len xs)"

section \<open>Resume\<close>

text \<open>
  One goroutine of the scan: \<open>Some True\<close> marks the piece, \<open>Some False\<close> leaves it, \<open>None\<close> is a
  run-time panic (a negative buffer size, a hash missing from the slice).
\<close>

definition verify_one :: "bytes \<Rightarrow> int \<Rightarrow> int \<Rightarrow> int \<Rightarrow> bytes list \<Rightarrow> nat \<Rightarrow> bool option" where
  "verify_one xs pieceCount pieceLength totalLength hashes i =
     (case Range_of (int i) pieceCount pieceLength totalLength of
        Inl _ \<Rightarrow> Some False
      | Inr (start, fin) \<Rightarrow>
          if i64 (fin - start) < 0 then None
          else (case read_at start (i64 (fin - start)) xs of
                  Inl _ \<Rightarrow> Some False
                | Inr buf \<Rightarrow>
                    if i \<ge> length hashes then None
                    else Some (Verify buf (hashes ! i) = Inr True)))"

text \<open>The goroutines finish in any order; \<open>order\<close> lists them as they complete.\<close>

fun verify_all :: "bytes \<Rightarrow> int \<Rightarrow> int \<Rightarrow> int \<Rightarrow> bytes list \<Rightarrow> nat list \<Rightarrow> bool list \<Rightarrow> bool list option" where
  "verify_all xs pc pl tot hashes [] verified = Some verified"
| "verify_all xs pc pl tot hashes (i # order) verified =
     (case verify_one xs pc pl tot hashes i of
        None \<Rightarrow> None
      | Some ok \<Rightarrow> verify_all xs pc pl tot hashes order (if ok then verified[i := True] else verified))"

datatype file_open = NotExist | OpenError | StatError | Opened bytes

definition VerifyExisting :: "file_open \<Rightarrow> nat list \<Rightarrow> int \<Rightarrow> int \<Rightarrow> int \<Rightarrow> bytes list \<Rightarrow>
    (storage_error, bool list) result" where
  "VerifyExisting r order pieceCount pieceLength totalLength hashes =
     (if pieceCount < 0 then Inl MakeSlicePanic
      else let verified = replicate (nat pieceCount) False in
        (case r of
           NotExist \<Rightarrow> Inr verified
         | OpenError \<Rightarrow> Inl OsError
         | StatError \<Rightarrow> Inl OsError
         | Opened xs \<Rightarrow>
             if int (length xs) \<noteq> totalLength then Inr verified
             else (case verify_all xs pieceCount pieceLength totalLength hashes order verified of
                     None \<Rightarrow> Inl MakeSlicePanic
                   | Some v \<Rightarrow> Inr v)))"

section \<open>The contract of a piece store\<close>

locale piece_store =
  fixes valid :: "'g \<Rightarrow> bool" and count :: "'g \<Rightarrow> int" and len :: "'g \<Rightarrow> int \<Rightarrow> int"
    and ok :: "'g \<Rightarrow> 'd \<Rightarrow> bool"
    and wr :: "'g \<Rightarrow> int \<Rightarrow> bytes \<Rightarrow> 'd \<Rightarrow> 'd" and rd :: "'g \<Rightarrow> int \<Rightarrow> 'd \<Rightarrow> bytes option"
  assumes wr_ok: "valid g \<Longrightarrow> ok g d \<Longrightarrow> 0 \<le> i \<Longrightarrow> i < count g \<Longrightarrow> int (length xs) \<le> len g i \<Longrightarrow> ok g (wr g i xs d)"
    and rd_same: "valid g \<Longrightarrow> ok g d \<Longrightarrow> 0 \<le> i \<Longrightarrow> i < count g \<Longrightarrow> int (length xs) = len g i \<Longrightarrow>
      rd g i (wr g i xs d) = Some xs"
    and rd_other: "valid g \<Longrightarrow> ok g d \<Longrightarrow> 0 \<le> i \<Longrightarrow> i < count g \<Longrightarrow> int (length xs) \<le> len g i \<Longrightarrow>
      0 \<le> j \<Longrightarrow> j < count g \<Longrightarrow> i \<noteq> j \<Longrightarrow> rd g j (wr g i xs d) = rd g j d"
begin

text \<open>A history of writes - whole pieces, or the prefixes failed writes left - in order.\<close>

fun wr_all :: "'g \<Rightarrow> (int \<times> bytes) list \<Rightarrow> 'd \<Rightarrow> 'd" where
  "wr_all g [] d = d"
| "wr_all g ((i, xs) # ops) d = wr_all g ops (wr g i xs d)"

definition ops_ok :: "'g \<Rightarrow> (int \<times> bytes) list \<Rightarrow> bool" where
  "ops_ok g ops \<longleftrightarrow> (\<forall>(i, xs) \<in> set ops. 0 \<le> i \<and> i < count g \<and> int (length xs) \<le> len g i)"

lemma ops_ok_Cons [simp]:
  "ops_ok g ((i, xs) # ops) \<longleftrightarrow> 0 \<le> i \<and> i < count g \<and> int (length xs) \<le> len g i \<and> ops_ok g ops"
  by (auto simp: ops_ok_def)

lemma wr_all_ok: "valid g \<Longrightarrow> ok g d \<Longrightarrow> ops_ok g ops \<Longrightarrow> ok g (wr_all g ops d)"
  by (induction g ops d rule: wr_all.induct) (auto intro: wr_ok)

lemma rd_untouched:
  "valid g \<Longrightarrow> ok g d \<Longrightarrow> ops_ok g ops \<Longrightarrow> 0 \<le> j \<Longrightarrow> j < count g \<Longrightarrow> j \<notin> fst ` set ops \<Longrightarrow>
    rd g j (wr_all g ops d) = rd g j d"
  by (induction g ops d rule: wr_all.induct) (auto simp: rd_other wr_ok)

lemma rd_last:
  assumes "valid g" "ok g d" "ops_ok g ops" "map_of (rev ops) j = Some xs" "int (length xs) = len g j"
  shows "rd g j (wr_all g ops d) = Some xs"
  using assms
proof (induction g ops d rule: wr_all.induct)
  case (2 g i ys ops d)
  then have ok': "ok g (wr g i ys d)" by (auto intro: wr_ok)
  show ?case
  proof (cases "map_of (rev ops) j")
    case None
    then have "i = j \<and> ys = xs" using "2.prems"(4) by (auto simp: map_add_Some_iff split: if_splits)
    moreover have "j \<notin> fst ` set ops" using None by (metis map_of_eq_None_iff set_rev)
    ultimately show ?thesis using "2.prems" ok' by (simp add: rd_untouched rd_same)
  next
    case (Some zs)
    then show ?thesis using 2 ok' by (simp add: map_add_def)
  qed
qed simp

end

section \<open>The file is a piece store\<close>

lemma truncate_to_length [simp]: "length (truncate_to n xs) = n"
  by (simp add: truncate_to_def)

lemma write_at_inside:
  assumes "off + length data \<le> length xs"
  shows "length (write_at off data xs) = length xs"
    and "k < length xs \<Longrightarrow> write_at off data xs ! k =
      (if off \<le> k \<and> k < off + length data then data ! (k - off) else xs ! k)"
  using assms by (auto simp: write_at_def nth_append min_def)

lemma read_at_inside:
  assumes "0 \<le> off" "0 \<le> n" "off + n \<le> int (length xs)"
  shows "read_at off n xs = Inr (slice_of xs off (off + n))"
  using assms by (simp add: read_at_def) linarith

lemma slice_of_eq_iff:
  assumes "0 \<le> s" "s \<le> e" "e \<le> int (length xs)" "int (length ys) = e - s"
  shows "slice_of xs s e = ys \<longleftrightarrow> (\<forall>k < nat (e - s). xs ! (nat s + k) = ys ! k)"
  using assms by (auto simp: list_eq_iff_nth_eq length_slice_of slice_of_def)

definition file_ok :: "geometry \<Rightarrow> bytes \<Rightarrow> bool" where
  "file_ok g xs \<longleftrightarrow> int (length xs) = snd (snd g)"

definition file_wr :: "geometry \<Rightarrow> int \<Rightarrow> bytes \<Rightarrow> bytes \<Rightarrow> bytes" where
  "file_wr g i data xs = (case g of (pc, pl, tot) \<Rightarrow> snd (WritePiece None i pc pl tot data xs))"

definition file_rd :: "geometry \<Rightarrow> int \<Rightarrow> bytes \<Rightarrow> bytes option" where
  "file_rd g i xs = (case g of (pc, pl, tot) \<Rightarrow>
     (case ReadPiece i pc pl tot xs of Inl _ \<Rightarrow> None | Inr b \<Rightarrow> Some b))"

lemma piece_range:
  assumes "geometry_ok (pc, pl, tot)" "0 \<le> i" "i < pc"
  shows "Range_of i pc pl tot = Inr (piece_lo (pc, pl, tot) i, piece_hi (pc, pl, tot) i)"
    and "0 \<le> piece_lo (pc, pl, tot) i" "piece_lo (pc, pl, tot) i < piece_hi (pc, pl, tot) i"
    and "piece_hi (pc, pl, tot) i \<le> tot" "tot < 2 ^ 63"
    and "piece_hi (pc, pl, tot) i - piece_lo (pc, pl, tot) i = piece_len i (pc, pl, tot)"
  using assms Range_ok [OF assms] pieces.lo_nonneg [OF assms(1), of i] pieces.nonempty [OF assms(1), of i]
    pieces.hi_le_total [OF assms(1), of i] piece_hi_len [OF assms]
  by (simp_all add: piece_lo_hi geometry_ok.simps)

lemma WritePiece_ok:
  assumes "geometry_ok (pc, pl, tot)" "0 \<le> i" "i < pc"
  shows "WritePiece None i pc pl tot data xs =
    (None, write_at (nat (piece_lo (pc, pl, tot) i)) data xs)"
  using piece_range [OF assms] by (simp add: WritePiece_def)

lemma ReadPiece_ok:
  assumes "geometry_ok (pc, pl, tot)" "0 \<le> i" "i < pc" "int (length xs) = tot"
  shows "ReadPiece i pc pl tot xs =
    Inr (slice_of xs (piece_lo (pc, pl, tot) i) (piece_hi (pc, pl, tot) i))"
proof -
  note r = piece_range [OF assms(1-3)]
  have "i64 (piece_hi (pc, pl, tot) i - piece_lo (pc, pl, tot) i)
      = piece_hi (pc, pl, tot) i - piece_lo (pc, pl, tot) i"
    using r by (intro i64_id) auto
  then show ?thesis
    using r(1-5) assms(4) read_at_inside [of "piece_lo (pc, pl, tot) i"
      "piece_hi (pc, pl, tot) i - piece_lo (pc, pl, tot) i" xs] by (simp add: ReadPiece_def)
qed

lemma file_rd_eq:
  assumes "geometry_ok g" "file_ok g xs" "0 \<le> i" "i < fst g"
  shows "file_rd g i xs = Some (slice_of xs (piece_lo g i) (piece_hi g i))"
  using assms ReadPiece_ok by (cases g) (auto simp: file_rd_def file_ok_def)

lemma file_wr_eq:
  assumes "geometry_ok g" "0 \<le> i" "i < fst g"
  shows "file_wr g i data xs = write_at (nat (piece_lo g i)) data xs"
  using assms WritePiece_ok by (cases g) (auto simp: file_wr_def)

lemma file_bounds:
  assumes "geometry_ok g" "file_ok g xs" "0 \<le> i" "i < fst g"
  shows "0 \<le> piece_lo g i" "piece_lo g i < piece_hi g i" "piece_hi g i \<le> int (length xs)"
    "piece_hi g i - piece_lo g i = piece_len i g"
  using assms piece_range by (cases g; auto simp: file_ok_def)+

lemma file_wr_inside:
  assumes "geometry_ok g" "file_ok g xs" "0 \<le> i" "i < fst g" "int (length data) \<le> piece_len i g"
  shows "nat (piece_lo g i) + length data \<le> length xs"
    and "nat (piece_lo g i) + length data \<le> nat (piece_hi g i)"
  using file_bounds [OF assms(1-4)] assms(5) by linarith+

interpretation disk: piece_store geometry_ok fst "\<lambda>g i. piece_len i g" file_ok file_wr file_rd
proof (unfold_locales, goal_cases)
  case (1 g xs i data)
  then show ?case using write_at_inside(1) [OF file_wr_inside(1) [OF 1]]
    by (simp add: file_wr_eq file_ok_def)
next
  case (2 g xs i data)
  note b = file_bounds [OF 2(1-4)] and w = file_wr_inside [OF 2(1-4) order_eq_refl [OF 2(5)]]
  have len: "length (write_at (nat (piece_lo g i)) data xs) = length xs"
    using write_at_inside(1) w(1) by simp
  then have "file_ok g (file_wr g i data xs)" using 2 by (simp add: file_wr_eq file_ok_def)
  moreover have "slice_of (write_at (nat (piece_lo g i)) data xs) (piece_lo g i) (piece_hi g i) = data"
    using b w len 2(5) by (subst slice_of_eq_iff) (auto simp: write_at_inside(2))
  ultimately show ?case using 2 by (simp add: file_rd_eq file_wr_eq)
next
  case (3 g xs i data j)
  note b = file_bounds [OF 3(1-4)] and w = file_wr_inside [OF 3(1-4) 3(5)]
    and c = file_bounds [OF 3(1,2) 3(6,7)]
  have len: "length (write_at (nat (piece_lo g i)) data xs) = length xs"
    using write_at_inside(1) w(1) by simp
  then have ok: "file_ok g (file_wr g i data xs)" using 3 by (simp add: file_wr_eq file_ok_def)
  have dj: "piece_hi g i \<le> piece_lo g j \<or> piece_hi g j \<le> piece_lo g i"
    using pieces.disjoint [OF 3(1), of i j] 3 by simp
  have "slice_of (write_at (nat (piece_lo g i)) data xs) (piece_lo g j) (piece_hi g j) =
      slice_of xs (piece_lo g j) (piece_hi g j)"
    using b w c dj len by (subst slice_of_eq_iff)
      (auto simp: write_at_inside(2) length_slice_of slice_of_def)
  then show ?case using 3 ok by (simp add: file_rd_eq file_wr_eq)
qed

section \<open>Downloads, crashes and resume\<close>

text \<open>
  A history of \<open>WritePiece\<close> calls as the download makes them: each writes the piece's own part of
  \<open>content\<close>, and may be cut short by a failure or a crash.
\<close>

fun write_history :: "geometry \<Rightarrow> bytes \<Rightarrow> (int \<times> write_fault) list \<Rightarrow> bytes \<Rightarrow> bytes" where
  "write_history g content [] xs = xs"
| "write_history g content ((i, w) # ops) xs =
     (case g of (pc, pl, tot) \<Rightarrow>
        write_history g content ops
          (snd (WritePiece w i pc pl tot (slice_of content (piece_lo g i) (piece_hi g i)) xs)))"

fun written :: "geometry \<Rightarrow> bytes \<Rightarrow> int \<times> write_fault \<Rightarrow> int \<times> bytes" where
  "written g content (i, None) = (i, slice_of content (piece_lo g i) (piece_hi g i))"
| "written g content (i, Some k) = (i, take k (slice_of content (piece_lo g i) (piece_hi g i)))"

lemma write_history_wr_all:
  "geometry_ok g \<Longrightarrow> \<forall>(i, w) \<in> set ops. 0 \<le> i \<and> i < fst g \<Longrightarrow>
    write_history g content ops xs = disk.wr_all g (map (written g content) ops) xs"
proof (induction ops arbitrary: xs)
  case (Cons a ops)
  obtain i w where a: "a = (i, w)" by (cases a)
  obtain pc pl tot where g: "g = (pc, pl, tot)" by (cases g) auto
  have "snd (WritePiece w i pc pl tot (slice_of content (piece_lo g i) (piece_hi g i)) xs) =
      file_wr g i (snd (written g content (i, w))) xs"
    using piece_range [of pc pl tot i] Cons.prems a g
    by (cases w) (auto simp: WritePiece_def file_wr_def)
  then show ?case using Cons a g by (cases w) simp_all
qed simp

lemma piece_slice_length:
  assumes "geometry_ok g" "file_ok g content" "0 \<le> i" "i < fst g"
  shows "int (length (slice_of content (piece_lo g i) (piece_hi g i))) = piece_len i g"
  using file_bounds [OF assms] by (subst length_slice_of) auto

lemma written_ops_ok:
  assumes "geometry_ok g" "file_ok g content" "\<forall>(i, w) \<in> set ops. 0 \<le> i \<and> i < fst g"
  shows "disk.ops_ok g (map (written g content) ops)"
proof -
  have "0 \<le> fst (written g content p) \<and> fst (written g content p) < fst g \<and>
      int (length (snd (written g content p))) \<le> piece_len (fst (written g content p)) g"
    if "p \<in> set ops" for p
    using that assms(3) piece_slice_length [OF assms(1,2), of "fst p"]
    by (cases p; cases "snd p") auto
  then show ?thesis by (auto simp: disk.ops_ok_def split: prod.splits) (metis fst_conv snd_conv)+
qed

lemma map_of_written:
  "map_of (rev ops) i = Some None \<Longrightarrow>
    map_of (rev (map (written g content) ops)) i = Some (slice_of content (piece_lo g i) (piece_hi g i))"
proof (induction ops rule: rev_induct)
  case (snoc p ops)
  then show ?case by (cases p; cases "snd p") (auto split: if_splits)
qed simp

lemma history_piece:
  assumes "geometry_ok g" "file_ok g content" "file_ok g xs" "\<forall>(i, w) \<in> set ops. 0 \<le> i \<and> i < fst g"
    and "map_of (rev ops) j = Some None" "0 \<le> j" "j < fst g"
  shows "file_ok g (write_history g content ops xs) \<and>
    slice_of (write_history g content ops xs) (piece_lo g j) (piece_hi g j) =
      slice_of content (piece_lo g j) (piece_hi g j)"
proof -
  note w = written_ops_ok [OF assms(1,2,4)]
  have ok: "file_ok g (write_history g content ops xs)"
    using disk.wr_all_ok [OF assms(1,3) w] assms by (simp add: write_history_wr_all)
  have "file_rd g j (write_history g content ops xs) =
      Some (slice_of content (piece_lo g j) (piece_hi g j))"
    using disk.rd_last [OF assms(1,3) w map_of_written [OF assms(5)]]
      piece_slice_length [OF assms(1,2,6,7)] assms by (simp add: write_history_wr_all)
  then show ?thesis using ok assms by (simp add: file_rd_eq)
qed

lemma write_history_ok:
  assumes "geometry_ok g" "file_ok g content" "file_ok g xs" "\<forall>(i, w) \<in> set ops. 0 \<le> i \<and> i < fst g"
  shows "file_ok g (write_history g content ops xs)"
  using disk.wr_all_ok [OF assms(1,3) written_ops_ok [OF assms(1,2,4)]] assms
  by (simp add: write_history_wr_all)

text \<open>Two files with the same pieces are the same file.\<close>

lemma file_ext:
  assumes "geometry_ok g" "file_ok g xs" "file_ok g ys"
    and "\<And>i. 0 \<le> i \<Longrightarrow> i < fst g \<Longrightarrow>
      slice_of xs (piece_lo g i) (piece_hi g i) = slice_of ys (piece_lo g i) (piece_hi g i)"
  shows "xs = ys"
proof (rule nth_equalityI)
  show "length xs = length ys" using assms(2,3) by (simp add: file_ok_def)
  fix k assume k: "k < length xs"
  then have "0 \<le> int k" "int k < snd (snd g)" using assms(2) by (simp_all add: file_ok_def)
  then obtain i where i: "0 \<le> i" "i < fst g" "piece_lo g i \<le> int k" "int k < piece_hi g i"
    using pieces.covered [OF assms(1)] by blast
  note b = file_bounds [OF assms(1,2) i(1,2)]
  let ?m = "k - nat (piece_lo g i)"
  have "slice_of xs (piece_lo g i) (piece_hi g i) ! ?m = slice_of ys (piece_lo g i) (piece_hi g i) ! ?m"
    using assms(4) [OF i(1,2)] by simp
  moreover have "?m < nat (piece_hi g i - piece_lo g i)" "nat (piece_lo g i) + ?m = k"
    using b i by linarith+
  ultimately show "xs ! k = ys ! k"
    using k b assms(2,3) by (simp add: slice_of_def file_ok_def)
qed

text \<open>What one goroutine of the scan finds, and what all of them find in any order.\<close>

lemma verify_one_ok:
  assumes "geometry_ok (pc, pl, tot)" "int (length xs) = tot" "int i < pc" "length hashes = nat pc"
    and "\<forall>h \<in> set hashes. length h = 20"
  shows "verify_one xs pc pl tot hashes i =
    Some (sha1_Sum (slice_of xs (piece_lo (pc, pl, tot) (int i)) (piece_hi (pc, pl, tot) (int i))) = hashes ! i)"
proof -
  have i: "0 \<le> int i" by simp
  note r = piece_range [OF assms(1) i assms(3)]
  have "i64 (piece_hi (pc, pl, tot) (int i) - piece_lo (pc, pl, tot) (int i)) =
      piece_hi (pc, pl, tot) (int i) - piece_lo (pc, pl, tot) (int i)"
    using r by (intro i64_id) auto
  moreover have "i < length hashes" "length (hashes ! i) = 20" using assms by (auto simp: nat_less_iff)
  ultimately show ?thesis
    using r(1-5) assms(2) read_at_inside [of "piece_lo (pc, pl, tot) (int i)"
      "piece_hi (pc, pl, tot) (int i) - piece_lo (pc, pl, tot) (int i)" xs]
    by (simp add: verify_one_def Verify_def ExpectedHashSize_def sha1_Size_def del: r(6))
qed

lemma verify_all_ok:
  assumes "\<forall>i \<in> set order. verify_one xs pc pl tot hashes i = Some (P i)"
  shows "verify_all xs pc pl tot hashes order v =
    Some (map (\<lambda>k. if k \<in> set order \<and> P k then True else v ! k) [0..<length v])"
  using assms
proof (induction order arbitrary: v)
  case Nil
  then show ?case by (simp add: map_nth)
next
  case (Cons i order)
  have "verify_all xs pc pl tot hashes (i # order) v =
      Some (map (\<lambda>k. if k \<in> set order \<and> P k then True else (if P i then v[i := True] else v) ! k) [0..<length v])"
    using Cons by simp
  also have "\<dots> = Some (map (\<lambda>k. if k \<in> set (i # order) \<and> P k then True else v ! k) [0..<length v])"
    by (auto simp: nth_list_update) (metis nth_list_update_neq)+
  finally show ?case .
qed

lemma VerifyExisting_eq:
  assumes "geometry_ok (pc, pl, tot)" "int (length xs) = tot" "length hashes = nat pc"
    and "\<forall>h \<in> set hashes. length h = 20" and "set order = {..<nat pc}"
  shows "VerifyExisting (Opened xs) order pc pl tot hashes =
    Inr (map (\<lambda>i. sha1_Sum (slice_of xs (piece_lo (pc, pl, tot) (int i)) (piece_hi (pc, pl, tot) (int i)))
                = hashes ! i) [0..<nat pc])"
proof -
  have "0 < pc" using assms(1) ceil_bounds(1) by (auto simp: geometry_ok.simps)
  moreover
  have "\<forall>i \<in> set order. verify_one xs pc pl tot hashes i = Some
      (sha1_Sum (slice_of xs (piece_lo (pc, pl, tot) (int i)) (piece_hi (pc, pl, tot) (int i))) = hashes ! i)"
    using assms by (auto intro!: verify_one_ok)
  from verify_all_ok [OF this, of "replicate (nat pc) False"]
  have "verify_all xs pc pl tot hashes order (replicate (nat pc) False) =
    Some (map (\<lambda>i. sha1_Sum (slice_of xs (piece_lo (pc, pl, tot) (int i)) (piece_hi (pc, pl, tot) (int i)))
                = hashes ! i) [0..<nat pc])"
    using assms(5) by simp
  ultimately show ?thesis
    using assms(2) by (simp add: VerifyExisting_def Let_def)
qed

section \<open>Properties\<close>

text \<open>
  C21. Order does not matter: whatever order the pieces are written in, however often, and with any
  number of failed partial writes in between, the file equals the torrent's content once the last
  write of every piece has succeeded - starting from any file \<open>Create\<close> leaves, with its size kept.
\<close>

theorem any_write_order_completes:
  assumes "geometry_ok (pc, pl, tot)" "int (length content) = tot"
    and "Create True True tot existing = (Inr xs, disk')"
    and "\<forall>(i, w) \<in> set ops. 0 \<le> i \<and> i < pc"
    and "\<forall>i. 0 \<le> i \<and> i < pc \<longrightarrow> map_of (rev ops) i = Some None"
  shows "write_history (pc, pl, tot) content ops xs = content"
proof -
  let ?g = "(pc, pl, tot)"
  have t: "0 < tot" using assms(1) by (simp add: geometry_ok.simps)
  have ok: "file_ok ?g content" "file_ok ?g xs"
    using assms(2,3) t by (auto simp: file_ok_def Create_def Let_def split: option.splits)
  have ops: "\<forall>(i, w) \<in> set ops. 0 \<le> i \<and> i < fst ?g" using assms(4) by simp
  show ?thesis
    using history_piece [OF assms(1) ok ops] write_history_ok [OF assms(1) ok ops] assms(5)
    by (intro file_ext [OF assms(1) _ ok(1)]) auto
qed

theorem any_write_order_completes_witness:
  "write_history (2, 2, 3) (bs ''abc'') [(1, None), (0, Some 1), (1, None), (0, None)] (bs ''lon'') = bs ''abc''"
proof (rule any_write_order_completes)
  show "Create True True 3 (Some (bs ''longer'')) = (Inr (bs ''lon''), Some (bs ''lon''))"
    by (simp add: Create_def truncate_to_def numeral_eq_Suc)
  show "\<forall>i. 0 \<le> i \<and> i < 2 \<longrightarrow>
      map_of (rev [(1, None), (0, Some 1), (1, None), (0 :: int, None)]) i = Some (None :: write_fault)"
    by auto
qed (simp_all add: geometry_ok.simps)

text \<open>
  The resume scan is exact and independent of scheduling: on a file of the right size the
  result marks exactly the pieces whose bytes hash to their expected hash, in whatever order the
  goroutines finish; on a missing file or one of another size nothing is marked.
\<close>

theorem VerifyExisting_exact:
  assumes "geometry_ok (pc, pl, tot)" "length hashes = nat pc" "\<forall>h \<in> set hashes. length h = 20"
    and "set order = {..<nat pc}"
  shows "VerifyExisting (Opened xs) order pc pl tot hashes =
      Inr (map (\<lambda>i. int (length xs) = tot \<and>
        sha1_Sum (slice_of xs (int i * pl) (min tot ((int i + 1) * pl))) = hashes ! i) [0..<nat pc]) \<and>
    VerifyExisting NotExist order pc pl tot hashes = Inr (replicate (nat pc) False)"
proof (rule conjI)
  have pc: "0 < pc" "(pc - 1) * pl < tot" "tot \<le> pc * pl" "0 < pl"
    using assms(1) ceil_bounds by (auto simp: geometry_ok.simps)
  have hi: "piece_hi (pc, pl, tot) i = min tot ((i + 1) * pl)" if "0 \<le> i" "i < pc" for i
  proof (cases "i = pc - 1")
    case False
    then have "(i + 1) * pl \<le> (pc - 1) * pl" using that pc by (intro mult_right_mono) auto
    then show ?thesis using False pc(2) piece_lo_hi(2) [OF assms(1) that] by simp
  qed (use pc(3) piece_lo_hi(2) [OF assms(1) that] in simp)
  show "VerifyExisting (Opened xs) order pc pl tot hashes =
      Inr (map (\<lambda>i. int (length xs) = tot \<and>
        sha1_Sum (slice_of xs (int i * pl) (min tot ((int i + 1) * pl))) = hashes ! i) [0..<nat pc])"
  proof (cases "int (length xs) = tot")
    case True
    then show ?thesis
      using VerifyExisting_eq [OF assms(1) True assms(2-4)] hi piece_lo_hi(1) [OF assms(1)]
      by (auto simp: nat_less_iff intro!: map_cong)
  qed (use pc(1) in \<open>simp add: VerifyExisting_def Let_def map_replicate_const\<close>)
  show "VerifyExisting NotExist order pc pl tot hashes = Inr (replicate (nat pc) False)"
    using pc(1) by (simp add: VerifyExisting_def)
qed

theorem VerifyExisting_exact_witness:
  "VerifyExisting (Opened (bs ''abc'')) [1, 0] 2 2 3 [sha1_Sum (bs ''ab''), sha1_Sum (bs ''c'')] = Inr [True, True]"
  using conjunct1 [OF VerifyExisting_exact [of 2 2 3 "[sha1_Sum (bs ''ab''), sha1_Sum (bs ''c'')]" "[1, 0]" "bs ''abc''"]]
  by (simp add: geometry_ok.simps lessThan_nat_numeral lessThan_Suc insert_commute slice_of_def upt_rec numeral_eq_Suc)

text \<open>
  C20. Resume after a crash: after any history of writes, finished or cut short, the scan of the next
  start marks every piece whose last write succeeded, and a marked piece is either the torrent's
  own bytes or a SHA-1 collision with them.
\<close>

theorem resume_after_crash:
  assumes "geometry_ok (pc, pl, tot)" "int (length content) = tot" "int (length xs) = tot"
    and "\<forall>(i, w) \<in> set ops. 0 \<le> i \<and> i < pc" and "set order = {..<nat pc}"
    and "hashes = map (\<lambda>i. sha1_Sum (slice_of content (piece_lo (pc, pl, tot) (int i)) (piece_hi (pc, pl, tot) (int i)))) [0..<nat pc]"
    and "crashed = write_history (pc, pl, tot) content ops xs"
  shows "\<exists>v. VerifyExisting (Opened crashed) order pc pl tot hashes = Inr v \<and>
    (\<forall>i < nat pc. (map_of (rev ops) (int i) = Some None \<longrightarrow> v ! i) \<and>
       (v ! i \<longrightarrow> sha1_Sum (slice_of crashed (piece_lo (pc, pl, tot) (int i)) (piece_hi (pc, pl, tot) (int i))) =
          sha1_Sum (slice_of content (piece_lo (pc, pl, tot) (int i)) (piece_hi (pc, pl, tot) (int i)))))"
proof -
  let ?g = "(pc, pl, tot)"
  have ok: "file_ok ?g content" "file_ok ?g xs" using assms(2,3) by (simp_all add: file_ok_def)
  have ops: "\<forall>(i, w) \<in> set ops. 0 \<le> i \<and> i < fst ?g" using assms(4) by simp
  have len: "int (length crashed) = tot"
    using write_history_ok [OF assms(1) ok ops] assms(7) by (simp add: file_ok_def)
  have h: "length hashes = nat pc" "\<forall>h \<in> set hashes. length h = 20" using assms(6) by auto
  show ?thesis
    using VerifyExisting_eq [OF assms(1) len h assms(5)] history_piece [OF assms(1) ok ops] assms(6,7)
    by (auto simp: nat_less_iff)
qed

theorem resume_after_crash_witness:
  "\<exists>v. VerifyExisting (Opened (write_history (2, 2, 3) (bs ''abc'') [(1, None), (0, Some 1)] (bs ''xyz''))) [0, 1] 2 2 3
     [sha1_Sum (bs ''ab''), sha1_Sum (bs ''c'')] = Inr v \<and> v ! 1"
proof -
  have g: "geometry_ok (2, 2, 3)" by (simp add: geometry_ok.simps)
  have h: "[sha1_Sum (bs ''ab''), sha1_Sum (bs ''c'')] =
      map (\<lambda>i. sha1_Sum (slice_of (bs ''abc'') (piece_lo (2, 2, 3) (int i)) (piece_hi (2, 2, 3) (int i)))) [0..<nat 2]"
    using piece_lo_hi [OF g] by (simp add: upt_rec slice_of_def numeral_eq_Suc)
  have o: "set [0, 1] = {..<nat 2}" by (auto simp: lessThan_nat_numeral lessThan_Suc)
  obtain v where "VerifyExisting (Opened (write_history (2, 2, 3) (bs ''abc'') [(1, None), (0, Some 1)] (bs ''xyz'')))
      [0, 1] 2 2 3 [sha1_Sum (bs ''ab''), sha1_Sum (bs ''c'')] = Inr v"
    "map_of (rev [(1 :: int, None), (0, Some (1 :: nat))]) (int 1) = Some None \<longrightarrow> v ! 1"
    using resume_after_crash [OF g _ _ _ o h refl, of "bs ''xyz''" "[(1, None), (0, Some 1)]"] by auto
  then show ?thesis by simp
qed

text \<open>
  Serving reads stay inside the piece: for any begin and length that fit 32 bits, \<open>ReadBlock\<close>
  returns exactly those bytes of the piece when the block lies inside it and an error otherwise,
  and it never fails on a file of the right size for any other reason.
\<close>

lemma ReadBlock_exact:
  assumes "geometry_ok (pc, pl, tot)" "tot < 2 ^ 62" "0 \<le> i" "i < pc" "int (length xs) = tot"
    and "beg < 2 ^ 32" "0 \<le> len" "len < 2 ^ 32" "- (2 ^ 32) < beg"
  shows "ReadBlock i pc pl tot beg len xs =
    (if 0 \<le> beg \<and> beg + len \<le> piece_len i (pc, pl, tot)
     then Inr (slice_of (slice_of xs (piece_lo (pc, pl, tot) i) (piece_hi (pc, pl, tot) i)) beg (beg + len))
     else Inl (BlockExceedsPiece beg (beg + len) (piece_len i (pc, pl, tot))))"
proof -
  note r = piece_range [OF assms(1,3,4)]
  have w: "i64 (beg + len) = beg + len"
    "i64 (piece_hi (pc, pl, tot) i - piece_lo (pc, pl, tot) i) = piece_len i (pc, pl, tot)"
    "i64 (piece_lo (pc, pl, tot) i + beg) = piece_lo (pc, pl, tot) i + beg"
    using r assms by (simp_all add: i64_id)
  show ?thesis
  proof (cases "0 \<le> beg \<and> beg + len \<le> piece_len i (pc, pl, tot)")
    case True
    then have "nat (piece_lo (pc, pl, tot) i + beg) = nat beg + nat (piece_lo (pc, pl, tot) i)"
      "nat (piece_lo (pc, pl, tot) i + beg + len - (piece_lo (pc, pl, tot) i + beg)) = nat len"
      "min (nat (piece_hi (pc, pl, tot) i - piece_lo (pc, pl, tot) i) - nat beg) (nat len) = nat len"
      using r(2-4) r(6) assms(7) by linarith+
    then have "slice_of xs (piece_lo (pc, pl, tot) i + beg) (piece_lo (pc, pl, tot) i + beg + len) =
        slice_of (slice_of xs (piece_lo (pc, pl, tot) i) (piece_hi (pc, pl, tot) i)) beg (beg + len)"
      by (simp add: slice_of_def drop_take min.commute)
    then show ?thesis
      using True r assms(5,7) w read_at_inside [of "piece_lo (pc, pl, tot) i + beg" len xs]
      by (simp add: ReadBlock_def)
  qed (use r(1) w in \<open>auto simp: ReadBlock_def\<close>)
qed

lemma ReadBlock_example:
  "ReadBlock 1 2 4 7 1 2 (bs ''abcdefg'') = Inr (bs ''fg'') \<and>
   ReadBlock 1 2 4 7 2 2 (bs ''abcdefg'') = Inl (BlockExceedsPiece 2 4 3)"
proof -
  have g: "geometry_ok (2, 4, 7)" by (simp add: geometry_ok.simps)
  have l: "piece_len 1 (2, 4, 7) = 3" using Length_ok [OF g, of 1] by (simp add: piece_len_def)
  show ?thesis
    using ReadBlock_exact [OF g, of 1 "bs ''abcdefg''" 1 2] ReadBlock_exact [OF g, of 1 "bs ''abcdefg''" 2 2]
      l piece_lo_hi [OF g, of 1] by (simp add: slice_of_def numeral_eq_Suc)
qed

end
