(* ===== verification/Session.thy ===== *)
theory Session
  imports Connection Storage Coordinator
begin

text \<open>
  Package \<open>download\<close>, one connection: reacting to messages and commands (\<open>worker.go\<close>), serving block
  requests (\<open>serve.go\<close>), downloading a piece (\<open>piece.go\<close>) and the loop around them. A session runs
  against the list of stimuli its \<open>select\<close> statements pick up, in the order they pick them; what
  the run time decides is in the state: the outcome of the n-th write, and whether the n-th event is
  taken by the coordinator before the context is cancelled.

  A session and the coordinator share the bitfield slices, so these are references into a store here
  as well. A nil dereference is a panic: \<open>None\<close>, which \<open>worker\<close> recovers from.
\<close>

section \<open>State (\<open>worker.go\<close>)\<close>

record seed_config =
  SPieceLength :: int
  STotalLength :: int
  SHave :: "bitfield option"
  SFile :: bytes

record 'a session =
  sconn :: conn
  saddr :: 'a
  spieceCount :: int
  sprogress :: "progress option"
  srates :: "'a rates option"
  seed :: "seed_config option"
  peerRef :: nat
  sslices :: "nat \<Rightarrow> bitfield"
  snext :: nat
  sent :: nat
  io :: "nat \<Rightarrow> bool \<times> write_outcome"
  evs :: "'a event list"
  live :: "nat \<Rightarrow> bool"

text \<open>\<open>sendEvent\<close>: the event is taken, or the context is cancelled.\<close>

definition sendEvent :: "'a event \<Rightarrow> 'a session \<Rightarrow> bool \<times> 'a session" where
  "sendEvent ev s = (if live s (length (evs s)) then (True, s\<lparr>evs := evs s @ [ev]\<rparr>) else (False, s))"

text \<open>One of the send helpers of \<open>conn\<close>, with the outcome of the write it makes.\<close>

definition via :: "(bool \<Rightarrow> write_outcome \<Rightarrow> conn \<Rightarrow> io_error option \<times> conn) \<Rightarrow> 'a session \<Rightarrow>
    io_error option \<times> 'a session" where
  "via f s = (case io s (sent s) of (d, w) \<Rightarrow>
     (case f d w (sconn s) of (e, c) \<Rightarrow> (e, s\<lparr>sconn := c, sent := Suc (sent s)\<rparr>)))"

section \<open>Serving requests (\<open>serve.go\<close>)\<close>

definition MaxIncomingRequestSize :: int where "MaxIncomingRequestSize = 16 * 1024"

datatype serve_error =
    RequestPayloadLength int
  | RequestIndex int int
  | RequestGeometry geometry_error
  | RequestPayload payload_error
  | RequestTooLong int
  | RequestRead storage_error
  | RequestSend io_error

text \<open>\<open>None\<close> as the error is the code's \<open>nil\<close>; a nil \<open>HaveBitfield\<close> is dereferenced.\<close>

definition serveRequest :: "int \<Rightarrow> bytes \<Rightarrow> seed_config \<Rightarrow> 'a session \<Rightarrow>
    (serve_error option \<times> 'a session) option" where
  "serveRequest now payload sc s =
     (if length payload \<noteq> 12 then Some (Some (RequestPayloadLength (int (length payload))), s)
      else let index = get_u32 (slice_of payload 0 4) in
           if index < 0 \<or> index \<ge> spieceCount s then Some (Some (RequestIndex index (spieceCount s)), s)
           else if AmChoking (sconn s) then Some (None, s)
           else (case SHave sc of
                   None \<Rightarrow> None
                 | Some have' \<Rightarrow>
                     if \<not> HasPiece have' index then Some (None, s)
                     else (case Length index (spieceCount s) (SPieceLength sc) (STotalLength sc) of
                             Inl DivideByZeroPanic \<Rightarrow> None
                           | Inl e \<Rightarrow> Some (Some (RequestGeometry e), s)
                           | Inr pieceLen \<Rightarrow>
                               (case ParseRequestPayload payload (spieceCount s) pieceLen of
                                  Inl e \<Rightarrow> Some (Some (RequestPayload e), s)
                                | Inr req \<Rightarrow>
                                    if RLength req > MaxIncomingRequestSize
                                    then Some (Some (RequestTooLong (RLength req)), s)
                                    else (case ReadBlock index (spieceCount s) (SPieceLength sc) (STotalLength sc)
                                                 (RBegin req) (RLength req) (SFile sc) of
                                            Inl MakeSlicePanic \<Rightarrow> None
                                          | Inl e \<Rightarrow> Some (Some (RequestRead e), s)
                                          | Inr block \<Rightarrow>
                                              (case via (\<lambda>d w. SendPiece d w index (RBegin req) block) s of
                                                 (Some e, s1) \<Rightarrow> Some (Some (RequestSend e), s1)
                                               | (None, s1) \<Rightarrow>
                                                   Some (None, s1\<lparr>
                                                     sprogress := map_option (AddUploadedBytes now (int (length block))) (sprogress s1),
                                                     srates := AddUploaded now (saddr s1) (int (length block)) (srates s1)\<rparr>)))))))"

section \<open>Messages and commands\<close>

definition handleMessage :: "int \<Rightarrow> message \<Rightarrow> 'a session \<Rightarrow> (bool \<times> 'a session) option" where
  "handleMessage now msg s =
     (if ID msg = MsgBitfield then
        (case Validate (Payload msg) (spieceCount s) of
           Some e \<Rightarrow> Some (False, s)
         | None \<Rightarrow>
             let s1 = s\<lparr>sslices := (sslices s)(snext s := Payload msg), peerRef := snext s, snext := Suc (snext s)\<rparr> in
             Some (sendEvent (BitfieldReceived (saddr s) (snext s)) s1))
      else if ID msg = MsgHave then
        (case ParseHavePayload (Payload msg) (spieceCount s) of
           Inl e \<Rightarrow> Some (True, s)
         | Inr index \<Rightarrow>
             let s1 = s\<lparr>sslices := (sslices s)(peerRef s := SetPiece (sslices s (peerRef s)) index)\<rparr> in
             Some (sendEvent (HaveReceived (saddr s) index) s1))
      else if ID msg = MsgChoke then
        Some (sendEvent (ChokeReceived (saddr s)) (s\<lparr>sconn := (sconn s)\<lparr>PeerChoking := True\<rparr>\<rparr>))
      else if ID msg = MsgUnchoke then
        Some (sendEvent (UnchokeReceived (saddr s)) (s\<lparr>sconn := (sconn s)\<lparr>PeerChoking := False\<rparr>\<rparr>))
      else if ID msg = MsgInterested then
        Some (sendEvent (InterestedReceived (saddr s)) (s\<lparr>sconn := (sconn s)\<lparr>PeerInterested := True\<rparr>\<rparr>))
      else if ID msg = MsgNotInterested then
        Some (sendEvent (NotInterestedReceived (saddr s)) (s\<lparr>sconn := (sconn s)\<lparr>PeerInterested := False\<rparr>\<rparr>))
      else if ID msg = MsgRequest then
        (case seed s of
           None \<Rightarrow> Some (True, s)
         | Some sc \<Rightarrow> (case serveRequest now (Payload msg) sc s of
                         None \<Rightarrow> None
                       | Some (err, s1) \<Rightarrow> Some (err = None, s1)))
      else Some (True, s))"

fun applyCommand :: "command \<Rightarrow> 'a session \<Rightarrow> bool \<times> 'a session" where
  "applyCommand ChokePeer s =
     (case via SendChoke s of
        (Some e, s1) \<Rightarrow> (False, s1)
      | (None, s1) \<Rightarrow> (True, s1\<lparr>sconn := (sconn s1)\<lparr>AmChoking := True\<rparr>\<rparr>))"
| "applyCommand UnchokePeer s =
     (case via SendUnchoke s of
        (Some e, s1) \<Rightarrow> (False, s1)
      | (None, s1) \<Rightarrow> (True, s1\<lparr>sconn := (sconn s1)\<lparr>AmChoking := False\<rparr>\<rparr>))"
| "applyCommand _ s = (True, s)"

section \<open>Downloading a piece (\<open>piece.go\<close>)\<close>

definition backlogLimit :: int where "backlogLimit = 5"

datatype piece_error =
    errCancelled
  | errShutdown
  | PieceGeometry geometry_error
  | RequestBlock int io_error
  | ConnectionClosed
  | PieceMessage payload_error
  | ClosedByHandler
  | ClosedByCommand
  | PieceTimeout
  | VerifyFailed geometry_error
  | HashMismatch

text \<open>What a \<open>select\<close> picks up; \<open>Msg\<close> carries the time it is handled at.\<close>

datatype input =
    Msg int message
  | MessagesClosed
  | Cmd command
  | CommandsClosed
  | Deadline
  | CtxDone

record blocks_state =
  buf :: bytes
  requested :: "bool list"
  received :: "bool list"
  outstanding :: int
  remaining :: int

datatype 'a loop_result =
    Panic "'a session"
  | Stop piece_error "'a session"
  | Go blocks_state "'a session"

fun next_from :: "int \<Rightarrow> bool list \<Rightarrow> int" where
  "next_from i [] = -1"
| "next_from i (r # rs) = (if \<not> r then i else next_from (i + 1) rs)"

definition nextUnrequestedBlock :: "bool list \<Rightarrow> int" where
  "nextUnrequestedBlock rs = next_from 0 rs"

text \<open>The loop that keeps the pipeline full.\<close>

function fill :: "work \<Rightarrow> blocks_state \<Rightarrow> 'a session \<Rightarrow> 'a loop_result" where
  "fill w d s =
     (if PeerChoking (sconn s) \<or> outstanding d \<ge> backlogLimit then Go d s
      else let k = nextUnrequestedBlock (requested d) in
           if k < 0 then Go d s
           else (case BlockBounds 0 k 1 (WLength w) (WLength w) of
                   Inl DivideByZeroPanic \<Rightarrow> Panic s
                 | Inl e \<Rightarrow> Stop (PieceGeometry e) s
                 | Inr (off, len) \<Rightarrow>
                     (case via (\<lambda>dl wo. SendRequest dl wo (Index w) off len) s of
                        (Some e, s1) \<Rightarrow> Stop (RequestBlock k e) s1
                      | (None, s1) \<Rightarrow>
                          fill w (d\<lparr>requested := (requested d)[nat k := True], outstanding := outstanding d + 1\<rparr>) s1)))"
  by auto
termination by (relation "measure (\<lambda>(w, d, s). nat (backlogLimit - outstanding d))") auto

declare fill.simps [simp del]

text \<open>A block arrives.\<close>

definition take_block :: "int \<Rightarrow> work \<Rightarrow> message \<Rightarrow> blocks_state \<Rightarrow> 'a session \<Rightarrow> 'a loop_result" where
  "take_block now w msg d s =
     (case ParsePiecePayload (Payload msg) (spieceCount s) (WLength w) of
        Inl e \<Rightarrow> Stop (PieceMessage e) s
      | Inr p \<Rightarrow>
          if PIndex p \<noteq> Index w then Go d s
          else if PBegin p smod BlockSize \<noteq> 0 then Go d s
          else let block = PBegin p sdiv BlockSize in
               if block < 0 \<or> block \<ge> int (length (received d)) then Go d s
               else let d1 = (if outstanding d > 0 then d\<lparr>outstanding := outstanding d - 1\<rparr> else d) in
                    if received d ! nat block then Go d1 s
                    else Go (d1\<lparr>buf := copy_at (buf d) (nat (PBegin p)) (Block p),
                               received := (received d)[nat block := True],
                               requested := (requested d)[nat block := True],
                               remaining := remaining d - 1\<rparr>)
                            (s\<lparr>sprogress := map_option (AddBytes (int (length (Block p)))) (sprogress s),
                               srates := AddDownloaded now (saddr s) (int (length (Block p))) (srates s)\<rparr>))"

text \<open>One round of the \<open>select\<close>; cancellation reaches it as the closing of the messages channel.\<close>

fun piece_input :: "work \<Rightarrow> input \<Rightarrow> blocks_state \<Rightarrow> 'a session \<Rightarrow> 'a loop_result" where
  "piece_input w MessagesClosed d s = Stop ConnectionClosed s"
| "piece_input w (Msg now msg) d s =
     (if ID msg = MsgPiece then take_block now w msg d s
      else if ID msg = MsgChoke then
        (case sendEvent (ChokeReceived (saddr s)) (s\<lparr>sconn := (sconn s)\<lparr>PeerChoking := True\<rparr>\<rparr>) of
           (ok, s1) \<Rightarrow> if \<not> ok then Stop errShutdown s1
                      else Go (d\<lparr>outstanding := 0, requested := received d\<rparr>) s1)
      else if ID msg = MsgUnchoke then
        (case sendEvent (UnchokeReceived (saddr s)) (s\<lparr>sconn := (sconn s)\<lparr>PeerChoking := False\<rparr>\<rparr>) of
           (ok, s1) \<Rightarrow> if \<not> ok then Stop errShutdown s1 else Go d s1)
      else (case handleMessage now msg s of
              None \<Rightarrow> Panic s
            | Some (ok, s1) \<Rightarrow> if \<not> ok then Stop ClosedByHandler s1 else Go d s1))"
| "piece_input w CommandsClosed d s = Stop errShutdown s"
| "piece_input w (Cmd (CancelPiece i)) d s = (if i = Index w then Stop errCancelled s else Go d s)"
| "piece_input w (Cmd Shutdown) d s = Stop errShutdown s"
| "piece_input w (Cmd c) d s =
     (case applyCommand c s of (ok, s1) \<Rightarrow> if \<not> ok then Stop ClosedByCommand s1 else Go d s1)"
| "piece_input w Deadline d s = Stop PieceTimeout s"
| "piece_input w CtxDone d s = Go d s"

text \<open>
  A download ends with the piece, with an error, in a panic, or it still waits when the inputs are
  used up; the rest of the inputs is left for the loop around it.
\<close>

datatype 'a piece_outcome =
    Panicked "'a session"
  | Failed piece_error "'a session" "input list"
  | Finished bytes "'a session" "input list"
  | Waiting blocks_state "'a session"

fun downloadLoop :: "work \<Rightarrow> blocks_state \<Rightarrow> 'a session \<Rightarrow> input list \<Rightarrow> 'a piece_outcome" where
  "downloadLoop w d s [] =
     (if remaining d \<le> 0 then Finished (buf d) s []
      else (case fill w d s of
              Panic s1 \<Rightarrow> Panicked s1
            | Stop e s1 \<Rightarrow> Failed e s1 []
            | Go d1 s1 \<Rightarrow> Waiting d1 s1))"
| "downloadLoop w d s (x # xs) =
     (if remaining d \<le> 0 then Finished (buf d) s (x # xs)
      else (case fill w d s of
              Panic s1 \<Rightarrow> Panicked s1
            | Stop e s1 \<Rightarrow> Failed e s1 (x # xs)
            | Go d1 s1 \<Rightarrow>
                (case piece_input w x d1 s1 of
                   Panic s1 \<Rightarrow> Panicked s1
                 | Stop e s2 \<Rightarrow> Failed e s2 xs
                 | Go d2 s2 \<Rightarrow> downloadLoop w d2 s2 xs)))"

definition downloadBlocks :: "work \<Rightarrow> 'a session \<Rightarrow> input list \<Rightarrow> 'a piece_outcome" where
  "downloadBlocks w s xs =
     (if WLength w < 0 then Panicked s
      else (case BlockCount 0 1 (WLength w) (WLength w) of
              Inl DivideByZeroPanic \<Rightarrow> Panicked s
            | Inl e \<Rightarrow> Failed (PieceGeometry e) s xs
            | Inr n \<Rightarrow>
                if n < 0 then Panicked s
                else downloadLoop w
                  \<lparr>buf = replicate (nat (WLength w)) 0, requested = replicate (nat n) False,
                   received = replicate (nat n) False, outstanding = 0, remaining = n\<rparr> s xs))"

definition Piece :: "work \<Rightarrow> 'a session \<Rightarrow> input list \<Rightarrow> 'a piece_outcome" where
  "Piece w s xs =
     (case downloadBlocks w s xs of
        Finished data s1 ys \<Rightarrow>
          (case Verify data (ExpectedHash w) of
             Inl e \<Rightarrow> Failed (VerifyFailed e) s1 ys
           | Inr ok \<Rightarrow> if ok then Finished data s1 ys
                      else Failed HashMismatch (s1\<lparr>sprogress := map_option HashFailed (sprogress s1)\<rparr>) ys)
      | r \<Rightarrow> r)"

section \<open>The connection (\<open>worker.go\<close>)\<close>

lemma downloadLoop_rest:
  "downloadLoop w d s xs = Failed e s' ys \<Longrightarrow> length ys \<le> length xs"
  "downloadLoop w d s xs = Finished b s' ys \<Longrightarrow> length ys \<le> length xs"
  by (induction w d s xs rule: downloadLoop.induct)
    (auto split: if_splits loop_result.splits intro: le_SucI)

lemma Piece_rest:
  "Piece w s xs = Failed e s' ys \<Longrightarrow> length ys \<le> length xs"
  "Piece w s xs = Finished b s' ys \<Longrightarrow> length ys \<le> length xs"
  by (auto simp: Piece_def downloadBlocks_def dest: downloadLoop_rest
      split: piece_outcome.splits if_splits sum.splits geometry_error.splits)

text \<open>
  How a session ends, or how it waits: idle, or in the middle of a piece. \<open>Crashed\<close> is a panic, on
  whose way out the deferred calls still run.
\<close>

datatype 'a session_end =
    Closed "'a session"
  | Crashed "'a session"
  | Open "'a session"
  | Busy work blocks_state "'a session"

function session_loop :: "'a session \<Rightarrow> input list \<Rightarrow> 'a session_end" where
  "session_loop s [] = Open s"
| "session_loop s (CtxDone # xs) = Closed s"
| "session_loop s (CommandsClosed # xs) = Closed s"
| "session_loop s (MessagesClosed # xs) = Closed s"
| "session_loop s (Deadline # xs) = session_loop s xs"
| "session_loop s (Msg now msg # xs) =
     (case handleMessage now msg s of
        None \<Rightarrow> Crashed s
      | Some (ok, s1) \<Rightarrow> if ok then session_loop s1 xs else Closed s1)"
| "session_loop s (Cmd (AssignPiece i len h) # xs) =
     (case Piece \<lparr>Index = i, ExpectedHash = h, WLength = len\<rparr> s xs of
        Panicked s1 \<Rightarrow> Crashed s1
      | Waiting d s1 \<Rightarrow> Busy \<lparr>Index = i, ExpectedHash = h, WLength = len\<rparr> d s1
      | Failed e s1 ys \<Rightarrow>
          if e = errCancelled then
            (case sendEvent (PeerReady (saddr s)) s1 of
               (ok, s2) \<Rightarrow> if ok then session_loop s2 ys else Closed s2)
          else if e = errShutdown then Closed s1
          else Closed (snd (sendEvent (PieceFailed (saddr s) i) s1))
      | Finished data s1 ys \<Rightarrow>
          (case sendEvent (PieceDownloaded (saddr s) i data) (snd (via (\<lambda>d w. SendHave d w i) s1)) of
             (ok, s2) \<Rightarrow>
               if \<not> ok then Closed s2
               else (case sendEvent (PeerReady (saddr s)) s2 of
                       (ok', s3) \<Rightarrow> if ok' then session_loop s3 ys else Closed s3)))"
| "session_loop s (Cmd (CancelPiece i) # xs) = session_loop s xs"
| "session_loop s (Cmd Pause # xs) = session_loop s xs"
| "session_loop s (Cmd Shutdown # xs) = Closed s"
| "session_loop s (Cmd ChokePeer # xs) =
     (case applyCommand ChokePeer s of (ok, s1) \<Rightarrow> if ok then session_loop s1 xs else Closed s1)"
| "session_loop s (Cmd UnchokePeer # xs) =
     (case applyCommand UnchokePeer s of (ok, s1) \<Rightarrow> if ok then session_loop s1 xs else Closed s1)"
  by pat_completeness auto
termination
  by (relation "measure (\<lambda>(s, xs). length xs)") (auto dest: Piece_rest simp: less_Suc_eq_le)

text \<open>What we have and whether we want anything, declared before the loop; \<open>None\<close> is a failed send.\<close>

definition declare_state :: "'a session \<Rightarrow> bool \<times> 'a session" where
  "declare_state s =
     (case (case seed s of None \<Rightarrow> None | Some sc \<Rightarrow> SHave sc) of
        None \<Rightarrow>
          (case via SendInterested s of
             (Some e, s1) \<Rightarrow> (False, s1)
           | (None, s1) \<Rightarrow> (True, s1\<lparr>sconn := (sconn s1)\<lparr>AmInterested := True\<rparr>\<rparr>))
      | Some bf \<Rightarrow>
          (case (if Count bf > 0 then via (\<lambda>d w. SendBitfield d w bf) s else (None, s)) of
             (Some e, s1) \<Rightarrow> (False, s1)
           | (None, s1) \<Rightarrow>
               if Count bf < spieceCount s
               then (case via SendInterested s1 of
                       (Some e, s2) \<Rightarrow> (False, s2)
                     | (None, s2) \<Rightarrow> (True, s2\<lparr>sconn := (sconn s2)\<lparr>AmInterested := True\<rparr>\<rparr>))
               else (True, s1)))"

text \<open>\<open>peerBitfieldFor\<close>: a fresh slice of zeros.\<close>

definition peerBitfieldFor :: "'a session \<Rightarrow> 'a session" where
  "peerBitfieldFor s = s\<lparr>sslices := (sslices s)(snext s := empty_bitfield (spieceCount s)),
     peerRef := snext s, snext := Suc (snext s)\<rparr>"

definition hang_up :: "'a session \<Rightarrow> 'a session" where
  "hang_up s = s\<lparr>sprogress := map_option PeerDisconnected (sprogress s),
     sconn := (sconn s)\<lparr>Net := net_close (Net (sconn s))\<rparr>\<rparr>"

text \<open>The deferred calls of a session that reported \<open>PeerJoined\<close>.\<close>

definition leave_session :: "'a session \<Rightarrow> 'a session" where
  "leave_session s = hang_up (snd (sendEvent (PeerLeft (saddr s)) s))"

definition runConnection :: "nat \<Rightarrow> 'a session \<Rightarrow> input list \<Rightarrow> 'a session_end" where
  "runConnection cmds s xs =
     (case sendEvent (PeerJoined (saddr s) cmds) (s\<lparr>sprogress := map_option PeerConnected (sprogress s)\<rparr>) of
        (ok, s1) \<Rightarrow>
          if \<not> ok then Closed (hang_up s1)
          else (case declare_state (peerBitfieldFor s1) of
                  (ok', s2) \<Rightarrow>
                    if \<not> ok' then Closed (leave_session s2)
                    else (case session_loop s2 xs of
                            Closed s3 \<Rightarrow> Closed (leave_session s3)
                          | Crashed s3 \<Rightarrow> Crashed (leave_session s3)
                          | r \<Rightarrow> r)))"

text \<open>\<open>serveIncoming\<close> recovers from a panic of the connection and counts it; \<open>worker\<close> dials first.\<close>

definition serveIncoming :: "nat \<Rightarrow> 'a session \<Rightarrow> input list \<Rightarrow> 'a session_end" where
  "serveIncoming cmds s xs =
     (case runConnection cmds s xs of
        Crashed s1 \<Rightarrow> Closed (s1\<lparr>sprogress := map_option PanicRecovered (sprogress s1)\<rparr>)
      | r \<Rightarrow> r)"

definition worker :: "(dial_error, conn) result \<Rightarrow> nat \<Rightarrow> 'a session \<Rightarrow> input list \<Rightarrow> 'a session_end" where
  "worker dialled cmds s xs =
     (let s0 = s\<lparr>sprogress := map_option ConnectAttempted (sprogress s)\<rparr> in
      case dialled of
        Inl e \<Rightarrow> Closed s0
      | Inr c \<Rightarrow> serveIncoming cmds
          (s0\<lparr>sprogress := map_option ConnectSucceeded (sprogress s0), sconn := c\<rparr>) xs)"

text \<open>
  \<open>readLoop\<close>: every message the stream holds until a read fails, the n-th read being preceded by
  setting the deadline; the session may stop taking messages at any point.
\<close>

function readLoop :: "(nat \<Rightarrow> bool) \<Rightarrow> nat \<Rightarrow> conn \<Rightarrow> message list" where
  "readLoop dl n c =
     (if \<not> dl n then []
      else (case conn_ReadMessage c of
              (Inl e, c1) \<Rightarrow> []
            | (Inr m, c1) \<Rightarrow> m # readLoop dl (Suc n) c1))"
  by auto
termination
proof (relation "measure (\<lambda>(dl, n, c). length (NIn (Net c)))", goal_cases)
  case (2 dl n c x c1 m)
  then show ?case
    by (auto simp: conn_ReadMessage_def ReadMessage_def ReadFull_def Let_def split: if_splits prod.splits)
qed simp

declare readLoop.simps [simp del]

end
