(* ===== verification/Piece_Download.thy ===== *)
theory Piece_Download
  imports Session
begin

text \<open>
  Downloading one piece: the accounting of blocks, that an honest peer's blocks complete the piece
  in any order and whatever else arrives in between, and that only hash-verified data leaves it.
\<close>

section \<open>Accounting\<close>

definition nblocks :: "work \<Rightarrow> int" where
  "nblocks w = (WLength w + BlockSize - 1) div BlockSize"

definition work_ok :: "work \<Rightarrow> bool" where
  "work_ok w \<longleftrightarrow> 0 < WLength w \<and> WLength w + BlockSize \<le> 2 ^ 63"

definition blocks_ok :: "work \<Rightarrow> blocks_state \<Rightarrow> bool" where
  "blocks_ok w d \<longleftrightarrow> length (buf d) = nat (WLength w) \<and> length (requested d) = nat (nblocks w) \<and>
     length (received d) = nat (nblocks w) \<and> remaining d = int (length (filter Not (received d))) \<and>
     0 \<le> outstanding d \<and> outstanding d \<le> backlogLimit \<and>
     (\<forall>k < nat (nblocks w). received d ! k \<longrightarrow> requested d ! k)"

lemma work_geometry:
  assumes "work_ok w"
  shows "block_geometry_ok (0, 1, WLength w, WLength w)" "piece_len 0 (1, WLength w, WLength w) = WLength w"
proof -
  have "Length 0 1 (WLength w) (WLength w) = Inr (WLength w)"
    using assms by (simp add: Length_def work_ok_def i64_def smod_nonneg)
  then show len: "piece_len 0 (1, WLength w, WLength w) = WLength w" by (simp add: piece_len_def)
  have "(WLength w + WLength w - 1) div WLength w = 1"
    using assms by (simp add: work_ok_def div_pos_geq div_pos_pos_trivial)
  then show "block_geometry_ok (0, 1, WLength w, WLength w)"
    using assms len by (simp add: work_ok_def geometry_ok.simps BlockSize_def)
qed

lemma work_blocks:
  assumes "work_ok w"
  shows "BlockCount 0 1 (WLength w) (WLength w) = Inr (nblocks w)" "0 < nblocks w"
    "(nblocks w - 1) * BlockSize < WLength w" "WLength w \<le> nblocks w * BlockSize"
    "0 \<le> k \<Longrightarrow> k < nblocks w \<Longrightarrow> BlockBounds 0 k 1 (WLength w) (WLength w) =
      Inr (k * BlockSize, if k = nblocks w - 1 then WLength w - k * BlockSize else BlockSize)"
proof -
  note g = work_geometry [OF assms]
  show c: "BlockCount 0 1 (WLength w) (WLength w) = Inr (nblocks w)"
    using BlockCount_ok [OF g(1)] by (simp add: g(2) nblocks_def)
  show "0 < nblocks w" "(nblocks w - 1) * BlockSize < WLength w" "WLength w \<le> nblocks w * BlockSize"
    using block_count_bounds [OF g(1)] c by (simp_all add: block_count_def g(2))
  show "0 \<le> k \<Longrightarrow> k < nblocks w \<Longrightarrow> BlockBounds 0 k 1 (WLength w) (WLength w) =
      Inr (k * BlockSize, if k = nblocks w - 1 then WLength w - k * BlockSize else BlockSize)"
    using BlockBounds_ok [OF g(1), of k] by (simp add: g(2) nblocks_def)
qed

text \<open>Where a block ends: all but the last are full.\<close>

definition block_end :: "work \<Rightarrow> nat \<Rightarrow> nat" where
  "block_end w k = (if int k = nblocks w - 1 then nat (WLength w) else (k + 1) * nat BlockSize)"

lemma next_from_none: "next_from i rs < 0 \<Longrightarrow> 0 \<le> i \<Longrightarrow> list_all (\<lambda>r. r) rs"
  by (induction i rs rule: next_from.induct) (auto split: if_splits)

lemma next_from_some:
  "0 \<le> i \<Longrightarrow> 0 \<le> next_from i rs \<Longrightarrow> i \<le> next_from i rs \<and> next_from i rs < i + int (length rs) \<and>
    \<not> rs ! nat (next_from i rs - i)"
proof (induction i rs rule: next_from.induct)
  case (2 i r rs)
  show ?case
  proof (cases r)
    case True
    let ?k = "next_from (i + 1) rs"
    have IH: "i + 1 \<le> ?k" "?k < i + 1 + int (length rs)" "\<not> rs ! nat (?k - (i + 1))"
      using 2 True by auto
    have "nat (?k - i) = Suc (nat (?k - (i + 1)))" using IH(1) by simp
    then have "\<not> (r # rs) ! nat (?k - i)" using IH(3) by (simp only: nth_Cons_Suc not_False_eq_True)
    then show ?thesis using IH(1,2) True by simp
  qed simp
qed simp

lemma nextUnrequestedBlock_some:
  "0 \<le> nextUnrequestedBlock rs \<Longrightarrow> nat (nextUnrequestedBlock rs) < length rs \<and> \<not> rs ! nat (nextUnrequestedBlock rs)"
  using next_from_some [of 0 rs] by (auto simp: nextUnrequestedBlock_def nat_less_iff)

text \<open>What the session keeps whatever the download does: its identity and the run-time oracles.\<close>

definition same_session :: "'a session \<Rightarrow> 'a session \<Rightarrow> bool" where
  "same_session s s' \<longleftrightarrow> saddr s' = saddr s \<and> spieceCount s' = spieceCount s \<and> io s' = io s \<and> live s' = live s \<and> seed s' = seed s"

lemma same_session_refl [simp]: "same_session s s"
  by (simp add: same_session_def)

lemma same_session_trans: "same_session s s1 \<Longrightarrow> same_session s1 s2 \<Longrightarrow> same_session s s2"
  by (simp add: same_session_def)

lemma via_same: "via f s = (e, s1) \<Longrightarrow> same_session s s1 \<and> evs s1 = evs s \<and> sprogress s1 = sprogress s \<and> srates s1 = srates s"
  by (auto simp: via_def same_session_def split: prod.splits)

lemma sendEvent_same: "sendEvent ev s = (ok, s1) \<Longrightarrow> same_session s s1"
  by (auto simp: sendEvent_def same_session_def split: if_splits)

lemma serveRequest_same: "serveRequest now pl sc s = Some (e, s1) \<Longrightarrow> same_session s s1 \<and> evs s1 = evs s"
  by (auto simp: serveRequest_def Let_def same_session_def
      split: if_splits option.splits sum.splits prod.splits geometry_error.splits storage_error.splits dest!: via_same)

lemma handleMessage_same: "handleMessage now m s = Some (ok, s1) \<Longrightarrow> same_session s s1"
  unfolding handleMessage_def Let_def
  by (auto split: if_splits option.splits sum.splits dest!: sendEvent_same serveRequest_same simp: same_session_def)

lemma applyCommand_same: "applyCommand c s = (ok, s1) \<Longrightarrow> same_session s s1 \<and> evs s1 = evs s"
  by (cases c) (auto split: option.splits prod.splits dest!: via_same simp: same_session_def)

text \<open>Filling the pipeline keeps the accounting, cannot panic, and stops only when nothing is left to ask for.\<close>

lemma fill_spec:
  assumes "work_ok w" "blocks_ok w d"
  shows "case fill w d s of
      Panic s1 \<Rightarrow> False
    | Stop e s1 \<Rightarrow> same_session s s1 \<and> evs s1 = evs s \<and> io s \<noteq> (\<lambda>_. (True, WroteAll))
    | Go d1 s1 \<Rightarrow> same_session s s1 \<and> evs s1 = evs s \<and> sprogress s1 = sprogress s \<and> srates s1 = srates s \<and>
        blocks_ok w d1 \<and> buf d1 = buf d \<and> received d1 = received d \<and> remaining d1 = remaining d \<and>
        (PeerChoking (sconn s1) \<or> outstanding d1 = backlogLimit \<or> list_all (\<lambda>r. r) (requested d1))"
  using assms
proof (induction w d s rule: fill.induct)
  case (1 w d s)
  let ?k = "nextUnrequestedBlock (requested d)"
  show ?case
  proof (cases "PeerChoking (sconn s) \<or> outstanding d \<ge> backlogLimit \<or> ?k < 0")
    case True
    then have "fill w d s = Go d s" by (subst fill.simps) (auto simp: Let_def)
    moreover have "?k < 0 \<Longrightarrow> list_all (\<lambda>r. r) (requested d)"
      using next_from_none [of 0 "requested d"] by (simp add: nextUnrequestedBlock_def)
    ultimately show ?thesis using True "1.prems" by (auto simp: blocks_ok_def)
  next
    case False
    have k: "nat ?k < length (requested d)" using False nextUnrequestedBlock_some [of "requested d"] by simp
    then have kn: "0 \<le> ?k" "?k < nblocks w" using False "1.prems" by (auto simp: blocks_ok_def)
    obtain off len where bb: "BlockBounds 0 ?k 1 (WLength w) (WLength w) = Inr (off, len)"
      using work_blocks(5) [OF "1.prems"(1) kn] by blast
    obtain e s1 where v: "via (\<lambda>dl wo. SendRequest dl wo (Index w) off len) s = (e, s1)" by fastforce
    let ?d = "d\<lparr>requested := (requested d)[nat ?k := True], outstanding := outstanding d + 1\<rparr>"
    have eq: "fill w d s = (case e of None \<Rightarrow> fill w ?d s1 | Some err \<Rightarrow> Stop (RequestBlock ?k err) s1)"
      using False bb v by (subst fill.simps) (simp add: Let_def split: option.split)
    show ?thesis
    proof (cases e)
      case None
      have "blocks_ok w ?d"
        using "1.prems" False k by (auto simp: blocks_ok_def nth_list_update)
      moreover have "\<not> (PeerChoking (sconn s) \<or> backlogLimit \<le> outstanding d)" "\<not> ?k < 0" using False by simp_all
      ultimately show ?thesis
        using "1.IH" [OF _ refl _ bb refl v [symmetric] None "1.prems"(1)] via_same [OF v]
        unfolding eq None by (auto split: loop_result.splits intro: same_session_trans simp: same_session_def)
    next
      case (Some err)
      then have "io s \<noteq> (\<lambda>_. (True, WroteAll))"
        using v by (auto simp: via_def SendRequest_def send_def SendMessage_def)
      then show ?thesis using Some via_same [OF v] eq by auto
    qed
  qed
qed

lemma ParsePiecePayload_range:
  "ParsePiecePayload pl n m = Inr p \<Longrightarrow> 0 \<le> PBegin p \<and> PBegin p < m \<and> PBegin p + int (length (Block p)) \<le> m"
  by (auto simp: ParsePiecePayload_def Let_def split: if_splits)

text \<open>A block message stores its block, or at most lowers the number of outstanding requests.\<close>

definition answered :: "blocks_state \<Rightarrow> blocks_state" where
  "answered d = (if outstanding d > 0 then d\<lparr>outstanding := outstanding d - 1\<rparr> else d)"

definition stored :: "nat \<Rightarrow> bytes \<Rightarrow> blocks_state \<Rightarrow> blocks_state" where
  "stored k block d = (answered d)\<lparr>buf := copy_at (buf d) (k * nat BlockSize) block,
     received := (received d)[k := True], requested := (requested d)[k := True], remaining := remaining d - 1\<rparr>"

lemma take_block_cases:
  obtains e where "take_block now w msg d s = Stop (PieceMessage e) s"
      "ParsePiecePayload (Payload msg) (spieceCount s) (WLength w) = Inl e"
  | p where "ParsePiecePayload (Payload msg) (spieceCount s) (WLength w) = Inr p"
      "take_block now w msg d s = Go d s"
      "\<And>k. PIndex p = Index w \<Longrightarrow> k < length (received d) \<Longrightarrow> PBegin p \<noteq> int (k * nat BlockSize)"
  | p k where "ParsePiecePayload (Payload msg) (spieceCount s) (WLength w) = Inr p" "PIndex p = Index w"
      "PBegin p = int (k * nat BlockSize)" "k < length (received d)" "received d ! k"
      "take_block now w msg d s = Go (answered d) s"
  | p k where "ParsePiecePayload (Payload msg) (spieceCount s) (WLength w) = Inr p" "PIndex p = Index w"
      "PBegin p = int (k * nat BlockSize)" "k < length (received d)" "\<not> received d ! k"
      "take_block now w msg d s = Go (stored k (Block p) d)
        (s\<lparr>sprogress := map_option (AddBytes (int (length (Block p)))) (sprogress s),
           srates := AddDownloaded now (saddr s) (int (length (Block p))) (srates s)\<rparr>)"
proof (cases "ParsePiecePayload (Payload msg) (spieceCount s) (WLength w)")
  case (Inl e)
  then show ?thesis using that(1) by (simp add: take_block_def)
next
  case (Inr p)
  let ?b = "PBegin p sdiv BlockSize"
  have pos: "0 \<le> PBegin p" using ParsePiecePayload_range [OF Inr] by simp
  then have dm: "?b = PBegin p div BlockSize" "PBegin p smod BlockSize = PBegin p mod BlockSize"
    by (simp_all add: sdiv_nonneg smod_nonneg BlockSize_def)
  have b0: "0 \<le> ?b" using pos dm(1) by (simp add: BlockSize_def)
  show ?thesis
  proof (cases "PIndex p = Index w \<and> PBegin p mod BlockSize = 0 \<and> ?b < int (length (received d))")
    case False
    have "take_block now w msg d s = Go d s"
      using False b0 by (auto simp: take_block_def Inr dm(2) Let_def)
    moreover have "PBegin p \<noteq> int (k * nat BlockSize)" if "PIndex p = Index w" "k < length (received d)" for k
      using False that dm by (auto simp: BlockSize_def)
    ultimately show ?thesis using that(2) [OF Inr] by blast
  next
    case True
    let ?k = "nat ?b"
    have k: "PBegin p = int (?k * nat BlockSize)" "?k < length (received d)"
      using True b0 dm(1) by (auto simp: BlockSize_def nat_less_iff)
    then have begin': "nat (PBegin p) = ?k * nat BlockSize" by (simp only: nat_int)
    show ?thesis
    proof (cases "received d ! ?k")
      case received: True
      then have "take_block now w msg d s = Go (answered d) s"
        using True b0 by (simp add: take_block_def Inr dm(2) Let_def answered_def)
      then show ?thesis using that(3) [OF Inr _ k(1) k(2) received] True by blast
    next
      case new: False
      then have "take_block now w msg d s = Go (stored ?k (Block p) d)
        (s\<lparr>sprogress := map_option (AddBytes (int (length (Block p)))) (sprogress s),
           srates := AddDownloaded now (saddr s) (int (length (Block p))) (srates s)\<rparr>)"
        using True b0 by (simp add: take_block_def Inr dm(2) Let_def answered_def stored_def begin')
      then show ?thesis using that(4) [OF Inr _ k(1) k(2) new] True by blast
    qed
  qed
qed

lemma filter_Not_update:
  "k < length xs \<Longrightarrow> \<not> xs ! k \<Longrightarrow> int (length (filter Not (xs[k := True]))) = int (length (filter Not xs)) - 1"
proof (induction xs arbitrary: k)
  case (Cons x xs)
  then show ?case by (cases k) auto
qed simp

lemma blocks_ok_answered: "blocks_ok w d \<Longrightarrow> blocks_ok w (answered d)"
  by (auto simp: blocks_ok_def answered_def)

lemma blocks_ok_stored:
  assumes "blocks_ok w d" "k < length (received d)" "\<not> received d ! k" "k * nat BlockSize \<le> length (buf d)"
  shows "blocks_ok w (stored k b d)"
  using assms filter_Not_update [OF assms(2,3)]
  by (auto simp: blocks_ok_def stored_def answered_def nth_list_update)

lemma take_block_ok:
  assumes "blocks_ok w d" "take_block now w msg d s = Go d1 s1"
  shows "blocks_ok w d1 \<and> same_session s s1 \<and> evs s1 = evs s"
proof (rule take_block_cases [of now w msg d s])
  fix p k assume p: "ParsePiecePayload (Payload msg) (spieceCount s) (WLength w) = Inr p" "PBegin p = int (k * nat BlockSize)"
    "k < length (received d)" "\<not> received d ! k"
    "take_block now w msg d s = Go (stored k (Block p) d)
        (s\<lparr>sprogress := map_option (AddBytes (int (length (Block p)))) (sprogress s),
           srates := AddDownloaded now (saddr s) (int (length (Block p))) (srates s)\<rparr>)"
  have "k * nat BlockSize \<le> nat (WLength w)"
    using ParsePiecePayload_range [OF p(1)] unfolding p(2) by linarith
  then have "k * nat BlockSize \<le> length (buf d)" using assms(1) by (simp add: blocks_ok_def)
  then show ?thesis
    using blocks_ok_stored [OF assms(1) p(3,4)] p(5) assms(2) by (auto simp: same_session_def)
qed (use assms blocks_ok_answered in auto)

text \<open>Every round of the loop keeps the accounting and the identity of the session.\<close>

lemma piece_input_ok:
  assumes "blocks_ok w d"
  shows "case piece_input w x d s of
      Panic s1 \<Rightarrow> same_session s s1
    | Stop e s1 \<Rightarrow> same_session s s1
    | Go d1 s1 \<Rightarrow> blocks_ok w d1 \<and> same_session s s1"
proof (cases x)
  case (Msg now msg)
  have "blocks_ok w (d\<lparr>outstanding := 0, requested := received d\<rparr>)"
    using assms by (simp add: blocks_ok_def backlogLimit_def)
  moreover have "case take_block now w msg d s of Panic s1 \<Rightarrow> same_session s s1 | Stop e s1 \<Rightarrow> same_session s s1
      | Go d1 s1 \<Rightarrow> blocks_ok w d1 \<and> same_session s s1"
    using take_block_ok [OF assms, of now msg s]
    by (cases "take_block now w msg d s")
      (auto simp: take_block_def split: sum.splits if_splits simp: Let_def)
  ultimately show ?thesis
    using Msg assms
    by (auto split: prod.splits option.splits dest!: sendEvent_same handleMessage_same simp: same_session_def)
next
  case (Cmd c)
  then show ?thesis
    using assms by (cases c) (auto split: prod.splits dest: applyCommand_same simp del: applyCommand.simps)
qed (use assms in simp_all)

text \<open>
  Where a download stands when it is waiting: the accounting holds, something is missing, and the
  pipeline is as full as it can be.
\<close>

definition waiting_ok :: "work \<Rightarrow> blocks_state \<Rightarrow> 'a session \<Rightarrow> bool" where
  "waiting_ok w d s \<longleftrightarrow> blocks_ok w d \<and> 0 < remaining d \<and>
     (PeerChoking (sconn s) \<or> outstanding d = backlogLimit \<or> list_all (\<lambda>r. r) (requested d))"

lemma downloadLoop_spec:
  assumes "work_ok w" "blocks_ok w d"
  shows "case downloadLoop w d s xs of
      Panicked s1 \<Rightarrow> same_session s s1
    | Failed e s1 ys \<Rightarrow> same_session s s1
    | Finished b s1 ys \<Rightarrow> same_session s s1 \<and> length b = nat (WLength w)
    | Waiting d1 s1 \<Rightarrow> same_session s s1 \<and> waiting_ok w d1 s1"
  using assms
proof (induction w d s xs rule: downloadLoop.induct)
  case (1 w d s)
  then show ?case
    using fill_spec [OF 1, of s] by (auto simp: waiting_ok_def blocks_ok_def split: loop_result.splits)
next
  case (2 w d s x xs)
  show ?case
  proof (cases "remaining d \<le> 0")
    case True
    then show ?thesis using 2(3) by (simp add: blocks_ok_def)
  next
    case False
    show ?thesis
    proof (cases "fill w d s")
      case (Go d1 s1)
      then have f: "blocks_ok w d1" "same_session s s1" using fill_spec [OF "2.prems", of s] by auto
      note p = piece_input_ok [OF f(1), where x = x and s = s1]
      show ?thesis
      proof (cases "piece_input w x d1 s1")
        case (Go d2 s2)
        then have "blocks_ok w d2" "same_session s s2" using p f(2) same_session_trans by auto
        then show ?thesis
          using "2.IH" [OF False \<open>fill w d s = Go d1 s1\<close> Go "2.prems"(1)] False \<open>fill w d s = Go d1 s1\<close> Go
          by (auto split: piece_outcome.splits intro: same_session_trans)
      qed (use p f(2) False Go same_session_trans in auto)
    qed (use fill_spec [OF "2.prems", of s] False in auto)
  qed
qed

section \<open>An honest peer\<close>

definition block_of :: "work \<Rightarrow> bytes \<Rightarrow> nat \<Rightarrow> bytes" where
  "block_of w content k = take (block_end w k - k * nat BlockSize) (drop (k * nat BlockSize) content)"

text \<open>
  The blocks of this piece that arrive are the right ones; apart from them anything may arrive but a
  bitfield, a request of our blocks, the end of the connection, a cancel or a shutdown.
\<close>

fun honest_input :: "work \<Rightarrow> int \<Rightarrow> bytes \<Rightarrow> input \<Rightarrow> bool" where
  "honest_input w n content (Msg now msg) =
     (if ID msg = MsgPiece then
        (case ParsePiecePayload (Payload msg) n (WLength w) of
           Inl e \<Rightarrow> False
         | Inr p \<Rightarrow> PIndex p \<noteq> Index w \<or> PBegin p mod BlockSize \<noteq> 0 \<or>
                    Block p = block_of w content (nat (PBegin p div BlockSize)))
      else ID msg \<noteq> MsgBitfield \<and> ID msg \<noteq> MsgRequest)"
| "honest_input w n content (Cmd (CancelPiece i)) = (i \<noteq> Index w)"
| "honest_input w n content (Cmd Shutdown) = False"
| "honest_input w n content (Cmd c) = True"
| "honest_input w n content CtxDone = True"
| "honest_input w n content x = False"

fun carries :: "work \<Rightarrow> int \<Rightarrow> nat \<Rightarrow> input \<Rightarrow> bool" where
  "carries w n k (Msg now msg) =
     (ID msg = MsgPiece \<and>
      (case ParsePiecePayload (Payload msg) n (WLength w) of
         Inl e \<Rightarrow> False
       | Inr p \<Rightarrow> PIndex p = Index w \<and> PBegin p = int (k * nat BlockSize)))"
| "carries w n k x = False"

definition no_faults :: "'a session \<Rightarrow> bool" where
  "no_faults s \<longleftrightarrow> io s = (\<lambda>_. (True, WroteAll)) \<and> live s = (\<lambda>_. True)"

definition agrees :: "work \<Rightarrow> bytes \<Rightarrow> blocks_state \<Rightarrow> bool" where
  "agrees w content d \<longleftrightarrow> (\<forall>k < nat (nblocks w). received d ! k \<longrightarrow>
     (\<forall>j. k * nat BlockSize \<le> j \<and> j < block_end w k \<longrightarrow> buf d ! j = content ! j))"

lemma no_faults_via: "no_faults s \<Longrightarrow> via SendChoke s = (e, s1) \<or> via SendUnchoke s = (e, s1) \<Longrightarrow> e = None"
  by (auto simp: no_faults_def via_def SendChoke_def SendUnchoke_def send_def SendMessage_def)

lemma no_faults_event: "no_faults s \<Longrightarrow> fst (sendEvent ev s)"
  by (simp add: no_faults_def sendEvent_def)

lemma same_no_faults: "same_session s s1 \<Longrightarrow> no_faults s \<Longrightarrow> no_faults s1"
  by (simp add: same_session_def no_faults_def)

lemma benign_message:
  assumes "no_faults s" "ID msg \<noteq> MsgBitfield" "ID msg \<noteq> MsgRequest"
  shows "\<exists>s1. handleMessage now msg s = Some (True, s1)"
  using assms by (auto simp: handleMessage_def Let_def sendEvent_def no_faults_def split: sum.split)

lemma block_end_bounds:
  assumes "work_ok w" "k < nat (nblocks w)"
  shows "k * nat BlockSize < block_end w k" "block_end w k \<le> nat (WLength w)"
    "block_end w k \<le> (k + 1) * nat BlockSize"
proof -
  note b = work_blocks [OF assms(1)]
  have k: "int k \<le> nblocks w - 1" using assms(2) by simp
  then have le: "int k * BlockSize \<le> (nblocks w - 1) * BlockSize" by (intro mult_right_mono) (auto simp: BlockSize_def)
  show "k * nat BlockSize < block_end w k"
    using b(3) le by (auto simp: block_end_def BlockSize_def)
  show "block_end w k \<le> (k + 1) * nat BlockSize"
    using b(4) by (auto simp: block_end_def BlockSize_def)
  show "block_end w k \<le> nat (WLength w)"
  proof (cases "int k = nblocks w - 1")
    case False
    then have "int (k + 1) * BlockSize \<le> (nblocks w - 1) * BlockSize" using k
      by (intro mult_right_mono) (auto simp: BlockSize_def)
    then show ?thesis using False b(3) by (simp add: block_end_def BlockSize_def)
  qed (simp add: block_end_def)
qed

lemma agrees_stored:
  assumes w: "work_ok w" and ok: "blocks_ok w d" and ag: "agrees w content d"
    and k: "k < nat (nblocks w)" and len: "length content = nat (WLength w)"
  shows "agrees w content (stored k (block_of w content k) d)"
  unfolding agrees_def
proof (intro allI impI, elim conjE)
  fix i j
  assume i: "i < nat (nblocks w)" "received (stored k (block_of w content k) d) ! i"
    and j: "i * nat BlockSize \<le> j" "j < block_end w i"
  note b = block_end_bounds [OF w]
  have blen: "k * nat BlockSize + length (block_of w content k) = block_end w k"
    using b(1,2) [OF k] len by (simp add: block_of_def min_absorb2 diff_le_mono)
  have lb: "length (buf d) = nat (WLength w)" "length (received d) = nat (nblocks w)"
    using ok by (simp_all add: blocks_ok_def)
  have jl: "j < nat (WLength w)" using j(2) b(2) [OF i(1)] by simp
  have e: "buf (stored k (block_of w content k) d) ! j =
      (if k * nat BlockSize \<le> j \<and> j < block_end w k then block_of w content k ! (j - k * nat BlockSize) else buf d ! j)"
    using nth_copy_at [of "k * nat BlockSize" "block_of w content k" "buf d" j] blen lb b(2) [OF k] jl
    by (simp add: stored_def)
  show "buf (stored k (block_of w content k) d) ! j = content ! j"
  proof (cases "k * nat BlockSize \<le> j \<and> j < block_end w k")
    case True
    then have "block_of w content k ! (j - k * nat BlockSize) = content ! j"
      using len jl by (simp add: block_of_def less_diff_conv)
    then show ?thesis using e True by simp
  next
    case False
    then have "i \<noteq> k" using j by auto
    then have "received d ! i" using i lb(2) by (simp add: stored_def)
    then show ?thesis using e False ag i(1) j unfolding agrees_def by auto
  qed
qed

lemma honest_step:
  assumes w: "work_ok w" and ok: "blocks_ok w d" and ag: "agrees w content d" and nf: "no_faults s"
    and len: "length content = nat (WLength w)" and hon: "honest_input w (spieceCount s) content x"
  shows "\<exists>d1 s1. piece_input w x d s = Go d1 s1 \<and> agrees w content d1 \<and>
    (\<forall>k < nat (nblocks w). received d ! k \<or> carries w (spieceCount s) k x \<longrightarrow> received d1 ! k)"
proof (cases x)
  case (Msg now msg)
  show ?thesis
  proof (cases "ID msg = MsgPiece")
    case True
    have lr: "length (received d) = nat (nblocks w)" using ok by (simp add: blocks_ok_def)
    have in_eq: "piece_input w x d s = take_block now w msg d s" using Msg True by simp
    have inj: "k * nat BlockSize = k' * nat BlockSize \<Longrightarrow> k = k'" for k k' by (simp add: BlockSize_def)
    show ?thesis
    proof (rule take_block_cases [of now w msg d s])
      fix e assume "ParsePiecePayload (Payload msg) (spieceCount s) (WLength w) = Inl e"
      then show ?thesis using hon Msg True by simp
    next
      fix p assume p: "ParsePiecePayload (Payload msg) (spieceCount s) (WLength w) = Inr p"
        "take_block now w msg d s = Go d s"
        "\<And>k. PIndex p = Index w \<Longrightarrow> k < length (received d) \<Longrightarrow> PBegin p \<noteq> int (k * nat BlockSize)"
      then have "\<forall>k < nat (nblocks w). \<not> carries w (spieceCount s) k x" using Msg lr by auto
      then show ?thesis using p(2) in_eq ag by auto
    next
      fix p k assume p: "ParsePiecePayload (Payload msg) (spieceCount s) (WLength w) = Inr p" "PIndex p = Index w"
        "PBegin p = int (k * nat BlockSize)" "k < length (received d)" "received d ! k"
        "take_block now w msg d s = Go (answered d) s"
      then have "\<forall>k' < nat (nblocks w). carries w (spieceCount s) k' x \<longrightarrow> received d ! k'"
        using Msg inj by (auto simp del: of_nat_mult)
      moreover have "agrees w content (answered d)" "received (answered d) = received d"
        using ag by (auto simp: agrees_def answered_def)
      ultimately show ?thesis using p(6) in_eq by auto
    next
      fix p k assume p: "ParsePiecePayload (Payload msg) (spieceCount s) (WLength w) = Inr p" "PIndex p = Index w"
        "PBegin p = int (k * nat BlockSize)" "k < length (received d)" "\<not> received d ! k"
        "take_block now w msg d s = Go (stored k (Block p) d)
          (s\<lparr>sprogress := map_option (AddBytes (int (length (Block p)))) (sprogress s),
             srates := AddDownloaded now (saddr s) (int (length (Block p))) (srates s)\<rparr>)"
      have "PBegin p mod BlockSize = 0" "nat (PBegin p div BlockSize) = k"
        using p(3) by (simp_all add: BlockSize_def)
      then have blk: "Block p = block_of w content k" using hon Msg True p(1,2) by simp
      have "agrees w content (stored k (Block p) d)"
        unfolding blk by (rule agrees_stored [OF w ok ag _ len]) (use p(4) lr in simp)
      moreover have "carries w (spieceCount s) k' x \<Longrightarrow> k' = k" for k'
        using Msg p(1-3) inj by (auto simp del: of_nat_mult)
      moreover have "received (stored k (Block p) d) = (received d)[k := True]" by (simp add: stored_def)
      ultimately show ?thesis using p(4,6) in_eq by (auto simp: nth_list_update)
    qed
  next
    case False
    have ch: "agrees w content (d\<lparr>outstanding := 0, requested := received d\<rparr>)" using ag by (simp add: agrees_def)
    obtain s1 where "handleMessage now msg s = Some (True, s1)"
      using benign_message [OF nf] hon Msg False by auto
    then show ?thesis
      using Msg False ag ch nf by (auto simp: sendEvent_def no_faults_def)
  qed
next
  case (Cmd c)
  then show ?thesis
    using hon ag no_faults_via [OF nf]
    by (cases c) (auto split: prod.splits option.splits)
qed (use hon ag in simp_all)

text \<open>Everything received and right is the content.\<close>

lemma all_received:
  assumes w: "work_ok w" and ok: "blocks_ok w d" and ag: "agrees w content d"
    and len: "length content = nat (WLength w)" and rem: "remaining d \<le> 0"
  shows "buf d = content"
proof (rule nth_equalityI)
  show "length (buf d) = length content" using ok len by (simp add: blocks_ok_def)
  fix j assume "j < length (buf d)"
  then have j: "int j < WLength w" using ok by (simp add: blocks_ok_def nat_less_iff)
  let ?k = "j div nat BlockSize"
  note b = work_blocks [OF w]
  have "filter Not (received d) = []" using ok rem by (simp add: blocks_ok_def)
  then have all: "received d ! k" if "k < nat (nblocks w)" for k
    using that ok by (auto simp: blocks_ok_def filter_empty_conv)
  have bs: "0 < nat BlockSize" by (simp add: BlockSize_def)
  have "int j < nblocks w * BlockSize" using j b(4) by simp
  then have "j < nat (nblocks w) * nat BlockSize"
    using b(2) by (simp add: BlockSize_def)
  then have k: "?k < nat (nblocks w)" using bs by (simp add: less_mult_imp_div_less)
  have "?k * nat BlockSize \<le> j" "j < (?k + 1) * nat BlockSize"
    using bs dividend_less_div_times [of "nat BlockSize" j] by simp_all
  then have "j < block_end w ?k" "?k * nat BlockSize \<le> j" using j by (auto simp: block_end_def)
  then show "buf d ! j = content ! j" using ag k all unfolding agrees_def by blast
qed

lemma honest_loop:
  assumes "work_ok w" "blocks_ok w d" "agrees w content d" "no_faults s" "length content = nat (WLength w)"
    "list_all (honest_input w (spieceCount s) content) xs"
    "\<forall>k < nat (nblocks w). received d ! k \<or> list_ex (carries w (spieceCount s) k) xs"
  shows "\<exists>s1 ys. downloadLoop w d s xs = Finished content s1 ys \<and> same_session s s1"
  using assms
proof (induction w d s xs rule: downloadLoop.induct)
  case (1 w d s)
  have "received d ! k" if "k < length (received d)" for k
    using 1(7) 1(2) that by (simp add: blocks_ok_def)
  then have "filter Not (received d) = []" by (auto simp: filter_empty_conv in_set_conv_nth)
  then have "remaining d \<le> 0" using 1(2) by (simp add: blocks_ok_def)
  then show ?case using all_received [OF 1(1-3,5)] by simp
next
  case (2 w d s x xs)
  note w = "2.prems"(1)
  show ?case
  proof (cases "remaining d \<le> 0")
    case True
    then show ?thesis using all_received [OF "2.prems"(1-3,5)] by simp
  next
    case False
    obtain d1 s1 where f: "fill w d s = Go d1 s1"
      using fill_spec [OF w "2.prems"(2), of s] "2.prems"(4) by (cases "fill w d s") (auto simp: no_faults_def)
    then have f1: "same_session s s1" "blocks_ok w d1" "buf d1 = buf d" "received d1 = received d"
      using fill_spec [OF w "2.prems"(2), of s] by auto
    have pc: "spieceCount s1 = spieceCount s" using f1(1) by (simp add: same_session_def)
    have ag1: "agrees w content d1" using "2.prems"(3) f1(3,4) by (simp add: agrees_def)
    have nf1: "no_faults s1" by (rule same_no_faults [OF f1(1) "2.prems"(4)])
    have hx: "honest_input w (spieceCount s1) content x" using "2.prems"(6) pc by simp
    obtain d2 s2 where st: "piece_input w x d1 s1 = Go d2 s2" "agrees w content d2"
      "\<forall>k < nat (nblocks w). received d1 ! k \<or> carries w (spieceCount s1) k x \<longrightarrow> received d2 ! k"
      using honest_step [OF w f1(2) ag1 nf1 "2.prems"(5) hx] by blast
    have ok2: "blocks_ok w d2" "same_session s1 s2"
      using piece_input_ok [OF f1(2), where x = x and s = s1] st(1) by simp_all
    have pc2: "spieceCount s2 = spieceCount s" using ok2(2) pc by (simp add: same_session_def)
    have hs2: "list_all (honest_input w (spieceCount s2) content) xs" using "2.prems"(6) pc2 by simp
    have cov2: "\<forall>k < nat (nblocks w). received d2 ! k \<or> list_ex (carries w (spieceCount s2) k) xs"
      using "2.prems"(7) st(3) f1(4) pc pc2 by auto
    obtain s3 ys where "downloadLoop w d2 s2 xs = Finished content s3 ys" "same_session s2 s3"
      using "2.IH" [OF False f st(1) w ok2(1) st(2) same_no_faults [OF ok2(2) nf1] "2.prems"(5) hs2 cov2] by blast
    then show ?thesis
      using False f st(1) f1(1) ok2(2) by (auto intro: same_session_trans)
  qed
qed

section \<open>Properties\<close>

text \<open>The state \<open>downloadBlocks\<close> starts from.\<close>

lemma downloadBlocks_start:
  assumes "work_ok w"
  defines "d \<equiv> \<lparr>buf = replicate (nat (WLength w)) 0, requested = replicate (nat (nblocks w)) False,
     received = replicate (nat (nblocks w)) False, outstanding = 0, remaining = nblocks w\<rparr>"
  shows "downloadBlocks w s xs = downloadLoop w d s xs" "blocks_ok w d" "agrees w content d"
  using work_blocks(1,2) [OF assms(1)] assms(1)
  by (simp_all add: downloadBlocks_def d_def blocks_ok_def agrees_def backlogLimit_def work_ok_def)

lemma honest_piece_finishes:
  assumes "work_ok w" "length content = nat (WLength w)" "ExpectedHash w = sha1_Sum content" "no_faults s"
    "list_all (honest_input w (spieceCount s) content) xs"
    "list_all (\<lambda>k. list_ex (carries w (spieceCount s) k) xs) [0..<nat (nblocks w)]"
  shows "\<exists>s1 ys. Piece w s xs = Finished content s1 ys"
proof -
  note st = downloadBlocks_start [OF assms(1)]
  obtain s1 ys where "downloadBlocks w s xs = Finished content s1 ys"
    using honest_loop [OF assms(1) st(2) st(3) assms(4,2,5)] assms(6) unfolding st(1) by (auto simp: list_all_iff)
  then show ?thesis
    by (simp add: Piece_def Verify_def assms(3) ExpectedHashSize_def sha1_Size_def)
qed

text \<open>A three-byte piece, from a session whose writes go through.\<close>

definition demo_session :: "nat session" where
  "demo_session = \<lparr>sconn = newConn \<lparr>NIn = [], NErr = EOF, NOut = [], NOpen = True\<rparr> [] [], saddr = 7, spieceCount = 2,
     sprogress = None, srates = None, seed = None, peerRef = 0, sslices = (\<lambda>_. [0]), snext = 1, sent = 0,
     io = (\<lambda>_. (True, WroteAll)), evs = [], live = (\<lambda>_. True)\<rparr>"

definition demo_work :: work where
  "demo_work = \<lparr>Index = 1, ExpectedHash = sha1_Sum [7, 8, 9], WLength = 3\<rparr>"

definition demo_inputs :: "input list" where
  "demo_inputs = [Msg 0 UnchokeMsg, Msg 1 (PieceMsg 0 0 [1]), Cmd ChokePeer, Msg 2 ChokeMsg, Msg 3 (PieceMsg 1 0 [7, 8, 9])]"

lemma demo_facts: "work_ok demo_work" "Index demo_work = 1" "WLength demo_work = 3" "ExpectedHash demo_work = sha1_Sum [7, 8, 9]"
  "spieceCount demo_session = 2" "no_faults demo_session" "nat (nblocks demo_work) = 1"
  by (simp_all add: demo_work_def demo_session_def work_ok_def BlockSize_def no_faults_def nblocks_def)

lemma demo_msgs: "ParsePiecePayload (Payload (PieceMsg 0 0 [1])) 2 3 = Inr \<lparr>PIndex = 0, PBegin = 0, Block = [1]\<rparr>"
  "ParsePiecePayload (Payload (PieceMsg 1 0 [7, 8, 9])) 2 3 = Inr \<lparr>PIndex = 1, PBegin = 0, Block = [7, 8, 9]\<rparr>"
  "map ID [UnchokeMsg, ChokeMsg, PieceMsg 0 0 [1], PieceMsg 1 0 [7, 8, 9]] = [MsgUnchoke, MsgChoke, MsgPiece, MsgPiece]"
  by code_simp+

lemma demo_honest: "list_all (honest_input demo_work (spieceCount demo_session) [7, 8, 9]) demo_inputs"
  using demo_msgs
  by (simp add: demo_facts demo_inputs_def block_of_def block_end_def nblocks_def BlockSize_def msg_ids)

lemma demo_carries: "list_all (\<lambda>k. list_ex (carries demo_work (spieceCount demo_session) k) demo_inputs) [0..<nat (nblocks demo_work)]"
  using demo_msgs by (simp add: demo_facts demo_inputs_def msg_ids)

lemma demo_finishes: "\<exists>s1 ys. Piece demo_work demo_session demo_inputs = Finished [7, 8, 9] s1 ys"
  by (rule honest_piece_finishes [OF demo_facts(1) _ demo_facts(4,6) demo_honest demo_carries]) (simp add: demo_facts(3))

text \<open>
  C8. If every block of the piece arrives and what arrives for this piece is right, the download
  finishes with exactly the piece: in whatever order the blocks come, asked for or not, with
  duplicates, blocks of other pieces, chokes and unchokes and any other harmless message or command
  in between.
\<close>

theorem honest_peer_completes:
  assumes "work_ok w" "length content = nat (WLength w)" "ExpectedHash w = sha1_Sum content" "no_faults s"
    "list_all (honest_input w (spieceCount s) content) xs"
    "list_all (\<lambda>k. list_ex (carries w (spieceCount s) k) xs) [0..<nat (nblocks w)]"
  shows "\<exists>s1 ys. Piece w s xs = Finished content s1 ys"
  by (rule honest_piece_finishes [OF assms])

theorem honest_peer_completes_witness:
  "\<exists>s1 ys. Piece demo_work demo_session demo_inputs = Finished [7, 8, 9] s1 ys"
  by (rule honest_peer_completes [OF demo_facts(1) _ demo_facts(4,6) demo_honest demo_carries]) (simp add: demo_facts(3))

text \<open>
  Whatever the peer sends, the data of a download that finishes has the length and the SHA-1 hash
  the torrent promises; a peer can make a download fail, never make it deliver something else.
\<close>

theorem finished_piece_is_verified:
  assumes "work_ok w" "Piece w s xs = Finished data s1 ys"
  shows "sha1_Sum data = ExpectedHash w \<and> length data = nat (WLength w)"
  using assms(2) downloadLoop_spec [OF assms(1) downloadBlocks_start(2) [OF assms(1)], of s xs]
  by (auto simp: Piece_def downloadBlocks_start(1) [OF assms(1)] Verify_def split: piece_outcome.splits if_splits sum.splits)

theorem finished_piece_is_verified_witness:
  "\<exists>s1 ys. Piece demo_work demo_session demo_inputs = Finished [7, 8, 9] s1 ys \<and>
    sha1_Sum [7, 8, 9] = ExpectedHash demo_work \<and> length [7, 8, 9 :: byte] = nat (WLength demo_work)"
proof -
  obtain s1 ys where "Piece demo_work demo_session demo_inputs = Finished [7, 8, 9] s1 ys"
    using demo_finishes by blast
  then show ?thesis using finished_piece_is_verified [OF demo_facts(1)] by blast
qed


definition small_work :: work where
  "small_work = \<lparr>Index = 1, ExpectedHash = [], WLength = 3\<rparr>"

lemma small_work_waits:
  "case Piece small_work demo_session [Msg 0 UnchokeMsg, Msg 1 (PieceMsg 0 0 [9])] of
     Waiting d s1 \<Rightarrow> outstanding d = 1 \<and> requested d = [True] \<and> received d = [False] \<and>
       NOut (Net (sconn s1)) = Serialize (RequestMsg 1 0 3)
   | _ \<Rightarrow> False"
  by code_simp


end
