(* ===== verification/Session_Props.thy ===== *)
theory Session_Props
  imports Piece_Download Coordinator_Commands
begin

text \<open>
  A whole connection: the events it reports, the bytes it serves, the messages its reader delivers,
  and how the coordinator takes what the session reports.
\<close>

section \<open>The events of a session\<close>

text \<open>Between its first and its last event a session at address \<open>a\<close> reports only what its inputs justify.\<close>

fun assigns :: "int \<Rightarrow> (int \<Rightarrow> bytes \<Rightarrow> bool) \<Rightarrow> input \<Rightarrow> bool" where
  "assigns i P (Cmd (AssignPiece j len h)) = (j = i \<and> P len h)"
| "assigns i P x = False"

fun session_event :: "'a \<Rightarrow> int \<Rightarrow> input list \<Rightarrow> 'a event \<Rightarrow> bool" where
  "session_event a n xs (PeerJoined b k) = False"
| "session_event a n xs (BitfieldReceived b r) = (b = a)"
| "session_event a n xs (HaveReceived b i) = (b = a \<and> 0 \<le> i \<and> i < n)"
| "session_event a n xs (PieceDownloaded b i d) =
    (b = a \<and> list_ex (assigns i (\<lambda>len h. int (length d) = len \<and> sha1_Sum d = h)) xs)"
| "session_event a n xs (PieceFailed b i) = (b = a \<and> list_ex (assigns i (\<lambda>len h. True)) xs)"
| "session_event a n xs (PeerReady b) = (b = a)"
| "session_event a n xs (PeerLeft b) = False"
| "session_event a n xs (InterestedReceived b) = (b = a)"
| "session_event a n xs (NotInterestedReceived b) = (b = a)"
| "session_event a n xs (ChokeReceived b) = (b = a)"
| "session_event a n xs (UnchokeReceived b) = (b = a)"

definition reports :: "('a event \<Rightarrow> bool) \<Rightarrow> 'a session \<Rightarrow> 'a session \<Rightarrow> bool" where
  "reports P s s' \<longleftrightarrow> same_session s s' \<and> (\<exists>zs. evs s' = evs s @ zs \<and> list_all P zs)"

lemma reports_refl [simp]: "reports P s s"
  by (simp add: reports_def)

lemma reports_trans: "reports P s s1 \<Longrightarrow> reports P s1 s2 \<Longrightarrow> reports P s s2"
  by (auto simp: reports_def intro: same_session_trans)

lemma reports_same: "same_session s s1 \<Longrightarrow> evs s1 = evs s \<Longrightarrow> reports P s s1"
  by (simp add: reports_def)

lemma reports_frame [simp]:
  "reports P (s\<lparr>sconn := a1\<rparr>) s' = reports P s s'" "reports P s (s'\<lparr>sconn := a2\<rparr>) = reports P s s'"
  "reports P (s\<lparr>sslices := a3\<rparr>) s' = reports P s s'" "reports P (s\<lparr>snext := a4\<rparr>) s' = reports P s s'"
  "reports P (s\<lparr>peerRef := a5\<rparr>) s' = reports P s s'" "reports P s (s'\<lparr>sprogress := a6\<rparr>) = reports P s s'"
  "reports P (s\<lparr>sprogress := a7\<rparr>) s' = reports P s s'" "reports P s (s'\<lparr>srates := a8\<rparr>) = reports P s s'"
  by (simp_all add: reports_def same_session_def)

lemma sendEvent_reports: "P ev \<Longrightarrow> sendEvent ev s = (ok, s1) \<Longrightarrow> reports P s s1"
  by (auto simp: sendEvent_def reports_def same_session_def split: if_splits)

lemma via_reports: "via f s = (e, s1) \<Longrightarrow> reports P s s1"
  using via_same [of f s e s1] by (auto intro: reports_same)

lemma handleMessage_reports:
  assumes "handleMessage now m s = Some (ok, s1)"
  shows "reports (session_event (saddr s) (spieceCount s) xs) s s1"
proof -
  have have_range: "ParseHavePayload p n = Inr i \<Longrightarrow> 0 \<le> i \<and> i < n" for p n i
    by (auto simp: ParseHavePayload_def Let_def split: if_splits)
  let ?P = "session_event (saddr s) (spieceCount s) xs"
  have ev: "reports ?P t s1" if "sendEvent ev t = (ok, s1)" "?P ev" for ev t
    using sendEvent_reports [of ?P, OF that(2,1)] .
  show ?thesis
    using assms unfolding handleMessage_def Let_def
    by (auto split: if_splits option.splits sum.splits dest!: ev have_range serveRequest_same intro: reports_same)
qed

lemma applyCommand_reports: "applyCommand c s = (ok, s1) \<Longrightarrow> reports P s s1"
  using applyCommand_same [of c s ok s1] by (auto intro: reports_same)

fun loop_session :: "'a loop_result \<Rightarrow> 'a session" where
  "loop_session (Panic s) = s"
| "loop_session (Stop e s) = s"
| "loop_session (Go d s) = s"

lemma fill_reports: "reports P s (loop_session (fill w d s))"
proof (induction w d s rule: fill.induct)
  case (1 w d s)
  let ?k = "nextUnrequestedBlock (requested d)"
  show ?case
  proof (cases "PeerChoking (sconn s) \<or> outstanding d \<ge> backlogLimit \<or> ?k < 0")
    case True
    then show ?thesis by (subst fill.simps) (auto simp: Let_def)
  next
    case False
    show ?thesis
    proof (cases "BlockBounds 0 ?k 1 (WLength w) (WLength w)")
      case (Inl e)
      then show ?thesis using False by (subst fill.simps) (simp add: Let_def split: geometry_error.split)
    next
      case (Inr ol)
      obtain off len where ol: "ol = (off, len)" by fastforce
      obtain e s1 where v: "via (\<lambda>dl wo. SendRequest dl wo (Index w) off len) s = (e, s1)" by fastforce
      let ?d = "d\<lparr>requested := (requested d)[nat ?k := True], outstanding := outstanding d + 1\<rparr>"
      have eq: "fill w d s = (case e of None \<Rightarrow> fill w ?d s1 | Some err \<Rightarrow> Stop (RequestBlock ?k err) s1)"
        using False Inr ol v by (subst fill.simps) (simp add: Let_def split: option.split)
      have c: "\<not> (PeerChoking (sconn s) \<or> backlogLimit \<le> outstanding d)" "\<not> ?k < 0" using False by simp_all
      show ?thesis
      proof (cases e)
        case None
        show ?thesis
          using "1.IH" [OF c(1) refl c(2) Inr ol [symmetric] v [symmetric] None] reports_trans [OF via_reports [OF v]]
          by (simp add: eq None)
      qed (use via_reports [OF v] eq in simp)
    qed
  qed
qed

lemma piece_input_reports:
  "reports (session_event (saddr s) (spieceCount s) xs) s (loop_session (piece_input w x d s))"
proof (cases x)
  case (Msg now msg)
  have t: "reports P s (loop_session (take_block now w msg d s))" for P
    by (rule take_block_cases [of now w msg d s]) simp_all
  show ?thesis
    using Msg t handleMessage_reports [of now msg s]
    by (auto split: prod.splits option.splits dest!: sendEvent_reports [where P = "session_event (saddr s) (spieceCount s) xs", rotated])
next
  case (Cmd c)
  then show ?thesis
    by (cases c) (auto split: prod.splits dest: applyCommand_reports simp del: applyCommand.simps)
qed simp_all

fun outcome_session :: "'a piece_outcome \<Rightarrow> 'a session" where
  "outcome_session (Panicked s) = s"
| "outcome_session (Failed e s ys) = s"
| "outcome_session (Finished b s ys) = s"
| "outcome_session (Waiting d s) = s"

fun outcome_rest :: "'a piece_outcome \<Rightarrow> input list" where
  "outcome_rest (Failed e s ys) = ys"
| "outcome_rest (Finished b s ys) = ys"
| "outcome_rest _ = []"

lemma downloadLoop_reports:
  "reports (session_event (saddr s) (spieceCount s) all) s (outcome_session (downloadLoop w d s xs)) \<and>
    set (outcome_rest (downloadLoop w d s xs)) \<subseteq> set xs"
proof (induction w d s xs rule: downloadLoop.induct)
  case (1 w d s)
  then show ?case
    using fill_reports [of "session_event (saddr s) (spieceCount s) all" s w d] by (cases "fill w d s") auto
next
  case (2 w d s x xs)
  let ?P = "session_event (saddr s) (spieceCount s) all"
  show ?case
  proof (cases "remaining d \<le> 0")
    case False
    show ?thesis
    proof (cases "fill w d s")
      case (Go d1 s1)
      have f: "reports ?P s s1" using fill_reports [of ?P s w d] Go by simp
      then have id1: "saddr s1 = saddr s" "spieceCount s1 = spieceCount s" by (simp_all add: reports_def same_session_def)
      have p: "reports ?P s (loop_session (piece_input w x d1 s1))"
        using reports_trans [OF f] piece_input_reports [of s1 all w x d1] by (simp add: id1)
      show ?thesis
      proof (cases "piece_input w x d1 s1")
        case (Go d2 s2)
        then have r: "reports ?P s s2" using p by simp
        then have id2: "saddr s2 = saddr s" "spieceCount s2 = spieceCount s" by (simp_all add: reports_def same_session_def)
        show ?thesis
          using "2.IH" [OF False \<open>fill w d s = Go d1 s1\<close> Go] reports_trans [OF r] False \<open>fill w d s = Go d1 s1\<close> Go id2
          by auto
      qed (use p False Go in auto)
    qed (use False fill_reports [of ?P s w d] in auto)
  qed simp
qed

lemma Piece_reports:
  "reports (session_event (saddr s) (spieceCount s) all) s (outcome_session (Piece w s xs))"
  "set (outcome_rest (Piece w s xs)) \<subseteq> set xs"
  "Piece w s xs = Finished data s1 ys \<Longrightarrow> sha1_Sum data = ExpectedHash w"
proof -
  have d: "reports (session_event (saddr s) (spieceCount s) all) s (outcome_session (downloadBlocks w s xs)) \<and>
      set (outcome_rest (downloadBlocks w s xs)) \<subseteq> set xs"
    using downloadLoop_reports [of s all w _ xs] by (simp add: downloadBlocks_def split: sum.split geometry_error.split)
  then show "reports (session_event (saddr s) (spieceCount s) all) s (outcome_session (Piece w s xs))"
    "set (outcome_rest (Piece w s xs)) \<subseteq> set xs"
    by (auto simp: Piece_def split: piece_outcome.splits sum.splits)
  show "Piece w s xs = Finished data s1 ys \<Longrightarrow> sha1_Sum data = ExpectedHash w"
    by (auto simp: Piece_def Verify_def split: piece_outcome.splits sum.splits if_splits)
qed

text \<open>The buffer keeps the size it was allocated with.\<close>

lemma fill_buf: "fill w d s = Go d1 s1 \<Longrightarrow> buf d1 = buf d"
proof (induction w d s rule: fill.induct)
  case (1 w d s)
  note prem = "1.prems" [unfolded fill.simps [of w d s] Let_def]
  show ?case
    using prem "1.IH" by (auto split: if_splits sum.splits prod.splits option.splits geometry_error.splits)
qed

lemma take_block_buf:
  assumes "take_block now w msg d s = Go d1 s1" "length (buf d) = nat (WLength w)"
  shows "length (buf d1) = nat (WLength w)"
proof (cases "ParsePiecePayload (Payload msg) (spieceCount s) (WLength w)")
  case (Inr p)
  have "nat (PBegin p) \<le> length (buf d)" using ParsePiecePayload_range [OF Inr] assms(2) by linarith
  then show ?thesis using assms Inr by (auto simp: take_block_def Let_def split: if_splits)
qed (use assms in \<open>simp add: take_block_def\<close>)

lemma piece_input_buf:
  "piece_input w x d s = Go d1 s1 \<Longrightarrow> length (buf d) = nat (WLength w) \<Longrightarrow> length (buf d1) = nat (WLength w)"
proof (cases x)
  case (Cmd c)
  then show "piece_input w x d s = Go d1 s1 \<Longrightarrow> length (buf d) = nat (WLength w) \<Longrightarrow> length (buf d1) = nat (WLength w)"
    by (cases c) (auto split: if_splits prod.splits simp del: applyCommand.simps)
qed (auto split: if_splits prod.splits option.splits dest: take_block_buf)

lemma downloadLoop_length:
  "downloadLoop w d s xs = Finished data s1 ys \<Longrightarrow> length (buf d) = nat (WLength w) \<Longrightarrow> length data = nat (WLength w)"
proof (induction w d s xs rule: downloadLoop.induct)
  case (2 w d s x xs)
  show ?case
  proof (cases "remaining d \<le> 0")
    case False
    then obtain d2 s2 d3 s3 where "fill w d s = Go d2 s2" "piece_input w x d2 s2 = Go d3 s3"
      "downloadLoop w d3 s3 xs = Finished data s1 ys"
      using "2.prems"(1) by (auto split: loop_result.splits)
    then show ?thesis
      using "2.IH" [OF False] fill_buf piece_input_buf "2.prems"(2) by metis
  qed (use "2.prems" in simp)
qed (auto split: if_splits loop_result.splits)

lemma Piece_length: "Piece w s xs = Finished data s1 ys \<Longrightarrow> int (length data) = WLength w"
  by (auto simp: Piece_def downloadBlocks_def dest!: downloadLoop_length
      split: piece_outcome.splits sum.splits if_splits geometry_error.splits)

fun end_session :: "'a session_end \<Rightarrow> 'a session" where
  "end_session (Closed s) = s"
| "end_session (Crashed s) = s"
| "end_session (Open s) = s"
| "end_session (Busy w d s) = s"

fun ended :: "'a session_end \<Rightarrow> bool" where
  "ended (Closed s) = True"
| "ended (Crashed s) = True"
| "ended _ = False"

lemma reports_id: "reports P s s1 \<Longrightarrow> saddr s1 = saddr s \<and> spieceCount s1 = spieceCount s \<and> live s1 = live s"
  by (simp add: reports_def same_session_def)

lemma session_loop_reports:
  "set xs \<subseteq> set all \<Longrightarrow> reports (session_event (saddr s) (spieceCount s) all) s (end_session (session_loop s xs))"
proof (induction s xs rule: session_loop.induct)
  case (6 s now msg xs)
  show ?case
  proof (cases "handleMessage now msg s")
    case (Some r)
    obtain ok s1 where r: "r = (ok, s1)" by fastforce
    have h: "reports (session_event (saddr s) (spieceCount s) all) s s1"
      using handleMessage_reports Some r by blast
    show ?thesis
      using 6 Some r h reports_id [OF h] reports_trans [OF h] by (cases ok) auto
  qed simp
next
  case (7 s i len h xs)
  let ?P = "session_event (saddr s) (spieceCount s) all"
  let ?w = "\<lparr>Index = i, ExpectedHash = h, WLength = len\<rparr>"
  have P: "reports ?P s (outcome_session (Piece ?w s xs))" "set (outcome_rest (Piece ?w s xs)) \<subseteq> set all"
    using Piece_reports(1,2) 7(3) by (blast, fastforce)
  have asg: "list_ex (assigns i Q) all" if "Q len h" for Q
    using 7(3) that by (auto simp: list_ex_iff intro!: bexI [of _ "Cmd (AssignPiece i len h)"])
  show ?case
  proof (cases "Piece ?w s xs")
    case (Failed e s1 ys)
    have s1: "reports ?P s s1" "set ys \<subseteq> set all" using P Failed by simp_all
    note id1 = reports_id [OF s1(1)]
    obtain ok s2 where ready: "sendEvent (PeerReady (saddr s)) s1 = (ok, s2)" by fastforce
    have s2: "reports ?P s s2" using reports_trans [OF s1(1) sendEvent_reports [OF _ ready]] by simp
    obtain ok' s3 where fail: "sendEvent (PieceFailed (saddr s) i) s1 = (ok', s3)" by fastforce
    have "?P (PieceFailed (saddr s) i)" using asg by simp
    then have s3: "reports ?P s s3" using reports_trans [OF s1(1) sendEvent_reports [OF _ fail]] by simp
    show ?thesis
      using 7(1) [OF Failed _ ready [symmetric]] Failed s1 s2 s3 fail ready reports_id [OF s2] reports_trans [OF s2]
      by (cases ok) auto
  next
    case (Finished data s1 ys)
    have s1: "reports ?P s s1" "set ys \<subseteq> set all" using P Finished by simp_all
    obtain e t where v: "via (\<lambda>d w. SendHave d w i) s1 = (e, t)" by fastforce
    obtain ok s2 where dl: "sendEvent (PieceDownloaded (saddr s) i data) t = (ok, s2)" by fastforce
    have "sha1_Sum data = h" "int (length data) = len"
      using Piece_reports(3) [OF Finished] Piece_length [OF Finished] by simp_all
    then have "?P (PieceDownloaded (saddr s) i data)" using asg by simp
    then have s2: "reports ?P s s2"
      using reports_trans [OF reports_trans [OF s1(1) via_reports [OF v]] sendEvent_reports [OF _ dl]] by simp
    obtain ok' s3 where ready: "sendEvent (PeerReady (saddr s)) s2 = (ok', s3)" by fastforce
    have s3: "reports ?P s s3" using reports_trans [OF s2 sendEvent_reports [OF _ ready]] by simp
    show ?thesis
      using 7(2) [OF Finished, of ok s2 ok' s3] Finished s1(2) v dl ready s2 s3 reports_id [OF s3] reports_trans [OF s3]
      by (cases ok; cases ok') auto
  qed (use P in auto)
next
  case (11 s xs)
  obtain ok s1 where c: "applyCommand ChokePeer s = (ok, s1)" by fastforce
  have r: "reports P s s1" for P by (rule applyCommand_reports [OF c])
  show ?case using 11 c r reports_id [OF r] reports_trans [OF r] by (cases ok) (auto simp del: applyCommand.simps)
next
  case (12 s xs)
  obtain ok s1 where c: "applyCommand UnchokePeer s = (ok, s1)" by fastforce
  have r: "reports P s s1" for P by (rule applyCommand_reports [OF c])
  show ?case using 12 c r reports_id [OF r] reports_trans [OF r] by (cases ok) (auto simp del: applyCommand.simps)
qed simp_all

lemma declare_state_same: "declare_state s = (ok, s1) \<Longrightarrow> same_session s s1 \<and> evs s1 = evs s"
  by (auto simp: declare_state_def same_session_def split: option.splits prod.splits if_splits dest!: via_same)

text \<open>The event list of a connection, from \<open>PeerJoined\<close> to \<open>PeerLeft\<close>.\<close>

lemma sendEvent_cases:
  obtains "sendEvent ev s = (True, s\<lparr>evs := evs s @ [ev]\<rparr>)" "live s (length (evs s))"
  | "sendEvent ev s = (False, s)" "\<not> live s (length (evs s))"
  by (auto simp: sendEvent_def)

lemma leave_session_evs:
  "evs (leave_session s) = evs s @ (if live s (length (evs s)) then [PeerLeft (saddr s)] else [])"
  "NOpen (Net (sconn (leave_session s))) = False"
  by (simp_all add: leave_session_def hang_up_def sendEvent_def net_close_def)

definition whole_report :: "'a \<Rightarrow> nat \<Rightarrow> 'a event list \<Rightarrow> bool \<Rightarrow> 'a event list" where
  "whole_report a k mid fin = PeerJoined a k # mid @ (if fin then [PeerLeft a] else [])"

lemma session_reports:
  fixes k :: nat and xs :: "input list"
  assumes "evs s = []"
  defines "r \<equiv> serveIncoming k s xs"
  shows "\<exists>mid. list_all (session_event (saddr s) (spieceCount s) xs) mid \<and>
    (evs (end_session r) = whole_report (saddr s) k mid (ended r) \<or>
     live s \<noteq> (\<lambda>_. True) \<and> (evs (end_session r) = [] \<or> evs (end_session r) = whole_report (saddr s) k mid False)) \<and>
    (if ended r then \<not> NOpen (Net (sconn (end_session r))) else True)"
proof -
  let ?P = "session_event (saddr s) (spieceCount s) xs"
  let ?s0 = "s\<lparr>sprogress := map_option PeerConnected (sprogress s)\<rparr>"
  let ?s1 = "?s0\<lparr>evs := [PeerJoined (saddr s) k]\<rparr>"
  obtain ok s2 where d: "declare_state (peerBitfieldFor ?s1) = (ok, s2)" by fastforce
  have s2: "saddr s2 = saddr s" "spieceCount s2 = spieceCount s" "live s2 = live s" "evs s2 = [PeerJoined (saddr s) k]"
    using declare_state_same [OF d] by (simp_all add: same_session_def peerBitfieldFor_def)
  show ?thesis
  proof (cases "live s 0")
    case False
    then have "r = Closed (hang_up ?s0)"
      using assms(1) by (simp add: r_def serveIncoming_def runConnection_def sendEvent_def)
    moreover have "live s \<noteq> (\<lambda>_. True)" using False by auto
    ultimately show ?thesis
      using assms(1) by (intro exI [of _ "[]"]) (simp add: hang_up_def net_close_def)
  next
    case True
    have run: "runConnection k s xs = (if ok then (case session_loop s2 xs of Closed s3 \<Rightarrow> Closed (leave_session s3)
        | Crashed s3 \<Rightarrow> Crashed (leave_session s3) | r \<Rightarrow> r) else Closed (leave_session s2))"
      using True assms(1) d by (simp add: runConnection_def sendEvent_def)
    obtain s3 fin where s3: "reports ?P s2 s3" "ended r = fin"
      "if fin then evs (end_session r) = evs (leave_session s3) \<and> \<not> NOpen (Net (sconn (end_session r)))
       else evs (end_session r) = evs s3"
    proof (cases ok)
      case False
      then have "r = Closed (leave_session s2)" by (simp add: r_def serveIncoming_def run)
      then show ?thesis using that [of s2 True] leave_session_evs(2) [of s2] by simp
    next
      case ok: True
      have l: "reports ?P s2 (end_session (session_loop s2 xs))"
        using session_loop_reports [of xs xs s2] by (simp add: s2)
      then show ?thesis
        using that [of "end_session (session_loop s2 xs)" "ended r"] ok
        by (cases "session_loop s2 xs") (simp_all add: r_def serveIncoming_def run leave_session_evs(2))
    qed
    obtain mid where mid: "evs s3 = PeerJoined (saddr s) k # mid" "list_all ?P mid" "saddr s3 = saddr s" "live s3 = live s"
      using s3(1) s2 by (auto simp: reports_def same_session_def)
    show ?thesis
    proof (cases "fin \<and> \<not> live s3 (length (evs s3))")
      case True
      then have "live s \<noteq> (\<lambda>_. True)" using mid(4) by auto
      then show ?thesis
        using True s3 mid leave_session_evs(1) [of s3] by (intro exI [of _ mid]) (simp add: whole_report_def)
    next
      case False
      then show ?thesis
        using s3 mid leave_session_evs(1) [of s3] by (intro exI [of _ mid]) (auto simp: whole_report_def)
    qed
  qed
qed

lemma handle_downloaded_results:
  assumes "handle now coin taken (PieceDownloaded b i d) c = Some c'"
  shows "results c' = results c \<or> results c' = results c @ [(i, d)]"
proof -
  have "results (cancelOtherAssignees i b s) = results s" for s :: "'a coordinator"
    using fold_cancel [of i b "assignees s i" s] by (auto simp: cancelOtherAssignees_def)
  then show ?thesis
    using assms by (auto simp: handlePieceDownloaded_def set_piece_Some Let_def split: if_splits bind_splits)
qed

text \<open>Inputs whose commands came from a channel of the coordinator.\<close>

fun input_ok :: "'a coordinator \<Rightarrow> input \<Rightarrow> bool" where
  "input_ok c (Cmd x) = command_ok c x"
| "input_ok c x = True"

lemma command_index: "command_ok c (AssignPiece i len h) \<Longrightarrow> 0 \<le> i \<and> i < pieceCount c \<and> 
    Length i (pieceCount c) (pieceLength c) (totalLength c) = Inr len \<and> h = pieceHashes c ! nat i"
  by (auto simp: command_ok_def Length_def split: if_splits)

lemma session_event_ok:
  assumes "session_event a n xs ev" "list_all (input_ok c) xs" "n = pieceCount c"
  shows "event_in_range (pieceCount c) ev" "ev = PieceDownloaded b i d \<Longrightarrow> sha1_Sum d = pieceHashes c ! nat i"
    "ev = PieceDownloaded b i d \<Longrightarrow> Length i (pieceCount c) (pieceLength c) (totalLength c) = Inr (int (length d))"
proof -
  have asg: "0 \<le> i \<and> i < pieceCount c \<and> (\<exists>len. Length i (pieceCount c) (pieceLength c) (totalLength c) = Inr len \<and>
      Q len (pieceHashes c ! nat i))" if "list_ex (assigns i Q) xs" for i Q
  proof -
    from that obtain x where x: "x \<in> set xs" "assigns i Q x" by (auto simp: list_ex_iff)
    then obtain len h where "x = Cmd (AssignPiece i len h)" "Q len h" by (auto elim!: assigns.elims)
    then show ?thesis using x(1) assms(2) command_index [of c i len h] by (auto simp: list_all_iff)
  qed
  show "event_in_range (pieceCount c) ev" using assms(1,3) asg by (cases ev) auto
  show "ev = PieceDownloaded b i d \<Longrightarrow> sha1_Sum d = pieceHashes c ! nat i"
    "ev = PieceDownloaded b i d \<Longrightarrow> Length i (pieceCount c) (pieceLength c) (totalLength c) = Inr (int (length d))"
    using assms(1) asg by fastforce+
qed

section \<open>Serving and reading\<close>

lemma ParseRequest_outside:
  assumes "0 \<le> i" "i < min pc (2 ^ 32)" "0 \<le> b" "b < 2 ^ 32" "0 \<le> n" "n < 2 ^ 32" "\<not> (b < len \<and> b + n \<le> len)"
  shows "\<exists>e. ParseRequestPayload (Payload (RequestMsg i b n)) pc len = Inl e"
proof (cases "ParseRequestPayload (Payload (RequestMsg i b n)) pc len")
  case (Inr q)
  have "get_u32 (put_u32 i) = i" "get_u32 (put_u32 b) = b" "get_u32 (put_u32 n) = n"
    using assms by (auto intro!: get_put_u32')
  then show ?thesis
    using Inr assms request_payload_slices [of "put_u32 i" "put_u32 b" "put_u32 n"]
    by (auto simp: ParseRequestPayload_def RequestMsg_def Let_def split: if_splits)
qed simp

text \<open>What we are willing to send for a request.\<close>

definition granted :: "geometry \<Rightarrow> bitfield \<Rightarrow> conn \<Rightarrow> int \<Rightarrow> int \<Rightarrow> int \<Rightarrow> bool" where
  "granted g have' c i b n \<longleftrightarrow> \<not> AmChoking c \<and> HasPiece have' i \<and> b < piece_len i g \<and> b + n \<le> piece_len i g \<and>
     n \<le> MaxIncomingRequestSize"

lemma serve_spec:
  fixes s :: "'a session" and have' :: bitfield and f :: bytes and pc pl tot i b n :: int
  assumes g: "geometry_ok (pc, pl, tot)" "tot < 2 ^ 62" "int (length f) = tot"
    and i: "0 \<le> i" "i < min pc (2 ^ 32)" and bn: "0 \<le> b" "b < 2 ^ 32" "0 \<le> n" "n < 2 ^ 32"
    and s: "spieceCount s = pc" "io s (sent s) = (True, WroteAll)"
  defines "block \<equiv> slice_of (slice_of f (piece_lo (pc, pl, tot) i) (piece_hi (pc, pl, tot) i)) b (b + n)"
    and "ok \<equiv> granted (pc, pl, tot) have' (sconn s) i b n"
    and "sc \<equiv> \<lparr>SPieceLength = pl, STotalLength = tot, SHave = Some have', SFile = f\<rparr>"
  shows "\<exists>err s1. serveRequest now (Payload (RequestMsg i b n)) sc s = Some (err, s1) \<and>
    (err = None) = (AmChoking (sconn s) \<or> \<not> HasPiece have' i \<or> ok) \<and>
    NOut (Net (sconn s1)) = NOut (Net (sconn s)) @ (if ok then Serialize (PieceMsg i b block) else []) \<and>
    sprogress s1 = (if ok then map_option (AddUploadedBytes now n) (sprogress s) else sprogress s) \<and>
    srates s1 = (if ok then AddUploaded now (saddr s) n (srates s) else srates s)"
proof -
  let ?p = "Payload (RequestMsg i b n)"
  let ?L = "piece_len i (pc, pl, tot)"
  note L = Length_piece_len [OF g(1) i(1)]
  have ipc: "i < pc" using i(2) by simp
  have idx: "length ?p = 12" "get_u32 (slice_of ?p 0 4) = i"
    using request_payload_slices [of "put_u32 i" "put_u32 b" "put_u32 n"] i
    by (auto simp: RequestMsg_def intro!: get_put_u32')
  show ?thesis
  proof (cases "AmChoking (sconn s) \<or> \<not> HasPiece have' i")
    case True
    then show ?thesis
      using idx i(1) ipc s by (auto simp: serveRequest_def sc_def ok_def granted_def)
  next
    case False
    show ?thesis
    proof (cases "b < ?L \<and> b + n \<le> ?L")
      case out: False
      obtain e where "ParseRequestPayload ?p pc ?L = Inl e"
        using ParseRequest_outside [OF i bn out] by blast
      moreover have "\<not> ok" using out unfolding ok_def granted_def by blast
      ultimately show ?thesis
        using False idx i(1) ipc s L(1) [OF ipc] by (simp add: serveRequest_def sc_def)
    next
      case inside: True
      then have parse: "ParseRequestPayload ?p pc ?L = Inr \<lparr>RIndex = i, RBegin = b, RLength = n\<rparr>"
        using i bn by (subst request_payload_exact) auto
      show ?thesis
      proof (cases "n \<le> MaxIncomingRequestSize")
        case size: True
        have rb: "ReadBlock i pc pl tot b n f = Inr block"
          using ReadBlock_exact [OF g(1,2) i(1) ipc g(3)] bn inside by (simp add: block_def)
        have "length block = nat n"
        proof -
          note r = piece_range [OF g(1) i(1) ipc]
          have "length (slice_of f (piece_lo (pc, pl, tot) i) (piece_hi (pc, pl, tot) i)) = nat ?L"
            using r g(3) by (subst length_slice_of) simp_all
          then show ?thesis
            using inside bn by (simp add: block_def length_slice_of)
        qed
        then have "int (length block) = n" using bn by simp
        moreover have "ok" using False inside size by (simp add: ok_def granted_def)
        ultimately show ?thesis
          using False idx i(1) ipc s L(1) [OF ipc] parse rb size
          by (simp add: serveRequest_def sc_def via_def SendPiece_def send_def SendMessage_def)
      next
        case big: False
        then have "\<not> ok" by (simp add: ok_def granted_def)
        then show ?thesis
          using False idx i(1) ipc s L(1) [OF ipc] parse big by (simp add: serveRequest_def sc_def)
      qed
    qed
  qed
qed

section \<open>Properties\<close>

text \<open>
  C12. A connection that reports anything reports \<open>PeerJoined\<close> first, then only events of its own
  address with indices of the torrent and pieces whose hash it was told, and - when it ends and
  nothing was cancelled - \<open>PeerLeft\<close> last; whenever it ends its socket is closed.
\<close>

theorem session_lifecycle:
  assumes "evs s = []"
  shows "\<exists>mid. list_all (session_event (saddr s) (spieceCount s) xs) mid \<and>
    (evs (end_session (serveIncoming k s xs)) = whole_report (saddr s) k mid (ended (serveIncoming k s xs)) \<or>
     live s \<noteq> (\<lambda>_. True) \<and> (evs (end_session (serveIncoming k s xs)) = [] \<or>
       evs (end_session (serveIncoming k s xs)) = whole_report (saddr s) k mid False)) \<and>
    (if ended (serveIncoming k s xs) then \<not> NOpen (Net (sconn (end_session (serveIncoming k s xs)))) else True)"
  by (rule session_reports [OF assms])

fun event_addr :: "'a event \<Rightarrow> 'a" where
  "event_addr (PeerJoined a k) = a"
| "event_addr (BitfieldReceived a r) = a"
| "event_addr (HaveReceived a i) = a"
| "event_addr (PieceDownloaded a i d) = a"
| "event_addr (PieceFailed a i) = a"
| "event_addr (PeerReady a) = a"
| "event_addr (PeerLeft a) = a"
| "event_addr (InterestedReceived a) = a"
| "event_addr (NotInterestedReceived a) = a"
| "event_addr (ChokeReceived a) = a"
| "event_addr (UnchokeReceived a) = a"

lemma reported_cases:
  assumes "evs s = []" "ev \<in> set (evs (end_session (serveIncoming k s xs)))"
  obtains "session_event (saddr s) (spieceCount s) xs ev" | "ev = PeerJoined (saddr s) k" | "ev = PeerLeft (saddr s)"
proof -
  have sub: "set (whole_report (saddr s) k mid fin) \<subseteq> insert (PeerJoined (saddr s) k) (insert (PeerLeft (saddr s)) (set mid))"
    for mid fin by (auto simp: whole_report_def)
  obtain mid where "list_all (session_event (saddr s) (spieceCount s) xs) mid"
    "set (evs (end_session (serveIncoming k s xs))) \<subseteq> insert (PeerJoined (saddr s) k) (insert (PeerLeft (saddr s)) (set mid))"
    using session_reports [OF assms(1), of xs k] sub by (metis empty_set empty_subsetI)
  then show thesis using assms(2) that by (auto simp: list_all_iff)
qed

lemma reported_addr:
  assumes "evs s = []" "ev \<in> set (evs (end_session (serveIncoming k s xs)))"
  shows "event_addr ev = saddr s"
  using reported_cases [OF assms]
proof cases
  case 1
  then show ?thesis by (cases ev) simp_all
qed simp_all

text \<open>What the coordinator can rely on, whatever the peer sent.\<close>

lemma reported_event_ok:
  assumes "evs s = []" "spieceCount s = pieceCount c" "list_all (input_ok c) xs"
    "ev \<in> set (evs (end_session (serveIncoming k s xs)))"
  shows "event_in_range (pieceCount c) ev" "ev = PieceDownloaded b i d \<Longrightarrow> sha1_Sum d = pieceHashes c ! nat i"
    "ev = PieceDownloaded b i d \<Longrightarrow> Length i (pieceCount c) (pieceLength c) (totalLength c) = Inr (int (length d))"
proof -
  note cases = reported_cases [OF assms(1,4)]
  show "event_in_range (pieceCount c) ev"
    using cases by cases (simp_all add: session_event_ok(1) [OF _ assms(3,2)])
  show "sha1_Sum d = pieceHashes c ! nat i" if "ev = PieceDownloaded b i d"
    using cases by cases (use that session_event_ok(2) [OF _ assms(3,2) that] in simp_all)
  show "Length i (pieceCount c) (pieceLength c) (totalLength c) = Inr (int (length d))" if "ev = PieceDownloaded b i d"
    using cases by cases (use that session_event_ok(3) [OF _ assms(3,2) that] in simp_all)
qed

text \<open>
  Coordinator and sessions fit together. Take any connection whose assignments came through the
  coordinator's channels, and any event it reports: in every reachable state the coordinator handles
  it without a panic, and a downloaded piece it hands over has the hash the torrent gives for its
  index, whatever the peer sent.
\<close>

theorem delivered_pieces_are_authentic:
  assumes "coord_reachable c" "evs s = []" "spieceCount s = pieceCount c" "list_all (input_ok c) xs"
    "ev \<in> set (evs (end_session (serveIncoming k s xs)))"
  shows "\<exists>c'. handle now coin taken ev c = Some c' \<and>
    (case ev of PieceDownloaded b i d \<Rightarrow> sha1_Sum d = pieceHashes c ! nat i \<and> results c' \<in> {results c, results c @ [(i, d)]}
     | _ \<Rightarrow> True)"
proof -
  note ev = reported_event_ok [OF assms(2-5)]
  obtain c' where "handle now coin taken ev c = Some c'"
    using ok_handle [OF coord_reachable_ok [OF assms(1)] ev(1)] by blast
  then show ?thesis
    using ev(2) by (cases ev) (auto simp del: handle.simps dest: handle_downloaded_results)
qed

text \<open>A run with one assignment, of a piece of one byte, on a one-piece torrent.\<close>

definition byte_torrent :: "nat coordinator" where
  "byte_torrent = NewCoordinator 1 3 3 [sha1_Sum [7, 8, 9]] None None (\<lambda>_. [0x80]) 5"

lemma byte_torrent_reachable: "coord_reachable byte_torrent"
  unfolding byte_torrent_def by (rule coord_reachable.start [where held = "[]"]) simp_all

definition one_session :: "nat session" where
  "one_session = demo_session\<lparr>spieceCount := 1\<rparr>"

definition one_inputs :: "input list" where
  "one_inputs = [Cmd (AssignPiece 0 3 (sha1_Sum [7, 8, 9])), Msg 0 UnchokeMsg, Msg 1 (PieceMsg 0 0 [7, 8, 9])]"

lemma one_work:
  assumes "no_faults s" "spieceCount s = 1"
  shows "\<exists>s1 ys. Piece \<lparr>Index = 0, ExpectedHash = sha1_Sum [7, 8, 9], WLength = 3\<rparr> s
    [Msg 0 UnchokeMsg, Msg 1 (PieceMsg 0 0 [7, 8, 9])] = Finished [7, 8, 9] s1 ys"
proof -
  let ?w = "\<lparr>Index = 0, ExpectedHash = sha1_Sum [7, 8, 9], WLength = 3\<rparr>"
  have p: "ParsePiecePayload (Payload (PieceMsg 0 0 [7, 8, 9])) 1 3 = Inr \<lparr>PIndex = 0, PBegin = 0, Block = [7, 8, 9]\<rparr>"
    "ID (PieceMsg 0 0 [7, 8, 9]) = MsgPiece" "ID UnchokeMsg = MsgUnchoke" by code_simp+
  have n: "nat (nblocks ?w) = 1" "nblocks ?w = 1" by (simp_all add: nblocks_def BlockSize_def)
  show ?thesis
    by (rule honest_piece_finishes)
      (use assms p n in \<open>simp_all add: work_ok_def BlockSize_def block_of_def block_end_def msg_ids\<close>)
qed

lemma one_session_delivers: "PieceDownloaded 7 0 [7, 8, 9] \<in> set (evs (end_session (serveIncoming 0 one_session one_inputs)))"
proof -
  obtain ok s2 where d: "declare_state (peerBitfieldFor (one_session\<lparr>evs := [PeerJoined 7 0]\<rparr>)) = (ok, s2)" by fastforce
  then have s2: "ok" "no_faults s2" "spieceCount s2 = 1" "saddr s2 = 7" "same_session one_session s2"
    using declare_state_same [OF d]
    by (auto simp: one_session_def demo_session_def peerBitfieldFor_def declare_state_def via_def SendInterested_def
        send_def SendMessage_def no_faults_def same_session_def)
  obtain s3 ys where P: "Piece \<lparr>Index = 0, ExpectedHash = sha1_Sum [7, 8, 9], WLength = 3\<rparr> s2
    [Msg 0 UnchokeMsg, Msg 1 (PieceMsg 0 0 [7, 8, 9])] = Finished [7, 8, 9] s3 ys"
    using one_work [OF s2(2,3)] by blast
  have s3: "same_session s2 s3"
    using Piece_reports(1) [of s2 "[]" "\<lparr>Index = 0, ExpectedHash = sha1_Sum [7, 8, 9], WLength = 3\<rparr>"
      "[Msg 0 UnchokeMsg, Msg 1 (PieceMsg 0 0 [7, 8, 9])]"] P
    by (simp add: reports_def)
  obtain e t where v: "via (\<lambda>d w. SendHave d w 0) s3 = (e, t)" by fastforce
  have t: "same_session one_session t" using via_same [OF v] s3 s2(5) by (blast intro: same_session_trans)
  then have live: "live t = (\<lambda>_. True)" "saddr t = 7"
    by (auto simp: same_session_def one_session_def demo_session_def)
  let ?t = "t\<lparr>evs := evs t @ [PieceDownloaded 7 0 [7, 8, 9], PeerReady 7]\<rparr>"
  have loop: "session_loop s2 one_inputs = session_loop ?t ys"
    unfolding one_inputs_def by (simp add: P v s2(4) sendEvent_def live)
  have "PieceDownloaded 7 0 [7, 8, 9] \<in> set (evs (end_session (session_loop ?t ys)))"
    using session_loop_reports [of ys ys ?t] by (auto simp: reports_def)
  then have "PieceDownloaded 7 0 [7, 8, 9] \<in> set (evs (end_session (session_loop s2 one_inputs)))"
    by (simp only: loop)
  moreover have "runConnection 0 one_session one_inputs = (case session_loop s2 one_inputs of Closed s3 \<Rightarrow> Closed (leave_session s3)
        | Crashed s3 \<Rightarrow> Crashed (leave_session s3) | r \<Rightarrow> r)"
  proof -
    have "sendEvent (PeerJoined (saddr one_session) 0) (one_session\<lparr>sprogress := map_option PeerConnected (sprogress one_session)\<rparr>) =
        (True, one_session\<lparr>evs := [PeerJoined 7 0]\<rparr>)"
      by (simp add: one_session_def demo_session_def sendEvent_def)
    then show ?thesis using d s2(1) by (simp add: runConnection_def)
  qed
  ultimately show ?thesis
    by (cases "session_loop s2 one_inputs") (auto simp: serveIncoming_def leave_session_evs)
qed

theorem delivered_pieces_are_authentic_witness:
  "\<exists>c'. handle 0 (\<lambda>_. True) True (PieceDownloaded 7 0 [7, 8, 9]) byte_torrent = Some c' \<and>
    results c' \<in> {[], [(0, [7, 8, 9])]}"
proof -
  have "list_all (input_ok byte_torrent) one_inputs"
    by (simp add: one_inputs_def byte_torrent_def NewCoordinator_def command_ok_def Length_def i64_def smod_nonneg)
  moreover have "evs one_session = []" "spieceCount one_session = pieceCount byte_torrent" "results byte_torrent = []"
    by (simp_all add: one_session_def demo_session_def byte_torrent_def NewCoordinator_def)
  ultimately show ?thesis
    using delivered_pieces_are_authentic [OF byte_torrent_reachable _ _ _ one_session_delivers, of 0 "\<lambda>_. True" True] by auto
qed

theorem session_lifecycle_witness:
  "\<exists>mid. list_all (session_event 7 1 one_inputs) mid \<and>
    evs (end_session (serveIncoming 0 one_session one_inputs)) =
      whole_report 7 0 mid (ended (serveIncoming 0 one_session one_inputs))"
proof -
  have "evs one_session = []" "saddr one_session = 7" "spieceCount one_session = 1" "live one_session = (\<lambda>_. True)"
    by (simp_all add: one_session_def demo_session_def)
  then show ?thesis using session_lifecycle [of one_session one_inputs 0] by auto
qed

text \<open>
  C10. A block request that is well formed - any offset and length - is answered with exactly the
  requested bytes of the piece on disk when we do not choke the peer, hold the piece, and the block
  lies inside it and is at most 16 KiB; otherwise nothing is written. The connection is kept exactly
  when the request was granted or deliberately ignored. Only served bytes are counted.
\<close>

theorem serveRequest_exact:
  assumes "geometry_ok (pc, pl, tot)" "tot < 2 ^ 62" "int (length f) = tot" "0 \<le> i" "i < min pc (2 ^ 32)"
    "0 \<le> b" "b < 2 ^ 32" "0 \<le> n" "n < 2 ^ 32" "spieceCount s = pc" "io s (sent s) = (True, WroteAll)"
  shows "\<exists>err s1. serveRequest now (Payload (RequestMsg i b n))
      \<lparr>SPieceLength = pl, STotalLength = tot, SHave = Some have', SFile = f\<rparr> s = Some (err, s1) \<and>
    (err = None) = (AmChoking (sconn s) \<or> \<not> HasPiece have' i \<or> granted (pc, pl, tot) have' (sconn s) i b n) \<and>
    NOut (Net (sconn s1)) = NOut (Net (sconn s)) @ (if granted (pc, pl, tot) have' (sconn s) i b n
      then Serialize (PieceMsg i b (slice_of (slice_of f (piece_lo (pc, pl, tot) i) (piece_hi (pc, pl, tot) i)) b (b + n))) else []) \<and>
    sprogress s1 = (if granted (pc, pl, tot) have' (sconn s) i b n then map_option (AddUploadedBytes now n) (sprogress s) else sprogress s) \<and>
    srates s1 = (if granted (pc, pl, tot) have' (sconn s) i b n then AddUploaded now (saddr s) n (srates s) else srates s)"
  using serve_spec [OF assms] .

text \<open>The last, short piece of a six-byte torrent: one byte of it is asked for, and sent.\<close>

definition serving_session :: "nat session" where
  "serving_session = demo_session\<lparr>spieceCount := 2, sconn := (sconn demo_session)\<lparr>AmChoking := False\<rparr>\<rparr>"

theorem serveRequest_exact_witness:
  "\<exists>s1. serveRequest 0 (Payload (RequestMsg 1 1 1))
      \<lparr>SPieceLength = 4, STotalLength = 6, SHave = Some [0x40], SFile = [10, 11, 12, 13, 14, 15]\<rparr> serving_session = Some (None, s1) \<and>
    NOut (Net (sconn s1)) = NOut (Net (sconn serving_session)) @ Serialize (PieceMsg 1 1 [15])"
proof -
  have fits: "geometry_ok (2, 4, 6)" "spieceCount serving_session = 2"
    "io serving_session (sent serving_session) = (True, WroteAll)"
    by (simp_all add: geometry_ok.simps serving_session_def demo_session_def)
  have ok: "granted (2, 4, 6) [0x40] (sconn serving_session) 1 1 1"
    by code_simp
  have bytes: "slice_of (slice_of [10, 11, 12, 13, 14, 15] (piece_lo (2, 4, 6) 1) (piece_hi (2, 4, 6) 1)) 1 (1 + 1) = ([15] :: bytes)"
    by code_simp
  show ?thesis
    using serveRequest_exact [OF fits(1), of "[10, 11, 12, 13, 14, 15]" 1 1 1 serving_session 0 "[0x40]"] fits ok bytes by auto
qed

text \<open>
  C27. The reader of a connection delivers exactly the messages the other side wrote, in order, however
  they were cut into packets, up to the point where the stream stops being readable.
\<close>

theorem readLoop_delivers:
  assumes "list_all (\<lambda>m. message_ok m \<and> deliverable m) ms"
    "NIn (Net c) = concat (map Serialize ms) @ broken" "ReadMessage (NErr (Net c)) broken = (Inl e, r)"
  shows "readLoop (\<lambda>_. True) n c = ms"
  using assms
proof (induction ms arbitrary: c n)
  case Nil
  then show ?case by (subst readLoop.simps) (simp add: conn_ReadMessage_def)
next
  case (Cons m ms)
  let ?c = "c\<lparr>Net := (Net c)\<lparr>NIn := concat (map Serialize ms) @ broken\<rparr>\<rparr>"
  have "conn_ReadMessage c = (Inr m, ?c)"
    using Cons.prems ReadMessage_Serialize [of m] by (simp add: conn_ReadMessage_def)
  moreover have "readLoop (\<lambda>_. True) (Suc n) ?c = ms"
    by (rule Cons.IH) (use Cons.prems in simp_all)
  ultimately show ?case by (subst readLoop.simps) simp
qed

theorem readLoop_delivers_witness:
  "readLoop (\<lambda>_. True) 0 (newConn \<lparr>NIn = Serialize (HaveMsg 5) @ Serialize UnchokeMsg @ [0, 0], NErr = EOF, NOut = [], NOpen = True\<rparr> [] [])
    = [HaveMsg 5, UnchokeMsg]"
  by (rule readLoop_delivers [of _ _ "[0, 0]" "ReadLength EOF" "[]"])
    (simp_all add: newConn_def message_ok_def deliverable_def HaveMsg_def UnchokeMsg_def msg_ids MaxMessageLength_def
      ReadMessage_def ReadFull_def)

end
