(* ===== verification/Session_Prefix.thy ===== *)
theory Session_Prefix
  imports Session_Props "HOL-Library.Sublist"
begin

text \<open>
  A session is causal: what it has reported stays reported whatever it picks up next. Each lemma says
  of one layer - the download of a piece, the loop, the connection - how the run on a longer list of
  inputs goes on from the run on a shorter one.
\<close>

lemma reports_prefix: "reports P s s' \<Longrightarrow> prefix (evs s) (evs s')"
  by (auto simp: reports_def)

definition continues :: "'a piece_outcome \<Rightarrow> input list \<Rightarrow> 'a piece_outcome \<Rightarrow> bool" where
  "continues r ys r' =
     (case r of
        Panicked s \<Rightarrow> r' = Panicked s
      | Failed e s zs \<Rightarrow> r' = Failed e s (zs @ ys)
      | Finished b s zs \<Rightarrow> r' = Finished b s (zs @ ys)
      | Waiting d s \<Rightarrow> prefix (evs s) (evs (outcome_session r')))"

lemma downloadLoop_continues: "continues (downloadLoop w d s xs) ys (downloadLoop w d s (xs @ ys))"
proof (induction w d s xs rule: downloadLoop.induct)
  case (1 w d s)
  show ?case
  proof (cases ys)
    case Nil
    then show ?thesis by (cases "downloadLoop w d s []") (auto simp: continues_def)
  next
    case (Cons y zs)
    show ?thesis
    proof (cases "remaining d \<le> 0")
      case False
      show ?thesis
      proof (cases "fill w d s")
        case (Go d1 s1)
        let ?P = "session_event (saddr s1) (spieceCount s1) []"
        have p: "reports ?P s1 (loop_session (piece_input w y d1 s1))" by (rule piece_input_reports)
        have "prefix (evs s1) (evs (outcome_session (downloadLoop w d s (y # zs))))"
        proof (cases "piece_input w y d1 s1")
          case Go2: (Go d2 s2)
          have "prefix (evs s1) (evs s2)" using reports_prefix [OF p] Go2 by simp
          moreover have "prefix (evs s2) (evs (outcome_session (downloadLoop w d2 s2 zs)))"
            using downloadLoop_reports [of s2 "[]" w d2 zs] by (blast intro: reports_prefix)
          ultimately show ?thesis using False Go Go2 by (auto intro: prefix_order.trans)
        qed (use reports_prefix [OF p] False Go in auto)
        then show ?thesis using False Go Cons by (simp add: continues_def)
      qed (use False Cons in \<open>simp_all add: continues_def\<close>)
    qed (use Cons in \<open>simp add: continues_def\<close>)
  qed
next
  case (2 w d s x xs)
  show ?case
  proof (cases "remaining d \<le> 0")
    case False
    show ?thesis
    proof (cases "fill w d s")
      case (Go d1 s1)
      then show ?thesis
        using "2.IH" [OF False Go] False by (cases "piece_input w x d1 s1") (simp_all add: continues_def)
    qed (use False in \<open>simp_all add: continues_def\<close>)
  qed (simp add: continues_def)
qed

lemma Piece_continues: "continues (Piece w s xs) ys (Piece w s (xs @ ys))"
proof -
  have b: "continues (downloadBlocks w s xs) ys (downloadBlocks w s (xs @ ys))"
    using downloadLoop_continues
    by (auto simp: downloadBlocks_def continues_def split: sum.split geometry_error.split)
  show ?thesis
  proof (cases "downloadBlocks w s xs")
    case (Waiting d s1)
    then have "prefix (evs s1) (evs (outcome_session (downloadBlocks w s (xs @ ys))))" using b by (simp add: continues_def)
    then show ?thesis
      using Waiting by (auto simp: Piece_def continues_def split: piece_outcome.split sum.split)
  qed (use b in \<open>auto simp: Piece_def continues_def split: sum.split\<close>)
qed

text \<open>The loop: an idle session goes on from where it is, an ended one stays as it is.\<close>

definition goes_on :: "'a session_end \<Rightarrow> input list \<Rightarrow> 'a session_end \<Rightarrow> bool" where
  "goes_on r ys r' =
     (case r of
        Closed s \<Rightarrow> r' = Closed s
      | Crashed s \<Rightarrow> r' = Crashed s
      | Open s \<Rightarrow> r' = session_loop s ys
      | Busy w d s \<Rightarrow> prefix (evs s) (evs (end_session r')))"

lemma outcome_prefix:
  "prefix (evs (outcome_session (Piece \<lparr>Index = i, ExpectedHash = h, WLength = len\<rparr> s xs)))
     (evs (end_session (session_loop s (Cmd (AssignPiece i len h) # xs))))"
proof -
  let ?w = "\<lparr>Index = i, ExpectedHash = h, WLength = len\<rparr>"
  have l: "prefix (evs s2) (evs (end_session (session_loop s2 ys)))" for s2 :: "'a session" and ys
    using session_loop_reports [where s = s2, OF order.refl, of ys] by (rule reports_prefix)
  have e: "prefix (evs s1) (evs s2)" if "sendEvent ev s1 = (ok, s2)" for s1 s2 :: "'a session" and ev ok
    using that by (auto simp: sendEvent_def split: if_splits)
  have v: "evs (snd (via f s1)) = evs s1" for f and s1 :: "'a session"
    using via_same [of f s1 "fst (via f s1)" "snd (via f s1)"] by simp
  show ?thesis
  proof (cases "Piece ?w s xs")
    case (Failed er s1 ys)
    obtain ok s2 where s2: "sendEvent (PeerReady (saddr s)) s1 = (ok, s2)" by fastforce
    obtain ok' s3 where s3: "sendEvent (PieceFailed (saddr s) i) s1 = (ok', s3)" by fastforce
    show ?thesis
      using Failed s2 s3 e [OF s2] e [OF s3] prefix_order.trans [OF e [OF s2] l] by auto
  next
    case (Finished data s1 ys)
    obtain ok s2 where s2: "sendEvent (PieceDownloaded (saddr s) i data) (snd (via (\<lambda>d w. SendHave d w i) s1)) = (ok, s2)"
      by fastforce
    obtain ok' s3 where s3: "sendEvent (PeerReady (saddr s)) s2 = (ok', s3)" by fastforce
    have 12: "prefix (evs s1) (evs s2)" using e [OF s2] by (simp add: v)
    show ?thesis
      using Finished s2 s3 12 prefix_order.trans [OF 12 e [OF s3]] prefix_order.trans [OF prefix_order.trans [OF 12 e [OF s3]] l]
      by auto
  qed auto
qed

lemma session_loop_goes_on: "goes_on (session_loop s xs) ys (session_loop s (xs @ ys))"
proof (induction s xs rule: session_loop.induct)
  case (7 s i len h xs)
  let ?w = "\<lparr>Index = i, ExpectedHash = h, WLength = len\<rparr>"
  note c = Piece_continues [of ?w s xs ys]
  show ?case
  proof (cases "Piece ?w s xs")
    case (Waiting d s1)
    then have "prefix (evs s1) (evs (outcome_session (Piece ?w s (xs @ ys))))" using c by (simp add: continues_def)
    from prefix_order.trans [OF this outcome_prefix] show ?thesis using Waiting by (simp add: goes_on_def)
  next
    case (Failed e s1 zs)
    then have "Piece ?w s (xs @ ys) = Failed e s1 (zs @ ys)" using c by (simp add: continues_def)
    then show ?thesis
      using Failed "7.IH"(1) [OF Failed] by (auto simp: goes_on_def split: prod.split)
  next
    case (Finished b s1 zs)
    then have "Piece ?w s (xs @ ys) = Finished b s1 (zs @ ys)" using c by (simp add: continues_def)
    then show ?thesis
      using Finished "7.IH"(2) [OF Finished] by (auto simp: goes_on_def split: prod.split)
  qed (use c in \<open>simp add: continues_def goes_on_def\<close>)
qed (auto simp: goes_on_def split: option.split prod.split simp del: applyCommand.simps)

text \<open>The whole connection.\<close>

lemma reported_grows:
  "prefix (evs (end_session (serveIncoming k s xs))) (evs (end_session (serveIncoming k s (xs @ ys))))"
proof -
  obtain ok s1 where j: "sendEvent (PeerJoined (saddr s) k) (s\<lparr>sprogress := map_option PeerConnected (sprogress s)\<rparr>) = (ok, s1)"
    by fastforce
  obtain ok' s2 where d: "declare_state (peerBitfieldFor s1) = (ok', s2)" by fastforce
  show ?thesis
  proof (cases "ok \<and> ok'")
    case True
    have g: "goes_on (session_loop s2 xs) ys (session_loop s2 (xs @ ys))" by (rule session_loop_goes_on)
    have run: "serveIncoming k s zs = (case session_loop s2 zs of Closed s3 \<Rightarrow> Closed (leave_session s3)
        | Crashed s3 \<Rightarrow> Closed ((leave_session s3)\<lparr>sprogress := map_option PanicRecovered (sprogress (leave_session s3))\<rparr>)
        | r \<Rightarrow> r)" for zs
      using True j d by (simp add: serveIncoming_def runConnection_def split: session_end.split)
    have out: "prefix (evs (end_session (session_loop s2 zs))) (evs (end_session (serveIncoming k s zs)))" for zs
      unfolding run by (cases "session_loop s2 zs") (simp_all add: leave_session_evs(1))
    show ?thesis
    proof (cases "session_loop s2 xs")
      case (Open s3)
      have "prefix (evs s3) (evs (end_session (session_loop s3 ys)))"
        using session_loop_reports [where s = s3, OF order.refl, of ys] by (rule reports_prefix)
      then have "prefix (evs s3) (evs (end_session (session_loop s2 (xs @ ys))))" using g Open by (simp add: goes_on_def)
      then show ?thesis using prefix_order.trans [OF _ out] Open by (simp add: run [of xs])
    next
      case (Busy w d' s3)
      then have "prefix (evs s3) (evs (end_session (session_loop s2 (xs @ ys))))" using g by (simp add: goes_on_def)
      then show ?thesis using prefix_order.trans [OF _ out] Busy by (simp add: run [of xs])
    qed (use g in \<open>simp_all add: run goes_on_def\<close>)
  qed (use j d in \<open>auto simp: serveIncoming_def runConnection_def\<close>)
qed

end
