(* ===== verification/Bencode_Spans.thy ===== *)
theory Bencode_Spans
  imports Bencode_Encode
begin

text \<open>
  \<open>DecodeWithSpans\<close>: the top-level dictionary together with the byte range of every value.
  The ranges are what \<open>metainfo\<close> hashes, so the theory shows that each range, decoded on its
  own, is the value stored under its key.
\<close>

section \<open>Decoding with spans\<close>

lemma decodeValue_shrinks: "decodeValue d = (Inr v, d') \<Longrightarrow> length (rest d') < length (rest d)"
  using decode_sound(1) [of d v d'] bgrammar_nonempty by fastforce

text \<open>A byte range \<open>[Start, End)\<close> within the decoder's input.\<close>

record span =
  Start :: int
  End :: int

type_synonym spans = "(bytes \<times> span) list"

function spansLoop :: "dictionary \<Rightarrow> spans \<Rightarrow> bytes \<Rightarrow> bool \<Rightarrow> decoder \<Rightarrow>
    (bencode_error, dictionary \<times> spans) result \<times> decoder" where
  "spansLoop dict spans prevKey first d =
     (case peek d of
        None \<Rightarrow> (Inl ErrUnexpectedEOF, d)
      | Some b \<Rightarrow>
        if b = 101 then (Inr (dict, spans), consume 1 d)
        else (case decodeValue d of
                (Inl e, d1) \<Rightarrow> (Inl e, d1)
              | (Inr keyVal, d1) \<Rightarrow>
                (case AsByteString keyVal of
                   Inl _ \<Rightarrow> (Inl ErrNonStringKey, d1)
                 | Inr key \<Rightarrow>
                   if \<not> first \<and> key \<le> prevKey then (Inl ErrUnsortedKeys, d1)
                   else (case decodeValue d1 of
                           (Inl e, d2) \<Rightarrow> (Inl e, d2)
                         | (Inr v, d2) \<Rightarrow>
                           spansLoop (AList.update key v dict)
                             (AList.update key \<lparr>Start = pos d1, End = pos d2\<rparr> spans) key False d2))))"
  by pat_completeness auto
termination
  by (relation "measure (\<lambda>(_, _, _, _, d). length (rest d))")
    (auto dest!: decodeValue_shrinks [OF sym])

declare spansLoop.simps [simp del]

definition decodeDictionaryWithSpans ::
    "decoder \<Rightarrow> (bencode_error, dictionary \<times> spans) result \<times> decoder" where
  "decodeDictionaryWithSpans d =
     (case readByte d of (None, d1) \<Rightarrow> (Inl ErrUnexpectedEOF, d1)
      | (Some _, d1) \<Rightarrow>
        let d2 = enter d1
        in if depth d2 > MaxNestingDepth then (Inl ErrLimitExceeded, leave d2)
           else (case spansLoop [] [] [] True d2 of (r, d3) \<Rightarrow> (r, leave d3)))"

definition DecodeWithSpans :: "decoder \<Rightarrow> (bencode_error, dictionary \<times> spans) result \<times> decoder" where
  "DecodeWithSpans d =
     (case peek d of
        None \<Rightarrow> (Inl ErrUnexpectedEOF, d)
      | Some b \<Rightarrow> if b \<noteq> 100 then (Inl ErrInvalidTypeMarker, d) else decodeDictionaryWithSpans d)"

section \<open>The spans do not change what is decoded\<close>

lemma spansLoop_dictLoop:
  "dictLoop dict prev first d = map_prod (map_sum (\<lambda>e. e) fst) (\<lambda>d. d) (spansLoop dict sp prev first d)"
proof (induction dict sp prev first d rule: spansLoop.induct)
  case (1 dict sp prev first d)
  then show ?case
    by (subst dictLoop.simps, subst spansLoop.simps)
      (auto split: option.splits if_splits prod.splits sum.splits)
qed

lemma DecodeWithSpans_decodeValue:
  "DecodeWithSpans d = (Inr (dict, sp), d') \<Longrightarrow> decodeValue d = (Inr (Dictionary dict), d')"
  using spansLoop_dictLoop [of "[]" "[]" True _ "[]"]
  by (auto simp: DecodeWithSpans_def decodeDictionaryWithSpans_def decodeValue.simps [of d]
      decodeDictionary.simps [of d] Let_def split: option.splits if_splits prod.splits)

section \<open>Each span is exactly its value\<close>

definition span_good :: "bytes \<Rightarrow> bvalue \<Rightarrow> span \<Rightarrow> bool" where
  "span_good data v s \<longleftrightarrow> 0 \<le> Start s \<and> Start s < End s \<and> End s \<le> int (length data) \<and>
     bgrammar 1 (slice_of data (Start s) (End s)) v"

definition spans_ok :: "bytes \<Rightarrow> dictionary \<Rightarrow> spans \<Rightarrow> bool" where
  "spans_ok data dict sp \<longleftrightarrow>
     (\<forall>k. rel_option (span_good data) (map_of dict k) (map_of sp k))"

text \<open>A decoder positioned inside \<open>data\<close>.\<close>

definition at :: "bytes \<Rightarrow> decoder \<Rightarrow> bool" where
  "at data d \<longleftrightarrow> 0 \<le> pos d \<and> nat (pos d) \<le> length data \<and> rest d = drop (nat (pos d)) data"

lemma at_consume: "at data d \<Longrightarrow> n \<le> length (rest d) \<Longrightarrow> at data (consume n d)"
  by (auto simp: at_def nat_add_distrib add.commute)

lemma at_decodeValue:
  assumes "at data d" "decodeValue d = (Inr v, d')"
  shows "at data d'" "depth d' = depth d" "pos d < pos d'"
    "bgrammar (depth d) (slice_of data (pos d) (pos d')) v"
proof -
  obtain u r where u: "rest d = u @ r" "d' = consume (length u) d" "bgrammar (depth d) u v"
    using decode_sound(1) [OF assms(2)] by blast
  show "at data d'" using u assms(1) by (auto intro: at_consume)
  show "depth d' = depth d" "pos d < pos d'"
    using u bgrammar_nonempty [OF u(3)] by auto
  have "take (length u) (drop (nat (pos d)) data) = u"
    using u(1) assms(1) by (metis append_eq_conv_conj at_def)
  then have "slice_of data (pos d) (pos d') = u"
    using u(2) by (simp add: slice_of_def)
  then show "bgrammar (depth d) (slice_of data (pos d) (pos d')) v" using u(3) by simp
qed

lemma spansLoop_spans_ok:
  "spansLoop dict sp prev first d = (Inr (dict', sp'), d') \<Longrightarrow> at data d \<Longrightarrow> depth d = 1 \<Longrightarrow>
    spans_ok data dict sp \<Longrightarrow> spans_ok data dict' sp'"
proof (induction dict sp prev first d arbitrary: dict' sp' d' rule: spansLoop.induct)
  case (1 dict sp prev first d)
  from "1.prems"(1) consider (stop) "dict' = dict" "sp' = sp"
    | (more) b kv d1 key v d2 where "peek d = Some b" "b \<noteq> 101" "decodeValue d = (Inr kv, d1)"
      "AsByteString kv = Inr key" "\<not> (\<not> first \<and> key \<le> prev)" "decodeValue d1 = (Inr v, d2)"
      "spansLoop (AList.update key v dict) (AList.update key \<lparr>Start = pos d1, End = pos d2\<rparr> sp)
         key False d2 = (Inr (dict', sp'), d')"
    by (subst (asm) spansLoop.simps) (auto split: option.splits if_splits prod.splits sum.splits)
  then show ?case
  proof cases
    case stop
    then show ?thesis using "1.prems" by simp
  next
    case more
    note d1 = at_decodeValue [OF "1.prems"(2) more(3)]
    note d2 = at_decodeValue [OF d1(1) more(6)]
    have "span_good data v \<lparr>Start = pos d1, End = pos d2\<rparr>"
      using d1 d2 "1.prems"(3) by (auto simp: span_good_def at_def)
    then have "spans_ok data (AList.update key v dict)
        (AList.update key \<lparr>Start = pos d1, End = pos d2\<rparr> sp)"
      using "1.prems"(4) by (auto simp: spans_ok_def update_conv)
    then show ?thesis
      using "1.IH" [OF more(1,2) more(3) [symmetric] refl more(4,5) more(6) [symmetric] refl more(7)]
        d1 d2 "1.prems"(3) by simp
  qed
qed

lemma DecodeWithSpans_spans_ok:
  assumes "DecodeWithSpans (NewDecoder data) = (Inr (dict, sp), d')"
  shows "spans_ok data dict sp"
proof -
  let ?d = "enter (consume 1 (NewDecoder data))"
  obtain d3 where loop: "spansLoop [] [] [] True ?d = (Inr (dict, sp), d3)" and ne: "data \<noteq> []"
    using assms by (auto simp: DecodeWithSpans_def decodeDictionaryWithSpans_def Let_def peek_Some
        readByte_def split: option.splits if_splits prod.splits list.splits) (simp add: NewDecoder_def)
  show ?thesis
    by (rule spansLoop_spans_ok [OF loop])
      (use ne in \<open>auto simp: at_def NewDecoder_def spans_ok_def consume_def enter_def Suc_le_eq\<close>)
qed


section \<open>Properties\<close>

lemma bgrammar_shallower:
  "bgrammar k u v \<Longrightarrow> j \<le> k \<Longrightarrow> bgrammar j u v"
  "bitems k u vs \<Longrightarrow> j \<le> k \<Longrightarrow> bitems j u vs"
  "bpairs k u ps \<Longrightarrow> j \<le> k \<Longrightarrow> bpairs j u ps"
  by (induction arbitrary: j and j and j rule: bgrammar_induct) (auto intro!: bgrammar_intros)

lemma DecodeStrict_grammar: "DecodeStrict s = Inr v \<longleftrightarrow> bgrammar 0 s v"
proof
  assume "DecodeStrict s = Inr v"
  then obtain d where d: "decodeValue (NewDecoder s) = (Inr v, d)" "rest d = []"
    by (auto simp: DecodeStrict_def peek_def split: prod.splits sum.splits if_splits list.splits)
  with decode_sound(1) [OF d(1)] show "bgrammar 0 s v" by (auto simp: NewDecoder_def)
next
  assume "bgrammar 0 s v"
  then have "decodeValue (NewDecoder s) = (Inr v, consume (length s) (NewDecoder s))"
    by (rule decode_complete(1) [where r = "[]"]) (simp_all add: NewDecoder_def)
  then show "DecodeStrict s = Inr v" by (simp add: DecodeStrict_def peek_def NewDecoder_def)
qed


text \<open>
  Decoding the canonical encoding of a value gives the value back, for every value a Go
  program can build within the decoder's limits (\<open>int64\<close> integers, strings up to 32 MiB,
  at most 100 nested containers).
\<close>

theorem DecodeStrict_bencode:
  "wf_value v \<Longrightarrow> vdepth v \<le> MaxNestingDepth \<Longrightarrow> DecodeStrict (bencode v) = Inr v"
  using bencode_grammar(1) [of v 0] by (simp add: DecodeStrict_grammar)

theorem DecodeStrict_bencode_witness:
  "DecodeStrict (bencode (Dictionary [(bs ''a'', Integer (- 7)), (bs ''ab'', BList [ByteString (bs ''x'')])]))
   = Inr (Dictionary [(bs ''a'', Integer (- 7)), (bs ''ab'', BList [ByteString (bs ''x'')])])"
  by (rule DecodeStrict_bencode) (simp_all add: MaxStringLength_def MaxNestingDepth_def)

text \<open>
  Whatever the input, an accepted value is within the limits (so later code never sees an
  integer outside \<open>int64\<close>, a dictionary with unsorted or repeated keys, or a value nested more
  than 100 deep), and encoding it again gives bytes that decode to the same value.
\<close>

theorem DecodeStrict_wf:
  "DecodeStrict s = Inr v \<Longrightarrow>
    wf_value v \<and> vdepth v \<le> MaxNestingDepth \<and> DecodeStrict (bencode v) = Inr v"
  using grammar_wf(1) [of 0 s v] bencode_grammar(1) [of v 0]
  by (simp add: DecodeStrict_grammar MaxNestingDepth_def)

theorem DecodeStrict_wf_witness:
  "DecodeStrict (bs ''li42ee'') = Inr (BList [Integer 42]) \<and> wf_value (BList [Integer 42])"
proof -
  have "DecodeStrict (bs ''li42ee'') = Inr (BList [Integer 42])" by code_simp
  from DecodeStrict_wf [OF this] this show ?thesis by simp
qed

text \<open>
  C33. The spans of \<open>DecodeWithSpans\<close> are exact: for every key of the returned dictionary there is
  a span inside the input whose bytes, decoded on their own as one strict value, are precisely
  the value stored under that key; and the dictionary is the one plain decoding returns.
\<close>

theorem DecodeWithSpans_exact:
  assumes "DecodeWithSpans (NewDecoder data) = (Inr (dict, sp), d')" and "map_of dict k = Some v"
  shows "(\<exists>s. map_of sp k = Some s \<and> 0 \<le> Start s \<and> Start s < End s \<and> End s \<le> int (length data) \<and>
    DecodeStrict (slice_of data (Start s) (End s)) = Inr v) \<and>
    decodeValue (NewDecoder data) = (Inr (Dictionary dict), d')"
proof (rule conjI)
  have "rel_option (span_good data) (Some v) (map_of sp k)"
    using DecodeWithSpans_spans_ok [OF assms(1)] assms(2) by (metis spans_ok_def)
  then show "\<exists>s. map_of sp k = Some s \<and> 0 \<le> Start s \<and> Start s < End s \<and> End s \<le> int (length data) \<and>
      DecodeStrict (slice_of data (Start s) (End s)) = Inr v"
    by (auto simp: option_rel_Some1 span_good_def DecodeStrict_grammar dest: bgrammar_shallower(1) [where j = 0])
  show "decodeValue (NewDecoder data) = (Inr (Dictionary dict), d')"
    by (rule DecodeWithSpans_decodeValue [OF assms(1)])
qed

theorem DecodeWithSpans_exact_witness:
  "DecodeStrict (slice_of (bs ''d1:ai1e1:bi2ee'') 10 13) = Inr (Integer 2)"
proof -
  have "DecodeWithSpans (NewDecoder (bs ''d1:ai1e1:bi2ee'')) =
      (Inr ([(bs ''a'', Integer 1), (bs ''b'', Integer 2)],
         [(bs ''a'', \<lparr>Start = 4, End = 7\<rparr>), (bs ''b'', \<lparr>Start = 10, End = 13\<rparr>)]),
       \<lparr>rest = [], depth = 0, pos = 14\<rparr>)" by code_simp
  from DecodeWithSpans_exact [OF this, of "bs ''b''"] show ?thesis by simp
qed

text \<open>
  A value can be cut out of a stream: a successful decode consumed a non-empty prefix of the
  input, counted it in \<open>pos\<close>, restored the nesting depth, and would have returned the same
  value and consumed the same bytes whatever came after them and at any smaller depth.
\<close>

theorem decodeValue_framing:
  assumes "decodeValue d = (Inr v, d')"
  shows "\<exists>u. u \<noteq> [] \<and> rest d = u @ rest d' \<and> pos d' = pos d + int (length u) \<and> depth d' = depth d \<and>
    (\<forall>d2 r. rest d2 = u @ r \<and> depth d2 \<le> depth d \<longrightarrow>
       decodeValue d2 = (Inr v, d2\<lparr>rest := r, pos := pos d2 + int (length u)\<rparr>))"
proof -
  obtain u r where u: "rest d = u @ r" "d' = consume (length u) d" "bgrammar (depth d) u v"
    using decode_sound(1) [OF assms] by blast
  have "decodeValue d2 = (Inr v, d2\<lparr>rest := r', pos := pos d2 + int (length u)\<rparr>)"
    if "rest d2 = u @ r'" "depth d2 \<le> depth d" for d2 r'
    using decode_complete(1) [OF u(3) that] that(1) by (simp add: consume_def)
  with u show ?thesis by (intro exI [of _ u]) (auto dest: bgrammar_nonempty)
qed

theorem decodeValue_framing_witness:
  "decodeValue \<lparr>rest = bs ''i5eXYZ'', depth = 0, pos = 7\<rparr> = (Inr (Integer 5), \<lparr>rest = bs ''XYZ'', depth = 0, pos = 10\<rparr>) \<and>
   (\<exists>u. u \<noteq> [] \<and> bs ''i5eXYZ'' = u @ bs ''XYZ'')"
proof -
  have d: "decodeValue \<lparr>rest = bs ''i5eXYZ'', depth = 0, pos = 7\<rparr>
      = (Inr (Integer 5), \<lparr>rest = bs ''XYZ'', depth = 0, pos = 10\<rparr>)" by code_simp
  from decodeValue_framing [OF d] d show ?thesis by auto
qed

lemma decodeValue_nested:
  "rest d = replicate n 108 @ xs \<Longrightarrow> 0 \<le> depth d \<Longrightarrow> depth d \<le> MaxNestingDepth \<Longrightarrow>
    MaxNestingDepth < depth d + int n \<Longrightarrow> fst (decodeValue d) = Inl ErrLimitExceeded"
proof (induction n arbitrary: d)
  case (Suc n)
  have pk: "peek d = Some 108" "readByte d = (Some 108, consume 1 d)"
    using Suc.prems(1) by (simp_all add: peek_def readByte_def)
  show ?case
  proof (cases "depth d = MaxNestingDepth")
    case True
    then show ?thesis using pk by (simp add: decodeValue.simps [of d] decodeList.simps)
  next
    case False
    let ?d = "enter (consume 1 d)"
    have r: "rest ?d = replicate n 108 @ xs" using Suc.prems(1) by simp
    have dp: "depth ?d \<le> MaxNestingDepth" using False Suc.prems by simp
    have ih: "fst (decodeValue ?d) = Inl ErrLimitExceeded"
      by (rule Suc.IH) (use r dp Suc.prems in auto)
    have "n \<noteq> 0" using dp Suc.prems by auto
    then have "peek ?d = Some 108" using r by (cases n) (simp_all add: peek_def)
    then have "fst (listLoop [] ?d) = Inl ErrLimitExceeded"
      using ih by (subst listLoop.simps) (auto split: prod.splits sum.splits)
    then show ?thesis
      using pk dp
      by (cases "listLoop [] ?d") (simp add: decodeValue.simps [of d] decodeList.simps)
  qed
qed simp

text \<open>
  Hostile nesting is cut off: an input that opens more than 100 lists is rejected with
  \<open>ErrLimitExceeded\<close> whatever follows, so the recursion depth of the decoder is bounded.
\<close>

theorem DecodeStrict_nesting_bound:
  "100 < n \<Longrightarrow> DecodeStrict (replicate n (of_char CHR ''l'') @ xs) = Inl ErrLimitExceeded"
  using decodeValue_nested [of "NewDecoder (replicate n 108 @ xs)" n xs]
  by (auto simp: DecodeStrict_def NewDecoder_def MaxNestingDepth_def split: prod.splits)

theorem DecodeStrict_nesting_bound_witness:
  "DecodeStrict (replicate 101 (of_char CHR ''l'') @ replicate 101 (of_char CHR ''e'')) = Inl ErrLimitExceeded"
  by (rule DecodeStrict_nesting_bound) simp

text \<open>
  C34. Encoding into a \<open>bytes.Buffer\<close> never fails and appends exactly the canonical encoding:
  the refinement of the write-by-write encoder to the function \<open>bencode\<close>.
\<close>

theorem Encode_canonical: "Encode buffer_write b v = (None, b @ bencode v)"
  using buffer.Encode_content [of b v] by (simp add: prod_eq_iff)

text \<open>
  The list encoder loses a write error: on a writer that fails on its first write, encoding a
  list reports success although nothing was written, while the same writer makes every other kind
  of value report the error.
\<close>

theorem encodeList_swallows_write_error:
  "Encode (\<lambda>w xs. (Some e, w)) w (BList l) = (None, w) \<and>
   Encode (\<lambda>w xs. (Some e, w)) w (ByteString s) = (Some e, w) \<and>
   Encode (\<lambda>w xs. (Some e, w)) w (Integer n) = (Some e, w) \<and>
   Encode (\<lambda>w xs. (Some e, w)) w (Dictionary d) = (Some e, w)"
  by (simp add: encodeByteString_def encodeInteger_def)

text \<open>
  The decoder accepts byte-string lengths with leading zeros, so a decoded input need not be
  the canonical encoding of its value.
\<close>

lemma noncanonical_length_accepted:
  "DecodeStrict (bs ''02:ab'') = Inr (ByteString (bs ''ab'')) \<and>
   bencode (ByteString (bs ''ab'')) = bs ''2:ab''"
  by code_simp

end
