(* ===== verification/Metainfo.thy ===== *)
theory Metainfo
  imports Bencode_Spans Piece_Geometry
begin

text \<open>
  Package \<open>metainfo\<close>: from the bytes of a \<open>.torrent\<close> file to the \<open>Torrent\<close> the rest of the client
  uses (\<open>torrent.go\<close>, \<open>parse.go\<close>, \<open>infohash.go\<close>). The mutable \<open>t\<close> the parser fills in is passed
  along explicitly; each error return of the source is a constructor of \<open>meta_error\<close>.
\<close>

section \<open>The torrent\<close>

record file_entry =
  Path :: bytes
  FLength :: int

record torrent =
  Announce :: bytes
  AnnounceList :: "bytes list list"
  InfoHash :: bytes
  Name :: bytes
  PieceLength :: int
  TotalLength :: int
  PiecesHashes :: "bytes list"
  Files :: "file_entry list"

definition empty_torrent :: torrent where
  "empty_torrent = \<lparr>Announce = [], AnnounceList = [], InfoHash = replicate 20 0, Name = [],
     PieceLength = 0, TotalLength = 0, PiecesHashes = [], Files = []\<rparr>"

definition PieceCount :: "torrent \<Rightarrow> int" where
  "PieceCount t = int (length (PiecesHashes t))"

text \<open>The remainder by a zero piece length is a run-time panic: \<open>None\<close>.\<close>

definition LastPieceLength :: "torrent \<Rightarrow> int option" where
  "LastPieceLength t =
     (if PieceLength t = 0 then None
      else let remainder = TotalLength t smod PieceLength t in
           Some (if remainder = 0 then PieceLength t else remainder))"

section \<open>Parsing\<close>

datatype meta_error =
    ReadFileError
  | DecodeError bencode_error
  | TrailingData
  | MissingAnnounce bencode_error
  | AnnounceListError bencode_error
  | MissingInfo bencode_error
  | InfoNotDictionary bencode_error
  | ComputeInfoHashError
  | MissingName bencode_error
  | MissingPieceLength bencode_error
  | MissingPieces bencode_error
  | PiecesNotByteString bencode_error
  | PiecesBlobLength int
  | MissingLength bencode_error
  | NoInfoSpan
  | InfoHashMismatch
  | BadPieceLength int
  | BadTotalLength int
  | PieceCountMismatch int int
  | NameEmpty
  | NameSeparator
  | NameDot
  | NameAbsolute

type_synonym 'a meta = "(meta_error, 'a) result"

definition computeInfoHash :: "dictionary \<Rightarrow> bytes meta" where
  "computeInfoHash info =
     (case Encode buffer_write [] (Dictionary info) of
        (Some _, buf) \<Rightarrow> Inl ComputeInfoHashError
      | (None, buf) \<Rightarrow> Inr (sha1_Sum buf))"

fun announce_urls :: "bytes list \<Rightarrow> bvalue list \<Rightarrow> (bencode_error, bytes list) result" where
  "announce_urls tier [] = Inr tier"
| "announce_urls tier (urlVal # urls) =
     (case AsByteString urlVal of Inl e \<Rightarrow> Inl e | Inr url \<Rightarrow> announce_urls (tier @ [url]) urls)"

fun announce_tiers :: "bvalue list \<Rightarrow> torrent \<Rightarrow> torrent meta" where
  "announce_tiers [] t = Inr t"
| "announce_tiers (tierVal # tiers) t =
     (case AsList tierVal of
        Inl e \<Rightarrow> Inl (AnnounceListError e)
      | Inr tierList \<Rightarrow>
          (case announce_urls [] tierList of
             Inl e \<Rightarrow> Inl (AnnounceListError e)
           | Inr tier \<Rightarrow> announce_tiers tiers (t\<lparr>AnnounceList := AnnounceList t @ [tier]\<rparr>)))"

definition parseAnnounceList :: "dictionary \<Rightarrow> torrent \<Rightarrow> torrent meta" where
  "parseAnnounceList root t =
     (case Get root (bs ''announce-list'') of
        Inl _ \<Rightarrow> Inr t
      | Inr al \<Rightarrow>
          (case AsList al of
             Inl e \<Rightarrow> Inl (AnnounceListError e)
           | Inr tiers \<Rightarrow> announce_tiers tiers t))"

definition parsePieces :: "dictionary \<Rightarrow> torrent \<Rightarrow> torrent meta" where
  "parsePieces info t =
     (case Get info (bs ''pieces'') of
        Inl e \<Rightarrow> Inl (MissingPieces e)
      | Inr piecesVal \<Rightarrow>
          (case AsByteString piecesVal of
             Inl e \<Rightarrow> Inl (PiecesNotByteString e)
           | Inr pieces \<Rightarrow>
               if length pieces mod 20 \<noteq> 0 then Inl (PiecesBlobLength (int (length pieces)))
               else Inr (t\<lparr>PiecesHashes := PiecesHashes t @ chunks 20 pieces\<rparr>)))"

definition parseInfo :: "dictionary \<Rightarrow> torrent \<Rightarrow> torrent meta" where
  "parseInfo info t =
     (case computeInfoHash info of
        Inl e \<Rightarrow> Inl e
      | Inr hash \<Rightarrow>
     (let t1 = t\<lparr>InfoHash := hash\<rparr> in
      case GetString info (bs ''name'') of
        Inl e \<Rightarrow> Inl (MissingName e)
      | Inr name \<Rightarrow>
     (let t2 = t1\<lparr>Name := name\<rparr> in
      case GetInt info (bs ''piece length'') of
        Inl e \<Rightarrow> Inl (MissingPieceLength e)
      | Inr pieceLength \<Rightarrow>
     (let t3 = t2\<lparr>PieceLength := pieceLength\<rparr> in
      case parsePieces info t3 of
        Inl e \<Rightarrow> Inl e
      | Inr t4 \<Rightarrow>
     (case GetInt info (bs ''length'') of
        Inl e \<Rightarrow> Inl (MissingLength e)
      | Inr len \<Rightarrow>
          let t5 = t4\<lparr>TotalLength := len\<rparr> in
          Inr (t5\<lparr>Files := [\<lparr>Path = Name t5, FLength = TotalLength t5\<rparr>]\<rparr>))))))"

text \<open>
  \<open>strings.ContainsAny(name, "/\\")\<close> and \<open>strings.HasPrefix(name, ".")\<close> on bytes (both sets are
  ASCII, which no other character of a UTF-8 string contains); \<open>filepath.IsAbs\<close> as on Unix.
\<close>

definition validateName :: "bytes \<Rightarrow> meta_error option" where
  "validateName name =
     (if name = [] then Some NameEmpty
      else if 47 \<in> set name \<or> 92 \<in> set name then Some NameSeparator
      else if hd name = 46 then Some NameDot
      else if hd name = 47 then Some NameAbsolute
      else None)"

text \<open>
  The expected piece count is computed in \<open>int64\<close>: the sum wraps and the division truncates.
\<close>

definition expected_pieces :: "int \<Rightarrow> int \<Rightarrow> int" where
  "expected_pieces totalLength pieceLength =
     i64 (i64 (totalLength + pieceLength) - 1) sdiv pieceLength"

definition validate :: "torrent \<Rightarrow> meta_error option" where
  "validate t =
     (if PieceLength t \<le> 0 then Some (BadPieceLength (PieceLength t))
      else if TotalLength t \<le> 0 then Some (BadTotalLength (TotalLength t))
      else let expected = expected_pieces (TotalLength t) (PieceLength t) in
           if PieceCount t \<noteq> expected then Some (PieceCountMismatch (PieceCount t) expected)
           else validateName (Name t))"

definition crossCheckInfoHash :: "bytes \<Rightarrow> span \<Rightarrow> bytes \<Rightarrow> meta_error option" where
  "crossCheckInfoHash data sp methodA =
     (let methodB = sha1_Sum (slice_of data (Start sp) (End sp)) in
      if methodB \<noteq> methodA then Some InfoHashMismatch else None)"

definition Parse :: "bytes \<Rightarrow> torrent meta" where
  "Parse data =
     (case DecodeWithSpans (NewDecoder data) of
        (Inl e, d) \<Rightarrow> Inl (DecodeError e)
      | (Inr (root, spans), d) \<Rightarrow>
      if \<not> AtEnd d then Inl TrailingData
      else (case GetString root (bs ''announce'') of
        Inl e \<Rightarrow> Inl (MissingAnnounce e)
      | Inr announce \<Rightarrow>
      (case parseAnnounceList root (empty_torrent\<lparr>Announce := announce\<rparr>) of
        Inl e \<Rightarrow> Inl e
      | Inr t1 \<Rightarrow>
      (case Get root (bs ''info'') of
        Inl e \<Rightarrow> Inl (MissingInfo e)
      | Inr infoVal \<Rightarrow>
      (case AsDictionary infoVal of
        Inl e \<Rightarrow> Inl (InfoNotDictionary e)
      | Inr info \<Rightarrow>
      (case parseInfo info t1 of
        Inl e \<Rightarrow> Inl e
      | Inr t2 \<Rightarrow>
      (case map_of spans (bs ''info'') of
        None \<Rightarrow> Inl NoInfoSpan
      | Some infoSpan \<Rightarrow>
      (case crossCheckInfoHash data infoSpan (InfoHash t2) of
        Some e \<Rightarrow> Inl e
      | None \<Rightarrow>
      (case validate t2 of
        Some e \<Rightarrow> Inl e
      | None \<Rightarrow> Inr t2)))))))))"

text \<open>\<open>os.ReadFile\<close> is the caller's: it gives the file's bytes or an error.\<close>

definition ParseFile :: "('p \<Rightarrow> bytes option) \<Rightarrow> 'p \<Rightarrow> torrent meta" where
  "ParseFile readFile path =
     (case readFile path of None \<Rightarrow> Inl ReadFileError | Some data \<Rightarrow> Parse data)"

section \<open>Spans of a canonical dictionary\<close>

fun spans_at :: "int \<Rightarrow> dictionary \<Rightarrow> spans" where
  "spans_at p [] = []"
| "spans_at p ((k, v) # ps) =
     (let s = p + int (length (bencode (ByteString k))); e = s + int (length (bencode v))
      in (k, \<lparr>Start = s, End = e\<rparr>) # spans_at e ps)"

lemma spans_at_keys [simp]: "fst ` set (spans_at p ps) = fst ` set ps"
  by (induction p ps rule: spans_at.induct) (auto simp: Let_def)

definition pairs_wf :: "dictionary \<Rightarrow> bool" where
  "pairs_wf ps \<longleftrightarrow> (\<forall>p \<in> set ps. int (length (fst p)) \<le> MaxStringLength \<and> wf_value (snd p) \<and>
     1 + vdepth (snd p) \<le> MaxNestingDepth)"

lemma pairs_wf_Cons [simp]: "pairs_wf ((k, v) # ps) \<longleftrightarrow>
    int (length k) \<le> MaxStringLength \<and> wf_value v \<and> 1 + vdepth v \<le> MaxNestingDepth \<and> pairs_wf ps"
  by (auto simp: pairs_wf_def)

lemma decode_canonical:
  assumes "wf_value v" "k + vdepth v \<le> MaxNestingDepth" "rest d = bencode v @ r" "depth d = k"
  shows "decodeValue d = (Inr v, consume (length (bencode v)) d)"
  by (rule decode_complete(1) [OF bencode_grammar(1) [OF assms(1,2)] assms(3)]) (simp add: assms(4))

lemma bencode_hd: "wf_value v \<Longrightarrow> vdepth v \<le> MaxNestingDepth \<Longrightarrow> \<exists>c u. bencode v = c # u \<and> c \<noteq> 101"
  using bencode_grammar(1) [of v 0] bgrammar_hd [of 0 "bencode v" v] bgrammar_nonempty [of 0 "bencode v" v]
  by (cases "bencode v") auto

lemma decode_pair:
  assumes "int (length k) \<le> MaxStringLength" "wf_value v" "1 + vdepth v \<le> MaxNestingDepth"
    and "rest d = bencode (ByteString k) @ bencode v @ r" "depth d = 1"
  shows "\<exists>b. peek d = Some b \<and> b \<noteq> 101"
    and "decodeValue d = (Inr (ByteString k), consume (length (bencode (ByteString k))) d)"
    and "decodeValue (consume (length (bencode (ByteString k))) d) =
           (Inr v, consume (length (bencode (ByteString k)) + length (bencode v)) d)"
proof -
  have k: "wf_value (ByteString k)" "1 + vdepth (ByteString k) \<le> MaxNestingDepth"
    "vdepth (ByteString k) \<le> MaxNestingDepth"
    using assms(1) by (simp_all add: MaxNestingDepth_def)
  show "\<exists>b. peek d = Some b \<and> b \<noteq> 101"
    using bencode_hd [OF k(1,3)] assms(4) by (auto simp: peek_def simp del: bencode.simps)
  show "decodeValue d = (Inr (ByteString k), consume (length (bencode (ByteString k))) d)"
    by (rule decode_canonical [OF k(1,2) assms(4,5)])
  have "decodeValue (consume (length (bencode (ByteString k))) d) =
      (Inr v, consume (length (bencode v)) (consume (length (bencode (ByteString k))) d))"
    by (rule decode_canonical [OF assms(2,3), where r = r]) (use assms(4,5) in \<open>simp_all del: bencode.simps\<close>)
  then show "decodeValue (consume (length (bencode (ByteString k))) d) =
      (Inr v, consume (length (bencode (ByteString k)) + length (bencode v)) d)"
    by (simp del: bencode.simps)
qed

lemma spansLoop_canonical:
  "rest d = bencode_pairs ps @ 101 # r \<Longrightarrow> depth d = 1 \<Longrightarrow> pairs_wf ps \<Longrightarrow>
    sorted_wrt (<) (map fst ps) \<Longrightarrow> (\<forall>q \<in> set ps. first \<or> prev < fst q) \<Longrightarrow>
    (\<forall>q \<in> set ps. fst q \<notin> fst ` set dict \<and> fst q \<notin> fst ` set sp) \<Longrightarrow>
    spansLoop dict sp prev first d =
      (Inr (dict @ ps, sp @ spans_at (pos d) ps), consume (length (bencode_pairs ps) + 1) d)"
proof (induction ps arbitrary: dict sp prev first d)
  case Nil
  then show ?case by (simp add: spansLoop.simps [of _ _ _ _ d] peek_def)
next
  case (Cons q ps)
  obtain k v where q: "q = (k, v)" by (cases q)
  have r: "rest d = bencode (ByteString k) @ bencode v @ (bencode_pairs ps @ 101 # r)"
    using Cons.prems(1) q by (simp del: bencode.simps)
  have wf: "int (length k) \<le> MaxStringLength" "wf_value v" "1 + vdepth v \<le> MaxNestingDepth" "pairs_wf ps"
    using Cons.prems(3) q by simp_all
  note dp = decode_pair [OF wf(1-3) r Cons.prems(2)]
  define n where "n = length (bencode (ByteString k)) + length (bencode v)"
  define sk where "sk = \<lparr>Start = pos d + int (length (bencode (ByteString k))), End = pos d + int n\<rparr>"
  have nw: "k \<notin> fst ` set dict" "k \<notin> fst ` set sp" using Cons.prems(6) q by auto
  have "spansLoop (dict @ [(k, v)]) (sp @ [(k, sk)]) k False (consume n d) =
      (Inr ((dict @ [(k, v)]) @ ps, (sp @ [(k, sk)]) @ spans_at (pos (consume n d)) ps),
       consume (length (bencode_pairs ps) + 1) (consume n d))"
    by (rule Cons.IH)
      (use r Cons.prems(2,4,6) wf(4) q in \<open>auto simp: n_def simp del: bencode.simps\<close>)
  moreover have "\<not> (\<not> first \<and> k \<le> prev)" using Cons.prems(5) q by auto
  ultimately show ?case
    using dp nw unfolding q
    by (subst spansLoop.simps)
      (auto simp: update_new n_def sk_def Let_def algebra_simps simp del: bencode.simps)
qed

lemma DecodeWithSpans_canonical:
  assumes "pairs_wf ps" "sorted_wrt (<) (map fst ps)"
  shows "DecodeWithSpans (NewDecoder (bencode (Dictionary ps))) =
    (Inr (ps, spans_at 1 ps), \<lparr>rest = [], depth = 0, pos = int (length (bencode (Dictionary ps)))\<rparr>)"
proof -
  let ?d = "NewDecoder (bencode (Dictionary ps))"
  have s: "sort_key fst ps = ps" using assms(2) by (rule sort_key_strict)
  have "spansLoop [] [] [] True (enter (consume 1 ?d)) =
      (Inr ([] @ ps, [] @ spans_at (pos (enter (consume 1 ?d))) ps),
       consume (length (bencode_pairs ps) + 1) (enter (consume 1 ?d)))"
    by (rule spansLoop_canonical [where r = "[]"]) (use assms s in \<open>simp_all add: NewDecoder_def\<close>)
  then show ?thesis
    by (simp add: DecodeWithSpans_def decodeDictionaryWithSpans_def peek_def readByte_def
        Let_def s MaxNestingDepth_def NewDecoder_def consume_def enter_def leave_def)
qed

lemma spans_at_slice:
  "map_of ps k = Some v \<Longrightarrow> \<exists>s. map_of (spans_at (int (length pre)) ps) k = Some s \<and>
    slice_of (pre @ bencode_pairs ps @ post) (Start s) (End s) = bencode v"
proof (induction ps arbitrary: pre)
  case (Cons q ps)
  obtain j w where q: "q = (j, w)" by (cases q)
  let ?kv = "bencode (ByteString j) @ bencode w"
  show ?case
  proof (cases "j = k")
    case True
    have "slice_of ((pre @ bencode (ByteString j)) @ bencode w @ (bencode_pairs ps @ post))
        (int (length pre) + int (length (bencode (ByteString j))))
        (int (length pre) + int (length (bencode (ByteString j))) + int (length (bencode w))) = bencode w"
      by (rule slice_of_append) (simp_all del: bencode.simps)
    then show ?thesis using True Cons.prems q by (simp add: Let_def del: bencode.simps)
  next
    case False
    then have "map_of ps k = Some v" using Cons.prems q by simp
    from Cons.IH [OF this, of "pre @ ?kv"] show ?thesis
      using False q by (simp add: Let_def algebra_simps del: bencode.simps)
  qed
qed simp

section \<open>What parsing guarantees\<close>

text \<open>The fields the parser takes from the two dictionaries, without the plumbing.\<close>

lemma announce_urls_ok: "announce_urls acc (map ByteString us) = Inr (acc @ us)"
  by (induction us arbitrary: acc) simp_all

lemma announce_tiers_ok:
  "announce_tiers (map (\<lambda>us. BList (map ByteString us)) tss) t = Inr (t\<lparr>AnnounceList := AnnounceList t @ tss\<rparr>)"
  by (induction tss arbitrary: t) (simp_all add: announce_urls_ok)

lemma announce_tiers_frame: "announce_tiers l t = Inr t' \<Longrightarrow> \<exists>ts. t' = t\<lparr>AnnounceList := ts\<rparr>"
proof (induction l arbitrary: t)
  case (Cons a l)
  then show ?case by (force split: sum.splits)
qed (metis announce_tiers.simps(1) sum.inject(2) torrent.surjective torrent.update_convs(2))

lemma parseAnnounceList_frame: "parseAnnounceList root t = Inr t' \<Longrightarrow> \<exists>ts. t' = t\<lparr>AnnounceList := ts\<rparr>"
  by (auto simp: parseAnnounceList_def split: sum.splits dest: announce_tiers_frame)
    (metis torrent.surjective torrent.update_convs(2))

lemma computeInfoHash_bencode [simp]: "computeInfoHash info = Inr (sha1_Sum (bencode (Dictionary info)))"
  using buffer.Encode_content [of "[]" "Dictionary info"]
  by (cases "Encode buffer_write [] (Dictionary info)") (simp add: computeInfoHash_def)

lemma parseInfo_Inr:
  "parseInfo info t = Inr t' \<longleftrightarrow>
     (\<exists>name pl ps len. GetString info (bs ''name'') = Inr name \<and> GetInt info (bs ''piece length'') = Inr pl \<and>
        GetString info (bs ''pieces'') = Inr ps \<and> 20 dvd length ps \<and> GetInt info (bs ''length'') = Inr len \<and>
        t' = t\<lparr>InfoHash := sha1_Sum (bencode (Dictionary info)), Name := name, PieceLength := pl,
               PiecesHashes := PiecesHashes t @ chunks 20 ps, TotalLength := len,
               Files := [\<lparr>Path = name, FLength = len\<rparr>]\<rparr>)"
  by (auto simp: parseInfo_def parsePieces_def GetString_def Let_def dvd_eq_mod_eq_0 split: sum.splits if_splits)

definition name_safe :: "bytes \<Rightarrow> bool" where
  "name_safe name \<longleftrightarrow> name \<noteq> [] \<and> set name \<inter> {47, 92} = {} \<and> hd name \<noteq> 46"

lemma validateName_None: "validateName name = None \<longleftrightarrow> name_safe name"
  by (cases name) (auto simp: validateName_def name_safe_def)

lemma validate_None: "validate t = None \<longleftrightarrow>
    0 < PieceLength t \<and> 0 < TotalLength t \<and> PieceCount t = expected_pieces (TotalLength t) (PieceLength t) \<and>
    name_safe (Name t)"
  by (auto simp: validate_def Let_def validateName_None not_le)

lemma expected_pieces_exact:
  assumes "0 < pl" "0 < tot" "tot + pl \<le> 2 ^ 63"
  shows "expected_pieces tot pl = (tot + pl - 1) div pl"
proof -
  have "i64 (i64 (tot + pl) - 1) = tot + pl - 1"
  proof (cases "tot + pl = 2 ^ 63")
    case True then show ?thesis by (simp add: i64_def)
  next
    case False then show ?thesis using assms by (simp add: i64_id)
  qed
  then show ?thesis using assms by (simp add: expected_pieces_def sdiv_nonneg)
qed

lemma Parse_InrD:
  assumes "Parse data = Inr t"
  obtains root spans d t1 info where
    "DecodeWithSpans (NewDecoder data) = (Inr (root, spans), d)" "AtEnd d"
    "Get root (bs ''info'') = Inr (Dictionary info)" "parseInfo info t1 = Inr t"
    "PiecesHashes t1 = []" "validate t = None"
    "\<exists>s. map_of spans (bs ''info'') = Some s \<and> sha1_Sum (slice_of data (Start s) (End s)) = InfoHash t"
proof -
  from assms obtain root spans d ann t1 v info s where *:
    "DecodeWithSpans (NewDecoder data) = (Inr (root, spans), d)" "AtEnd d"
    "parseAnnounceList root (empty_torrent\<lparr>Announce := ann\<rparr>) = Inr t1"
    "Get root (bs ''info'') = Inr v" "AsDictionary v = Inr info" "parseInfo info t1 = Inr t"
    "map_of spans (bs ''info'') = Some s" "crossCheckInfoHash data s (InfoHash t) = None" "validate t = None"
    by (auto simp: Parse_def split: prod.splits sum.splits if_splits option.splits)
  from *(5) have "v = Dictionary info" by (cases v) auto
  moreover from parseAnnounceList_frame [OF *(3)] have "PiecesHashes t1 = []"
    by (auto simp: empty_torrent_def)
  moreover from *(8) have "sha1_Sum (slice_of data (Start s) (End s)) = InfoHash t"
    by (auto simp: crossCheckInfoHash_def Let_def split: if_splits)
  ultimately show ?thesis using that * by blast
qed

section \<open>The file of a torrent\<close>

text \<open>The canonical \<open>.torrent\<close> file of a torrent: the dictionaries \<open>Parse\<close> reads, keys sorted.\<close>

definition info_of :: "torrent \<Rightarrow> dictionary" where
  "info_of t = [(bs ''length'', Integer (TotalLength t)), (bs ''name'', ByteString (Name t)),
     (bs ''piece length'', Integer (PieceLength t)), (bs ''pieces'', ByteString (concat (PiecesHashes t)))]"

definition root_of :: "torrent \<Rightarrow> dictionary" where
  "root_of t = [(bs ''announce'', ByteString (Announce t)),
     (bs ''announce-list'', BList (map (\<lambda>us. BList (map ByteString us)) (AnnounceList t))),
     (bs ''info'', Dictionary (info_of t))]"

definition torrent_file :: "torrent \<Rightarrow> bytes" where
  "torrent_file t = bencode (Dictionary (root_of t))"

definition torrent_ok :: "torrent \<Rightarrow> bool" where
  "torrent_ok t \<longleftrightarrow> validate t = None \<and> TotalLength t < 2 ^ 63 \<and> PieceLength t < 2 ^ 63 \<and>
     (\<forall>h \<in> set (PiecesHashes t). length h = 20) \<and> 20 * PieceCount t \<le> MaxStringLength \<and>
     int (length (Name t)) \<le> MaxStringLength \<and> int (length (Announce t)) \<le> MaxStringLength \<and>
     (\<forall>us \<in> set (AnnounceList t). \<forall>u \<in> set us. int (length u) \<le> MaxStringLength) \<and>
     InfoHash t = sha1_Sum (bencode (Dictionary (info_of t))) \<and>
     Files t = [\<lparr>Path = Name t, FLength = TotalLength t\<rparr>]"

lemma sorted_keys:
  "sorted_wrt (<) (map fst (info_of t))" "sorted_wrt (<) (map fst (root_of t))"
  by (simp_all add: info_of_def root_of_def)

lemma concat_hashes:
  "\<forall>h \<in> set hs. length h = 20 \<Longrightarrow> length (concat hs) = 20 * length hs \<and> chunks 20 (concat hs) = hs"
proof (induction hs)
  case (Cons h hs)
  then obtain x xs where h: "h = x # xs" "length h = 20" by (cases h) auto
  have "chunks 20 (h @ concat hs) = h # chunks 20 (concat hs)"
    using h by (simp del: append_Cons add: append_Cons [symmetric]) (simp add: h)
  then show ?case using Cons by simp
qed simp

lemma vdepth_announce_list:
  "vdepth (BList (map (\<lambda>us. BList (map ByteString us)) tss)) \<le> 2"
proof -
  have "1 + vdepth (BList (map ByteString us)) \<le> 2" for us
    using vdepth_BList [of 1 "map ByteString us" 2] by simp
  then show ?thesis using vdepth_BList [of 0 _ 2] by simp
qed

lemma torrent_pairs_wf:
  assumes "torrent_ok t"
  shows "pairs_wf (root_of t)"
proof -
  have c: "length (concat (PiecesHashes t)) = 20 * length (PiecesHashes t)"
    using conjunct1 [OF concat_hashes [of "PiecesHashes t"]] assms unfolding torrent_ok_def by blast
  have i: "wf_value (Dictionary (info_of t))"
    using assms c sorted_keys(1) [of t]
    by (simp add: torrent_ok_def validate_None info_of_def MaxStringLength_def PieceCount_def)
  have d: "1 + vdepth (Dictionary (info_of t)) \<le> MaxNestingDepth"
    using vdepth_Dictionary [of 1 "info_of t" MaxNestingDepth] by (simp add: info_of_def MaxNestingDepth_def)
  show ?thesis
    using assms i d vdepth_announce_list [of "AnnounceList t"]
    by (auto simp: root_of_def torrent_ok_def MaxStringLength_def MaxNestingDepth_def
        pairs_wf_def simp del: vdepth.simps(3,4) wf_value.simps(4))
qed

lemma info_span:
  "\<exists>s. map_of (spans_at 1 (root_of t)) (bs ''info'') = Some s \<and>
     slice_of (torrent_file t) (Start s) (End s) = bencode (Dictionary (info_of t))"
proof -
  have "map_of (root_of t) (bs ''info'') = Some (Dictionary (info_of t))"
    by (simp add: root_of_def)
  from spans_at_slice [OF this, of "[100]" "[101]"]
  show ?thesis using sort_key_strict [OF sorted_keys(2) [of t]] by (simp add: torrent_file_def)
qed

lemma info_of_lookup:
  "GetString (info_of t) (bs ''name'') = Inr (Name t)"
  "GetInt (info_of t) (bs ''piece length'') = Inr (PieceLength t)"
  "GetString (info_of t) (bs ''pieces'') = Inr (concat (PiecesHashes t))"
  "GetInt (info_of t) (bs ''length'') = Inr (TotalLength t)"
  by (simp_all add: GetString_def GetInt_def Get_def info_of_def)

lemma root_of_lookup:
  "GetString (root_of t) (bs ''announce'') = Inr (Announce t)"
  "Get (root_of t) (bs ''announce-list'') = Inr (BList (map (\<lambda>us. BList (map ByteString us)) (AnnounceList t)))"
  "Get (root_of t) (bs ''info'') = Inr (Dictionary (info_of t))"
  by (simp_all add: GetString_def Get_def root_of_def)

lemma Parse_torrent_file: "torrent_ok t \<Longrightarrow> Parse (torrent_file t) = Inr t"
proof -
  assume ok: "torrent_ok t"
  note h = concat_hashes [of "PiecesHashes t"]
  let ?t1 = "empty_torrent\<lparr>Announce := Announce t, AnnounceList := AnnounceList t\<rparr>"
  have al: "parseAnnounceList (root_of t) (empty_torrent\<lparr>Announce := Announce t\<rparr>) = Inr ?t1"
    by (simp add: parseAnnounceList_def root_of_lookup announce_tiers_ok empty_torrent_def del: bs_Cons)
  have pi: "parseInfo (info_of t) ?t1 = Inr t"
    unfolding parseInfo_Inr info_of_lookup
    using h ok by (simp add: torrent_ok_def empty_torrent_def)
  obtain s where s: "map_of (spans_at 1 (root_of t)) (bs ''info'') = Some s"
    "slice_of (torrent_file t) (Start s) (End s) = bencode (Dictionary (info_of t))"
    using info_span by blast
  then have cc: "crossCheckInfoHash (torrent_file t) s (InfoHash t) = None"
    using ok by (simp add: crossCheckInfoHash_def Let_def torrent_ok_def)
  have "validate t = None" using ok by (simp add: torrent_ok_def)
  moreover obtain d where "DecodeWithSpans (NewDecoder (torrent_file t)) =
      (Inr (root_of t, spans_at 1 (root_of t)), d)" "rest d = []"
    using DecodeWithSpans_canonical [OF torrent_pairs_wf [OF ok] sorted_keys(2)]
    unfolding torrent_file_def by (metis decoder.select_convs(1))
  ultimately show ?thesis
    using s(1) al pi cc by (simp add: Parse_def AtEnd_def peek_def root_of_lookup del: bs_Cons)
qed

lemma Parse_facts:
  assumes "Parse data = Inr t"
  shows "name_safe (Name t) \<and> 0 < PieceLength t \<and> PieceLength t < 2 ^ 63 \<and>
    0 < TotalLength t \<and> TotalLength t < 2 ^ 63 \<and> (\<forall>h \<in> set (PiecesHashes t). length h = 20) \<and>
    Files t = [\<lparr>Path = Name t, FLength = TotalLength t\<rparr>] \<and>
    (\<exists>raw info. (\<exists>a b. data = a @ raw @ b) \<and> DecodeStrict raw = Inr (Dictionary info) \<and>
       InfoHash t = sha1_Sum raw \<and> InfoHash t = sha1_Sum (bencode (Dictionary info))) \<and>
    (TotalLength t + PieceLength t \<le> 2 ^ 63 \<longrightarrow>
       geometry_ok (PieceCount t, PieceLength t, TotalLength t))"
proof -
  obtain root spans d t1 info s where *:
    "DecodeWithSpans (NewDecoder data) = (Inr (root, spans), d)"
    "Get root (bs ''info'') = Inr (Dictionary info)" "parseInfo info t1 = Inr t"
    "PiecesHashes t1 = []" "validate t = None"
    "map_of spans (bs ''info'') = Some s" "sha1_Sum (slice_of data (Start s) (End s)) = InfoHash t"
    by (rule Parse_InrD [OF assms]) blast
  have m: "map_of root (bs ''info'') = Some (Dictionary info)"
    using *(2) by (auto simp: Get_def split: option.splits)
  have sg: "span_good data (Dictionary info) s"
    using DecodeWithSpans_spans_ok [OF *(1)] m *(6) unfolding spans_ok_def
    by (metis option.rel_inject(2))
  let ?raw = "slice_of data (Start s) (End s)"
  have g: "bgrammar 0 ?raw (Dictionary info)"
    using sg by (auto simp: span_good_def dest: bgrammar_shallower(1) [where j = 0])
  have wf: "wf_value (Dictionary info)" using grammar_wf(1) [OF g] by (simp add: MaxNestingDepth_def)
  have i64: "int64_ok n" if "GetInt info k = Inr n" for k n
  proof -
    from that have "map_of info k = Some (Integer n)"
      by (auto simp: GetInt_def Get_def split: sum.splits option.splits elim!: AsInteger.elims)
    then have "(k, Integer n) \<in> set info" by (rule map_of_SomeD)
    then show ?thesis using wf by fastforce
  qed
  from *(3,4) obtain name pl ps len where i: "GetInt info (bs ''piece length'') = Inr pl"
    "GetInt info (bs ''length'') = Inr len" "20 dvd length ps"
    "InfoHash t = sha1_Sum (bencode (Dictionary info))" "Name t = name" "PieceLength t = pl"
    "PiecesHashes t = chunks 20 ps" "TotalLength t = len" "Files t = [\<lparr>Path = name, FLength = len\<rparr>]"
    unfolding parseInfo_Inr by (elim exE conjE) simp
  have v: "0 < PieceLength t" "0 < TotalLength t" "name_safe (Name t)"
    "PieceCount t = expected_pieces (TotalLength t) (PieceLength t)"
    using *(5) by (simp_all add: validate_None)
  have "data = take (nat (Start s)) data @ ?raw @ drop (nat (End s)) data"
    using sg by (simp add: span_good_def slice_of_def nat_diff_distrib)
      (metis append_take_drop_id drop_drop le_add_diff_inverse2 nat_mono order_less_imp_le)
  then have "\<exists>a b. data = a @ ?raw @ b" by blast
  moreover have "DecodeStrict ?raw = Inr (Dictionary info)" using g by (simp add: DecodeStrict_grammar)
  moreover have "\<forall>h \<in> set (PiecesHashes t). length h = 20" using i(3,7) chunks_length [of 20 ps] by simp
  moreover have "PieceLength t < 2 ^ 63" "TotalLength t < 2 ^ 63"
    using i64 [OF i(1)] i64 [OF i(2)] i(6,8) by simp_all
  moreover have "geometry_ok (PieceCount t, PieceLength t, TotalLength t)"
    if "TotalLength t + PieceLength t \<le> 2 ^ 63"
    using expected_pieces_exact [OF v(1,2) that] v calculation(4,5) by (simp add: geometry_ok.simps)
  ultimately show ?thesis using v i(4,5,8,9) *(7) by (intro conjI) (blast, (simp; fail)+, metis, blast)
qed

section \<open>Properties\<close>


text \<open>
  C32. Round trip: the canonical file of every well-formed torrent - any tracker tiers, any name
  that passes the name check, any hashes - parses back to exactly that torrent.
\<close>

theorem Parse_roundtrip: "torrent_ok t \<Longrightarrow> Parse (torrent_file t) = Inr t"
  by (rule Parse_torrent_file)

definition small_torrent :: torrent where
  "small_torrent =
     (let t = \<lparr>Announce = bs ''http://t'', AnnounceList = [[bs ''udp://a''], []], InfoHash = [], Name = bs ''f.bin'',
        PieceLength = 16, TotalLength = 20, PiecesHashes = [replicate 20 1, replicate 20 2],
        Files = [\<lparr>Path = bs ''f.bin'', FLength = 20\<rparr>]\<rparr>
      in t\<lparr>InfoHash := sha1_Sum (bencode (Dictionary (info_of t)))\<rparr>)"

theorem Parse_roundtrip_witness: "Parse (torrent_file small_torrent) = Inr small_torrent"
  by (rule Parse_roundtrip)
    (simp add: torrent_ok_def small_torrent_def Let_def validate_None PieceCount_def expected_pieces_def
      i64_def sdiv_nonneg name_safe_def MaxStringLength_def info_of_def)


text \<open>
  The piece-count check of \<open>validate\<close> can be defeated by overflow: a file that claims a total
  length and a piece length of $2^{63}-1$ and no pieces at all is accepted, because the wrapped sum
  makes the expected count 0. The ceiling the comment names would be 1.
\<close>

definition huge_torrent :: torrent where
  "huge_torrent =
     (let t = \<lparr>Announce = bs ''t'', AnnounceList = [], InfoHash = [], Name = bs ''f'',
        PieceLength = 2 ^ 63 - 1, TotalLength = 2 ^ 63 - 1, PiecesHashes = [],
        Files = [\<lparr>Path = bs ''f'', FLength = 2 ^ 63 - 1\<rparr>]\<rparr>
      in t\<lparr>InfoHash := sha1_Sum (bencode (Dictionary (info_of t)))\<rparr>)"

theorem Parse_accepts_overflowing_lengths:
  "Parse (torrent_file huge_torrent) = Inr huge_torrent \<and> PieceCount huge_torrent = 0 \<and>
   (TotalLength huge_torrent + PieceLength huge_torrent - 1) div PieceLength huge_torrent = 1"
proof (intro conjI)
  show "Parse (torrent_file huge_torrent) = Inr huge_torrent"
    by (rule Parse_torrent_file)
      (simp add: torrent_ok_def huge_torrent_def Let_def validate_None PieceCount_def expected_pieces_def
        i64_def signed_divide_int_def name_safe_def MaxStringLength_def info_of_def)
qed (simp_all add: huge_torrent_def Let_def PieceCount_def)

text \<open>
  The cross-check of the two info hashes is not redundant: this file, whose name is written with
  the length \<open>01\<close>, decodes and carries every field, but the bytes of its info dictionary differ
  from the canonical encoding, so \<open>Parse\<close> accepts it only on a SHA-1 collision between the two.
\<close>

definition padded_file :: bytes where
  "padded_file = bs ''d8:announce1:t4:infod6:lengthi1e4:name01:f12:piece lengthi1e6:pieces20:01234567890123456789ee''"

definition padded_info :: dictionary where
  "padded_info = [(bs ''length'', Integer 1), (bs ''name'', ByteString (bs ''f'')),
     (bs ''piece length'', Integer 1), (bs ''pieces'', ByteString (bs ''01234567890123456789''))]"

theorem cross_check_can_fail:
  "(let raw = slice_of padded_file 20 92 in
    raw \<noteq> bencode (Dictionary padded_info) \<and> DecodeStrict raw = Inr (Dictionary padded_info) \<and>
    is_ok (Parse padded_file) = (sha1_Sum raw = sha1_Sum (bencode (Dictionary padded_info))) \<and>
    DecodeWithSpans (NewDecoder padded_file) =
      (Inr ([(bs ''announce'', ByteString (bs ''t'')), (bs ''info'', Dictionary padded_info)],
            [(bs ''announce'', \<lparr>Start = 11, End = 14\<rparr>), (bs ''info'', \<lparr>Start = 20, End = 92\<rparr>)]),
       \<lparr>rest = [], depth = 0, pos = 93\<rparr>))"
proof -
  have d: "DecodeWithSpans (NewDecoder padded_file) =
      (Inr ([(bs ''announce'', ByteString (bs ''t'')), (bs ''info'', Dictionary padded_info)],
            [(bs ''announce'', \<lparr>Start = 11, End = 14\<rparr>), (bs ''info'', \<lparr>Start = 20, End = 92\<rparr>)]),
       \<lparr>rest = [], depth = 0, pos = 93\<rparr>)" by code_simp
  have r: "slice_of padded_file 20 92 \<noteq> bencode (Dictionary padded_info)" by code_simp
  have s: "DecodeStrict (slice_of padded_file 20 92) = Inr (Dictionary padded_info)" by code_simp
  let ?t1 = "empty_torrent\<lparr>Announce := bs ''t''\<rparr>"
  obtain t2 where t2: "parseInfo padded_info ?t1 = Inr t2"
      "InfoHash t2 = sha1_Sum (bencode (Dictionary padded_info))" "validate t2 = None"
    by (auto simp: parseInfo_Inr padded_info_def GetString_def GetInt_def Get_def validate_None
        PieceCount_def expected_pieces_def i64_def sdiv_nonneg name_safe_def empty_torrent_def)
      (simp add: numeral_eq_Suc)
  have "is_ok (Parse padded_file) =
      (sha1_Sum (slice_of padded_file 20 92) = sha1_Sum (bencode (Dictionary padded_info)))"
    using t2 by (simp add: Parse_def d AtEnd_def peek_def GetString_def Get_def parseAnnounceList_def
        crossCheckInfoHash_def Let_def)
  then show ?thesis using d r s by (simp add: Let_def)
qed

end
