(* ===== verification/Tracker.thy ===== *)
theory Tracker
  imports Bencode_Spans
begin

text \<open>
  Package \<open>tracker\<close>: decoding announce responses (\<open>response.go\<close>), building the announce URL
  (\<open>request.go\<close>), one announce over HTTP (\<open>client.go\<close>), the walk over the tracker tiers (\<open>tiers.go\<close>)
  and the peer ID (\<open>peerid.go\<close>). The network is an argument: what the HTTP client gets for the
  n-th request. Of \<open>net/url\<close> the query encoding is written out and the splitting of a URL is an
  argument; of \<open>net/netip\<close> the IPv4 syntax is written out and the IPv6 syntax is an argument.
\<close>

section \<open>Addresses: package \<open>netip\<close>\<close>

datatype addr = Addr4 bytes | Addr6 bytes

record addr_port =
  Addr :: addr
  Port :: int

text \<open>One decimal field of a dotted quad: no leading zero, at most 255.\<close>

definition ipv4_field :: "bytes \<Rightarrow> byte option" where
  "ipv4_field s =
     (if s = [] \<or> \<not> list_all is_digit s \<or> (1 < length s \<and> hd s = 48) \<or> 255 < digits_value s then None
      else Some (of_int (digits_value s)))"

fun split_on :: "byte \<Rightarrow> bytes \<Rightarrow> bytes list" where
  "split_on c [] = [[]]"
| "split_on c (x # xs) =
     (if x = c then [] # split_on c xs
      else (case split_on c xs of [] \<Rightarrow> [[x]] | y # ys \<Rightarrow> (x # y) # ys))"

definition parseIPv4 :: "bytes \<Rightarrow> addr option" where
  "parseIPv4 s =
     (let fs = map ipv4_field (split_on 46 s) in
      if length fs = 4 \<and> None \<notin> set fs then Some (Addr4 (map the fs)) else None)"

text \<open>\<open>ParseAddr\<close> looks at the first of \<open>.\<close>, \<open>:\<close> and \<open>%\<close> to choose the syntax.\<close>

fun parse_addr_from :: "(bytes \<Rightarrow> addr option) \<Rightarrow> bytes \<Rightarrow> bytes \<Rightarrow> addr option" where
  "parse_addr_from parseIPv6 s [] = None"
| "parse_addr_from parseIPv6 s (c # cs) =
     (if c = 46 then parseIPv4 s else if c = 58 then parseIPv6 s
      else if c = 37 then None else parse_addr_from parseIPv6 s cs)"

definition ParseAddr :: "(bytes \<Rightarrow> addr option) \<Rightarrow> bytes \<Rightarrow> addr option" where
  "ParseAddr parseIPv6 s = parse_addr_from parseIPv6 s s"

section \<open>Responses\<close>

record announce_response =
  Interval :: int
  MinInterval :: int
  Complete :: int
  Incomplete :: int
  Peers :: "addr_port list"

datatype response_error =
    DecodeResponse bencode_error
  | ResponseNotDictionary bencode_error
  | FailureReason bytes
  | MissingPeers bencode_error
  | CompactPeersLength int
  | LegacyPeerNotDictionary bencode_error
  | LegacyPeerMissingIP bencode_error
  | LegacyPeerMissingPort bencode_error
  | LegacyPeerInvalidIP bytes
  | PeersNeither

fun compact_peer :: "bytes \<Rightarrow> addr_port" where
  "compact_peer b = \<lparr>Addr = Addr4 (take 4 b), Port = get_u16 (drop 4 b)\<rparr>"

definition decodeCompactPeers :: "bytes \<Rightarrow> (response_error, addr_port list) result" where
  "decodeCompactPeers blob =
     (if length blob mod 6 \<noteq> 0 then Inl (CompactPeersLength (int (length blob)))
      else Inr (map compact_peer (chunks 6 blob)))"

text \<open>The conversion \<open>uint16(port)\<close> keeps the low 16 bits, whatever the tracker sent.\<close>

definition uint16_of :: "int \<Rightarrow> int" where
  "uint16_of n = n mod 2 ^ 16"

fun decodeLegacyPeers :: "(bytes \<Rightarrow> addr option) \<Rightarrow> addr_port list \<Rightarrow> bvalue list \<Rightarrow>
    (response_error, addr_port list) result" where
  "decodeLegacyPeers parseIPv6 peers [] = Inr peers"
| "decodeLegacyPeers parseIPv6 peers (v # vs) =
     (case AsDictionary v of
        Inl e \<Rightarrow> Inl (LegacyPeerNotDictionary e)
      | Inr d \<Rightarrow>
      (case GetString d (bs ''ip'') of
        Inl e \<Rightarrow> Inl (LegacyPeerMissingIP e)
      | Inr ipStr \<Rightarrow>
      (case GetInt d (bs ''port'') of
        Inl e \<Rightarrow> Inl (LegacyPeerMissingPort e)
      | Inr port \<Rightarrow>
      (case ParseAddr parseIPv6 ipStr of
        None \<Rightarrow> Inl (LegacyPeerInvalidIP ipStr)
      | Some a \<Rightarrow> decodeLegacyPeers parseIPv6 (peers @ [\<lparr>Addr = a, Port = uint16_of port\<rparr>]) vs))))"

text \<open>\<open>resp.Interval, _ = dict.GetInt(...)\<close>: a missing or ill-typed field is 0.\<close>

definition int_or_zero :: "dictionary \<Rightarrow> bytes \<Rightarrow> int" where
  "int_or_zero d key = (case GetInt d key of Inl _ \<Rightarrow> 0 | Inr n \<Rightarrow> n)"

definition ParseAnnounceResponse :: "(bytes \<Rightarrow> addr option) \<Rightarrow> bytes \<Rightarrow> (response_error, announce_response) result" where
  "ParseAnnounceResponse parseIPv6 data =
     (case DecodeStrict data of
        Inl e \<Rightarrow> Inl (DecodeResponse e)
      | Inr v \<Rightarrow>
      (case AsDictionary v of
        Inl e \<Rightarrow> Inl (ResponseNotDictionary e)
      | Inr dict \<Rightarrow>
      (case GetString dict (bs ''failure reason'') of
        Inr reason \<Rightarrow> Inl (FailureReason reason)
      | Inl _ \<Rightarrow>
          let resp = \<lparr>Interval = int_or_zero dict (bs ''interval''),
                      MinInterval = int_or_zero dict (bs ''min interval''),
                      Complete = int_or_zero dict (bs ''complete''),
                      Incomplete = int_or_zero dict (bs ''incomplete''), Peers = []\<rparr> in
          (case Get dict (bs ''peers'') of
            Inl e \<Rightarrow> Inl (MissingPeers e)
          | Inr (ByteString pv) \<Rightarrow> map_sum id (\<lambda>ps. resp\<lparr>Peers := ps\<rparr>) (decodeCompactPeers pv)
          | Inr (BList pv) \<Rightarrow> map_sum id (\<lambda>ps. resp\<lparr>Peers := ps\<rparr>) (decodeLegacyPeers parseIPv6 [] pv)
          | Inr (Integer _) \<Rightarrow> Inl PeersNeither
          | Inr (Dictionary _) \<Rightarrow> Inl PeersNeither))))"

section \<open>Query strings: package \<open>net/url\<close>\<close>

definition unreserved :: "byte \<Rightarrow> bool" where
  "unreserved c \<longleftrightarrow> (48 \<le> c \<and> c \<le> 57) \<or> (65 \<le> c \<and> c \<le> 90) \<or> (97 \<le> c \<and> c \<le> 122) \<or>
     c = 45 \<or> c = 95 \<or> c = 46 \<or> c = 126"

definition hex_digit :: "byte \<Rightarrow> byte" where
  "hex_digit n = (if n < 10 then 48 + n else 55 + n)"

fun QueryEscape :: "bytes \<Rightarrow> bytes" where
  "QueryEscape [] = []"
| "QueryEscape (c # cs) =
     (if unreserved c then [c] else if c = 32 then [43]
      else [37, hex_digit (drop_bit 4 c), hex_digit (take_bit 4 c)]) @ QueryEscape cs"

type_synonym query = "(bytes \<times> bytes list) list"

text \<open>\<open>url.Values\<close> is a Go map from a key to its values; \<open>Set\<close> replaces them.\<close>

definition query_Set :: "bytes \<Rightarrow> bytes \<Rightarrow> query \<Rightarrow> query" where
  "query_Set k v q = AList.update k [v] q"

fun join_pairs :: "bytes list \<Rightarrow> bytes" where
  "join_pairs [] = []"
| "join_pairs [p] = p"
| "join_pairs (p # ps) = p @ [38] @ join_pairs ps"

definition query_Encode :: "query \<Rightarrow> bytes" where
  "query_Encode q =
     join_pairs (concat (map (\<lambda>(k, vs). map (\<lambda>v. QueryEscape k @ [61] @ QueryEscape v) vs) (sort_key fst q)))"

text \<open>What \<open>url.Parse\<close> and \<open>Query\<close> give: the text before the query, the query, the fragment.\<close>

record parsed_url =
  Scheme :: bytes
  UPrefix :: bytes
  UQuery :: query
  UFragment :: bytes

definition url_String :: "parsed_url \<Rightarrow> bytes \<Rightarrow> bytes" where
  "url_String u rawQuery =
     UPrefix u @ (if rawQuery = [] then [] else 63 # rawQuery) @ (if UFragment u = [] then [] else 35 # UFragment u)"

section \<open>Requests\<close>

definition EventNone :: bytes where "EventNone = []"
definition EventStarted :: bytes where "EventStarted = bs ''started''"
definition EventCompleted :: bytes where "EventCompleted = bs ''completed''"
definition EventStopped :: bytes where "EventStopped = bs ''stopped''"

definition announce_query :: "query \<Rightarrow> bytes \<Rightarrow> bytes \<Rightarrow> int \<Rightarrow> int \<Rightarrow> int \<Rightarrow> int \<Rightarrow> bytes \<Rightarrow> query" where
  "announce_query q infoHash peerID port uploaded downloaded left event =
     (let q1 = query_Set (bs ''info_hash'') infoHash q;
          q2 = query_Set (bs ''peer_id'') peerID q1;
          q3 = query_Set (bs ''port'') (show_int port) q2;
          q4 = query_Set (bs ''uploaded'') (show_int uploaded) q3;
          q5 = query_Set (bs ''downloaded'') (show_int downloaded) q4;
          q6 = query_Set (bs ''left'') (show_int left) q5;
          q7 = query_Set (bs ''compact'') (bs ''1'') q6
      in if event \<noteq> EventNone then query_Set (bs ''event'') event q7 else q7)"

definition BuildAnnounceURL :: "(bytes \<Rightarrow> parsed_url option) \<Rightarrow> bytes \<Rightarrow> bytes \<Rightarrow> bytes \<Rightarrow> int \<Rightarrow> int \<Rightarrow> int \<Rightarrow>
    int \<Rightarrow> bytes \<Rightarrow> bytes option" where
  "BuildAnnounceURL urlParse announce infoHash peerID port uploaded downloaded left event =
     (case urlParse announce of
        None \<Rightarrow> None
      | Some u \<Rightarrow>
          Some (url_String u
            (query_Encode (announce_query (UQuery u) infoHash peerID port uploaded downloaded left event))))"

section \<open>Announcing\<close>

definition maxResponseSize :: nat where "maxResponseSize = 2 ^ 20"

text \<open>
  What the HTTP client gets: no valid request, no response, or a status with a body whose reading
  ends with or without an error.
\<close>

datatype http_outcome =
    InvalidRequest
  | RequestFailed
  | Response int bytes bool

datatype announce_error =
    BuildRequest
  | AnnounceRequest
  | UnexpectedStatus int
  | ReadBody
  | BadResponse response_error

definition Announce :: "(bytes \<Rightarrow> addr option) \<Rightarrow> http_outcome \<Rightarrow> (announce_error, announce_response) result" where
  "Announce parseIPv6 outcome =
     (case outcome of
        InvalidRequest \<Rightarrow> Inl BuildRequest
      | RequestFailed \<Rightarrow> Inl AnnounceRequest
      | Response status body failed \<Rightarrow>
          if status \<noteq> 200 then Inl (UnexpectedStatus status)
          else if failed \<and> length body < maxResponseSize then Inl ReadBody
          else map_sum BadResponse id (ParseAnnounceResponse parseIPv6 (take maxResponseSize body)))"

definition flattenTiers :: "bytes \<Rightarrow> bytes list list \<Rightarrow> bytes list" where
  "flattenTiers announce announceList = (if announceList = [] then [announce] else concat announceList)"

datatype tracker_error =
    MalformedURL bytes
  | ErrUnsupportedScheme bytes bytes
  | BuildURL bytes
  | AnnounceFailed bytes announce_error

text \<open>One iteration of the loop: the response of this tracker, or the error recorded for it.\<close>

definition try_tracker :: "(bytes \<Rightarrow> parsed_url option) \<Rightarrow> (bytes \<Rightarrow> bytes option) \<Rightarrow> (bytes \<Rightarrow> addr option) \<Rightarrow>
    (bytes \<Rightarrow> http_outcome) \<Rightarrow> bytes \<Rightarrow> (tracker_error, announce_response) result" where
  "try_tracker urlParse buildURL parseIPv6 http url =
     (case urlParse url of
        None \<Rightarrow> Inl (MalformedURL url)
      | Some u \<Rightarrow>
          if Scheme u \<noteq> bs ''http'' \<and> Scheme u \<noteq> bs ''https'' then Inl (ErrUnsupportedScheme url (Scheme u))
          else (case buildURL url of
                  None \<Rightarrow> Inl (BuildURL url)
                | Some announceURL \<Rightarrow> map_sum (AnnounceFailed url) id (Announce parseIPv6 (http announceURL))))"

text \<open>The network may answer differently at every attempt; \<open>k\<close> numbers them.\<close>

fun announce_loop :: "(bytes \<Rightarrow> parsed_url option) \<Rightarrow> (bytes \<Rightarrow> bytes option) \<Rightarrow> (bytes \<Rightarrow> addr option) \<Rightarrow>
    (nat \<Rightarrow> bytes \<Rightarrow> http_outcome) \<Rightarrow> nat \<Rightarrow> tracker_error list \<Rightarrow> bytes list \<Rightarrow>
    (tracker_error list, announce_response) result" where
  "announce_loop urlParse buildURL parseIPv6 http k errs [] = Inl errs"
| "announce_loop urlParse buildURL parseIPv6 http k errs (url # urls) =
     (case try_tracker urlParse buildURL parseIPv6 (http k) url of
        Inl e \<Rightarrow> announce_loop urlParse buildURL parseIPv6 http (Suc k) (errs @ [e]) urls
      | Inr resp \<Rightarrow> Inr resp)"

definition AnnounceAll where
  "AnnounceAll urlParse parseIPv6 http announce announceList buildURL =
     announce_loop urlParse buildURL parseIPv6 http 0 [] (flattenTiers announce announceList)"

definition peerIDPrefix :: bytes where "peerIDPrefix = bs ''-GO0001-''"

text \<open>\<open>rand.Read\<close> fills the slice it is given, or fails.\<close>

definition GeneratePeerID :: "(nat \<Rightarrow> bytes option) \<Rightarrow> bytes option" where
  "GeneratePeerID rand =
     (let id = copy_at (replicate 20 0) 0 peerIDPrefix in
      case rand (20 - length peerIDPrefix) of
        None \<Rightarrow> None
      | Some r \<Rightarrow> Some (copy_at id (length peerIDPrefix) r))"

section \<open>Reading a query back\<close>

text \<open>What the tracker sees: the pairs of the query string, unescaped.\<close>

definition hex_value :: "byte \<Rightarrow> byte option" where
  "hex_value h = (if 48 \<le> h \<and> h \<le> 57 then Some (h - 48) else if 65 \<le> h \<and> h \<le> 70 then Some (h - 55) else None)"

fun QueryUnescape :: "bytes \<Rightarrow> bytes option" where
  "QueryUnescape [] = Some []"
| "QueryUnescape (c # cs) =
     (if c = 37
      then (case cs of
              a # b # r \<Rightarrow>
                (case (hex_value a, hex_value b, QueryUnescape r) of
                   (Some x, Some y, Some s) \<Rightarrow> Some ((push_bit 4 x + y) # s)
                 | _ \<Rightarrow> None)
            | _ \<Rightarrow> None)
      else map_option ((#) (if c = 43 then 32 else c)) (QueryUnescape cs))"

definition query_pairs :: "bytes \<Rightarrow> (bytes option \<times> bytes option) list" where
  "query_pairs raw =
     (if raw = [] then []
      else map (\<lambda>p. (QueryUnescape (takeWhile (\<lambda>c. c \<noteq> 61) p), QueryUnescape (tl (dropWhile (\<lambda>c. c \<noteq> 61) p))))
             (split_on 38 raw))"

definition query_values :: "bytes \<Rightarrow> bytes \<Rightarrow> bytes option list" where
  "query_values raw k = map snd (filter (\<lambda>p. fst p = Some k) (query_pairs raw))"

lemma hex_all: "\<forall>k \<in> set [0..<16]. hex_value (hex_digit (of_nat k)) = Some (of_nat k) \<and> hex_digit (of_nat k) \<noteq> 38
    \<and> hex_digit (of_nat k) \<noteq> 61"
  by code_simp

lemma hex_value_digit:
  assumes "n < 16"
  shows "hex_value (hex_digit n) = Some n" "hex_digit n \<noteq> 38" "hex_digit n \<noteq> 61"
proof -
  have "unat n < unat (16 :: byte)" using assms by (simp only: word_less_nat_alt)
  then have "unat n \<in> set [0..<16]" by simp
  from bspec [OF hex_all this] show "hex_value (hex_digit n) = Some n" "hex_digit n \<noteq> 38" "hex_digit n \<noteq> 61"
    by simp_all
qed

lemma nibbles: "drop_bit 4 c < 16" "take_bit 4 c < 16" for c :: byte
proof -
  have "uint c div 16 < 16" using uint_byte_bounds(2) [of c] by linarith
  then show "drop_bit 4 c < 16"
    by (simp add: drop_bit_eq_div word_less_def uint_div)
  show "take_bit 4 c < 16"
    by (simp add: take_bit_eq_mod word_less_def uint_mod)
qed

lemma Unescape_Escape: "QueryUnescape (QueryEscape s) = Some s"
proof (induction s)
  case (Cons c s)
  have c: "unreserved c \<Longrightarrow> c \<noteq> 37 \<and> c \<noteq> 43 \<and> c \<noteq> 32" by (auto simp: unreserved_def)
  have "push_bit 4 (drop_bit 4 c) + take_bit 4 c = c" by (rule bits_ident)
  then show ?case
    using Cons c hex_value_digit(1) [OF nibbles(1)] hex_value_digit(1) [OF nibbles(2)] by auto
qed simp

lemma Escape_clean: "38 \<notin> set (QueryEscape s) \<and> 61 \<notin> set (QueryEscape s)"
proof (induction s)
  case (Cons c s)
  have "unreserved c \<Longrightarrow> c \<noteq> 38 \<and> c \<noteq> 61" by (auto simp: unreserved_def)
  then show ?case
    using Cons hex_value_digit(2,3) [OF nibbles(1) [of c]] hex_value_digit(2,3) [OF nibbles(2) [of c]] by auto
qed simp

lemma split_on_nonempty: "split_on c xs \<noteq> []"
  by (induction xs) (auto split: list.splits)

lemma split_on_clean: "c \<notin> set p \<Longrightarrow> split_on c p = [p]"
  by (induction p) auto

lemma split_on_append: "c \<notin> set p \<Longrightarrow> split_on c (p @ c # r) = p # split_on c r"
proof (induction p)
  case (Cons x p)
  then show ?case by (auto split: list.splits)
qed simp

lemma split_join: "ps \<noteq> [] \<Longrightarrow> \<forall>p \<in> set ps. 38 \<notin> set p \<Longrightarrow> split_on 38 (join_pairs ps) = ps"
proof (induction ps rule: join_pairs.induct)
  case (3 p q ps)
  then show ?case by (simp add: split_on_append del: split_on.simps)
qed (simp_all add: split_on_clean)

lemma join_nonempty: "ps \<noteq> [] \<Longrightarrow> \<forall>p \<in> set ps. p \<noteq> [] \<Longrightarrow> join_pairs ps \<noteq> []"
  by (induction ps rule: join_pairs.induct) auto

lemma takeWhile_key: "61 \<notin> set k \<Longrightarrow> takeWhile (\<lambda>c. c \<noteq> 61) (k @ 61 # v) = k \<and>
    tl (dropWhile (\<lambda>c. c \<noteq> 61) (k @ 61 # v)) = v" for k :: bytes
  by (induction k) auto

definition flat_query :: "query \<Rightarrow> (bytes \<times> bytes) list" where
  "flat_query q = concat (map (\<lambda>(k, vs). map (Pair k) vs) (sort_key fst q))"

lemma query_pairs_Encode:
  "query_pairs (query_Encode q) = map (\<lambda>(k, v). (Some k, Some v)) (flat_query q)"
proof -
  let ?enc = "\<lambda>(k, v). QueryEscape k @ [61] @ QueryEscape v"
  have e: "query_Encode q = join_pairs (map ?enc (flat_query q))"
    by (simp add: query_Encode_def flat_query_def map_concat comp_def split_def)
  show ?thesis
  proof (cases "flat_query q = []")
    case False
    then have "split_on 38 (query_Encode q) = map ?enc (flat_query q)"
      unfolding e using Escape_clean by (intro split_join) auto
    moreover have "query_Encode q \<noteq> []"
      unfolding e using False by (intro join_nonempty) auto
    ultimately show ?thesis
      using Escape_clean takeWhile_key by (auto simp: query_pairs_def Unescape_Escape)
  qed (simp add: e query_pairs_def)
qed

lemma flat_filter:
  assumes "distinct (map fst q)"
  shows "map snd (filter (\<lambda>p. fst p = k) (concat (map (\<lambda>(k, vs). map (Pair k) vs) q))) =
    (case map_of q k of None \<Rightarrow> [] | Some vs \<Rightarrow> vs)"
  using assms
proof (induction q)
  case (Cons a q)
  obtain j vs where a: "a = (j, vs)" by (cases a)
  have v: "map snd (filter (\<lambda>p. fst p = k) (map (Pair j) vs)) = (if j = k then vs else [])"
    by (induction vs) auto
  show ?case
  proof (cases "j = k")
    case True
    then have "map_of q k = None" using Cons.prems a by (simp add: map_of_eq_None_iff)
    then show ?thesis using Cons v a True by simp
  qed (use Cons v a in simp)
qed simp

lemma query_values_Encode:
  assumes "distinct (map fst q)"
  shows "query_values (query_Encode q) k = (case map_of q k of None \<Rightarrow> [] | Some vs \<Rightarrow> map Some vs)"
proof -
  have d: "distinct (map fst (sort_key fst q))"
    using assms by (simp add: distinct_map inj_on_def)
  have m: "map_of (sort_key fst q) k = map_of q k"
    using map_of_eqI [of "sort_key fst q" q] d assms
    by (metis distinct_map map_of_inject_set set_sort)
  have "query_values (query_Encode q) k = map Some (map snd (filter (\<lambda>p. fst p = k) (flat_query q)))"
    by (simp add: query_values_def query_pairs_Encode filter_map comp_def split_def)
  then show ?thesis
    using flat_filter [OF d, of k] m unfolding flat_query_def by (simp split: option.splits)
qed

section \<open>Properties\<close>

definition peer_bytes :: "addr_port \<Rightarrow> bytes" where
  "peer_bytes p = (case Addr p of Addr4 a \<Rightarrow> a | Addr6 a \<Rightarrow> a) @ [of_int (Port p div 256), of_int (Port p)]"

definition ipv4_peer :: "addr_port \<Rightarrow> bool" where
  "ipv4_peer p \<longleftrightarrow> (\<exists>a. Addr p = Addr4 a \<and> length a = 4) \<and> 0 \<le> Port p \<and> Port p < 2 ^ 16"

lemma compact_peer_bytes: "ipv4_peer p \<Longrightarrow> compact_peer (peer_bytes p) = p \<and> length (peer_bytes p) = 6"
proof -
  assume p: "ipv4_peer p"
  then obtain a where a: "Addr p = Addr4 a" "length a = 4" by (auto simp: ipv4_peer_def)
  have "0 \<le> Port p" "Port p < 65536" using p by (simp_all add: ipv4_peer_def)
  then have "uint (of_int (Port p div 256) :: byte) * 256 + uint (of_int (Port p) :: byte) = Port p"
    by (simp add: uint_of_int_byte mod_pos_pos_trivial div_less_iff_less_mult)
  then show ?thesis using a by (cases p) (simp add: peer_bytes_def)
qed

lemma peer_bytes_compact: "length b = 6 \<Longrightarrow> peer_bytes (compact_peer b) = b \<and> ipv4_peer (compact_peer b)"
proof -
  assume "length b = 6"
  then obtain x y z w u v where b: "b = [x, y, z, w, u, v]"
    by (auto simp: numeral_eq_Suc length_Suc_conv)
  have "(uint u * 256 + uint v) mod 256 = uint v" "(uint u * 256 + uint v) div 256 = uint u"
    using uint_byte_bounds [of v] by simp_all
  then have "of_int ((uint u * 256 + uint v) div 256) = u" "of_int (uint u * 256 + uint v) = v"
    by (metis uint_of_int_byte word_uint_eq_iff word_of_int_uint)+
  then show ?thesis
    using get_u16_bounds [of "[u, v]"] by (simp add: b peer_bytes_def ipv4_peer_def)
qed

text \<open>
  Compact peer lists round-trip in both directions: a blob decodes if and only if it is the
  concatenation of the 6-byte forms of IPv4 peers, and it decodes to exactly those peers in order.
\<close>

theorem compact_peers_exact:
  "decodeCompactPeers blob = Inr ps \<longleftrightarrow> list_all ipv4_peer ps \<and> blob = concat (map peer_bytes ps)"
  unfolding list_all_iff
proof
  assume l: "decodeCompactPeers blob = Inr ps"
  then have d: "6 dvd length blob" "ps = map compact_peer (chunks 6 blob)"
    by (auto simp: decodeCompactPeers_def split: if_splits)
  have c: "length c = 6" if "c \<in> set (chunks 6 blob)" for c using chunks_length [OF _ d(1) that] by simp
  have "map peer_bytes ps = map (\<lambda>c. c) (chunks 6 blob)"
    unfolding d(2) map_map comp_def by (rule map_cong) (auto simp: peer_bytes_compact c simp del: compact_peer.simps)
  then show "(\<forall>p \<in> set ps. ipv4_peer p) \<and> blob = concat (map peer_bytes ps)"
    using chunks_concat [of 6 blob] d(2) c by (auto simp: peer_bytes_compact simp del: compact_peer.simps)
next
  assume r: "(\<forall>p \<in> set ps. ipv4_peer p) \<and> blob = concat (map peer_bytes ps)"
  have "\<forall>p \<in> set ps. ipv4_peer p \<Longrightarrow>
      6 dvd length (concat (map peer_bytes ps)) \<and> chunks 6 (concat (map peer_bytes ps)) = map peer_bytes ps"
  proof (induction ps)
    case (Cons p ps)
    then obtain x xs where h: "peer_bytes p = x # xs" "length (peer_bytes p) = 6"
      using compact_peer_bytes [of p] by (cases "peer_bytes p") auto
    have "chunks 6 (peer_bytes p @ concat (map peer_bytes ps)) = peer_bytes p # chunks 6 (concat (map peer_bytes ps))"
      using h by (simp del: append_Cons add: append_Cons [symmetric]) (simp add: h)
    then show ?case using Cons h by simp
  qed simp
  then show "decodeCompactPeers blob = Inr ps"
    using r by (auto simp: decodeCompactPeers_def dvd_eq_mod_eq_0 compact_peer_bytes map_idI
        simp del: compact_peer.simps)
qed



lemma announce_loop_Inr:
  "announce_loop urlParse buildURL parseIPv6 http k errs urls = Inr resp \<longleftrightarrow>
    (\<exists>n < length urls. try_tracker urlParse buildURL parseIPv6 (http (k + n)) (urls ! n) = Inr resp \<and>
       (\<forall>m < n. \<not> is_ok (try_tracker urlParse buildURL parseIPv6 (http (k + m)) (urls ! m))))"
proof (induction urls arbitrary: k errs)
  case (Cons url urls)
  show ?case
    by (cases "try_tracker urlParse buildURL parseIPv6 (http k) url")
      (auto simp: Cons Ex_less_Suc2 All_less_Suc2)
qed simp

lemma announce_loop_errors:
  "announce_loop urlParse buildURL parseIPv6 http k errs urls = Inl es \<Longrightarrow>
    length es = length errs + length urls"
  by (induction urls arbitrary: k errs) (auto split: sum.splits)

text \<open>
  The first tracker that answers wins: \<open>AnnounceAll\<close> returns a response exactly when some
  tracker in tier order gives it and every tracker before it failed; when it fails it reports one
  error per tracker. No later tracker is contacted after a success.
\<close>

theorem AnnounceAll_first_success:
  "(AnnounceAll urlParse parseIPv6 http announce announceList buildURL = Inr resp \<longleftrightarrow>
      (\<exists>n < length (flattenTiers announce announceList).
         try_tracker urlParse buildURL parseIPv6 (http n) (flattenTiers announce announceList ! n) = Inr resp \<and>
         \<not> (\<exists>m < n. is_ok (try_tracker urlParse buildURL parseIPv6 (http m) (flattenTiers announce announceList ! m))))) \<and>
   (case AnnounceAll urlParse parseIPv6 http announce announceList buildURL of
      Inl errs \<Rightarrow> length errs = length (flattenTiers announce announceList)
    | Inr _ \<Rightarrow> True)"
  using announce_loop_errors [of urlParse buildURL parseIPv6 http 0 "[]" "flattenTiers announce announceList"]
  unfolding AnnounceAll_def announce_loop_Inr by (auto split: sum.splits)

text \<open>
  A port out of range is not refused: the legacy peer list keeps only the low 16 bits of the
  port a tracker sends, so 65616 becomes port 80 and -1 becomes 65535.
\<close>

theorem legacy_port_truncated:
  "decodeLegacyPeers parseIPv6 [] [Dictionary [(bs ''ip'', ByteString (bs ''10.0.0.1'')), (bs ''port'', Integer 65616)],
      Dictionary [(bs ''ip'', ByteString (bs ''10.0.0.2'')), (bs ''port'', Integer (- 1))]] =
    Inr [\<lparr>Addr = Addr4 [10, 0, 0, 1], Port = 80\<rparr>, \<lparr>Addr = Addr4 [10, 0, 0, 2], Port = 65535\<rparr>]"
proof -
  have "ParseAddr parseIPv6 (bs ''10.0.0.1'') = parseIPv4 (bs ''10.0.0.1'')"
    "ParseAddr parseIPv6 (bs ''10.0.0.2'') = parseIPv4 (bs ''10.0.0.2'')" by (simp_all add: ParseAddr_def)
  moreover have "parseIPv4 (bs ''10.0.0.1'') = Some (Addr4 [10, 0, 0, 1])"
    "parseIPv4 (bs ''10.0.0.2'') = Some (Addr4 [10, 0, 0, 2])" by code_simp+
  ultimately show ?thesis
    by (simp add: GetString_def GetInt_def Get_def uint16_of_def)
qed

end
