(* ===== verification/Download.thy ===== *)
theory Download
  imports Metainfo Storage Tracker Session
begin

text \<open>
  Package \<open>download\<close>, the main goroutine (\<open>download.go\<close>, \<open>queue.go\<close>): opening and scanning the output
  file, telling the coordinator what is already there, announcing, dialling the peers the tracker
  names, and the loop that writes finished pieces, re-announces and shuts down. \<open>Download\<close> runs
  against what happens at start-up and the list of things the \<open>select\<close> of its loop picks up, in that
  order; clock readings, the tracker's answers and the results of disk operations come with them.
  The coordinator and the connections run in goroutines of their own and are modelled in their
  theories; here they are the source of \<open>ResultIn\<close>, \<open>WorkerDone\<close> and \<open>Traffic\<close>.
\<close>

section \<open>Settings and state\<close>

record options =
  OptPort :: int
  MaxPeers :: int
  OptSeed :: bool

definition stallTimeout :: int where "stallTimeout = 30 * Second"
definition defaultAnnounceInterval :: int where "defaultAnnounceInterval = 30 * 60 * Second"
definition defaultMaxPeers :: int where "defaultMaxPeers = 50"

definition max_peers :: "options \<Rightarrow> int" where
  "max_peers p = (if MaxPeers p \<le> 0 then defaultMaxPeers else MaxPeers p)"

text \<open>\<open>NewHaveBitfield\<close>; its methods are those of the bitfield inside, under a lock.\<close>

definition NewHaveBitfield :: "int \<Rightarrow> bitfield" where
  "NewHaveBitfield n = empty_bitfield n"

definition have_Set :: "int \<Rightarrow> bitfield \<Rightarrow> bitfield" where
  "have_Set index h = SetPiece h index"

definition have_Has :: "bitfield \<Rightarrow> int \<Rightarrow> bool" where
  "have_Has h index = HasPiece h index"

definition Snapshot :: "bitfield \<Rightarrow> bitfield" where
  "Snapshot h = copy_at (replicate (length h) 0) 0 h"

definition have_Count :: "bitfield \<Rightarrow> int" where
  "have_Count h = Count h"

type_synonym http = "nat \<Rightarrow> bytes \<Rightarrow> http_outcome"

text \<open>What a run is given: the torrent, the identity, the settings, and the URL and IPv6 parsers.\<close>

record download_env =
  tor :: torrent
  peerID :: bytes
  opts :: options
  urlParser :: "bytes \<Rightarrow> parsed_url option"
  ipv6Parser :: "bytes \<Rightarrow> addr option"

text \<open>
  The local variables. \<open>workers\<close> holds the peers whose worker runs - as many as the semaphore has
  slots taken - and \<open>dialled\<close> every peer a worker was started for; \<open>announced\<close> records the event and
  the number of bytes left of every announce. The channel \<open>callerDone\<close> is armed until it fired once.
\<close>

record download =
  dfile :: bytes
  dhave :: bitfield
  completed :: int
  bytesOwned :: int
  dprogress :: progress
  connected :: "addr_port \<Rightarrow> bool"
  workers :: "addr_port list"
  dialled :: "addr_port list"
  minReannounceInterval :: int
  announceInterval :: int
  lastProgress :: int
  lastAnnounce :: int
  downloadComplete :: bool
  callerArmed :: bool
  graceTimer :: bool
  cancelled :: bool
  announced :: "(bytes \<times> int) list"

definition new_download :: "torrent \<Rightarrow> bytes \<Rightarrow> download" where
  "new_download t f =
     \<lparr>dfile = f, dhave = NewHaveBitfield (PieceCount t), completed = 0, bytesOwned = 0,
      dprogress = NewProgress (PieceCount t), connected = (\<lambda>_. False), workers = [], dialled = [],
      minReannounceInterval = stallTimeout, announceInterval = defaultAnnounceInterval,
      lastProgress = 0, lastAnnounce = 0, downloadComplete = False, callerArmed = True,
      graceTimer = False, cancelled = False, announced = []\<rparr>"

section \<open>Announcing\<close>

text \<open>One worker for each peer not seen before, as long as the semaphore has a slot.\<close>

fun dial_peers :: "int \<Rightarrow> addr_port list \<Rightarrow> download \<Rightarrow> download" where
  "dial_peers n [] d = d"
| "dial_peers n (a # as) d =
     (if connected d a then dial_peers n as d
      else if int (length (workers d)) < n
      then dial_peers n as (d\<lparr>connected := (connected d)(a := True), workers := workers d @ [a],
                              dialled := dialled d @ [a]\<rparr>)
      else dial_peers n as d)"

definition bytes_left :: "torrent \<Rightarrow> download \<Rightarrow> int" where
  "bytes_left t d = (let left = i64 (TotalLength t - bytesOwned d) in if left < 0 then 0 else left)"

definition announce :: "download_env \<Rightarrow> http \<Rightarrow> bytes \<Rightarrow> download \<Rightarrow> tracker_error list option \<times> download" where
  "announce env http event d =
     (let t = tor env; left = bytes_left t d; d0 = d\<lparr>announced := announced d @ [(event, left)]\<rparr> in
      case AnnounceAll (urlParser env) (ipv6Parser env) http (torrent.Announce t) (AnnounceList t)
             (\<lambda>url. BuildAnnounceURL (urlParser env) url (InfoHash t) (peerID env) (OptPort (opts env))
                (bytesUploaded (dprogress d)) (bytesDownloaded (dprogress d)) left event) of
        Inl errs \<Rightarrow> (Some errs, d0)
      | Inr resp \<Rightarrow>
          let d1 = (if MinInterval resp > 0 then d0\<lparr>minReannounceInterval := i64 (MinInterval resp * Second)\<rparr> else d0);
              d2 = (if Interval resp > 0 then d1\<lparr>announceInterval := i64 (Interval resp * Second)\<rparr> else d1)
          in (None, dial_peers (max_peers (opts env)) (Peers resp) d2))"

section \<open>The start\<close>

datatype download_error =
    CreateOutput storage_error
  | VerifyExistingData storage_error
  | ResumedPiece int geometry_error
  | InitialAnnounce "tracker_error list"
  | WritePieceError int storage_error
  | SyncError
  | CallerCanceled

text \<open>The loop over the verified pieces; \<open>None\<close> is a panic.\<close>

fun resume :: "torrent \<Rightarrow> int \<Rightarrow> int \<Rightarrow> bool list \<Rightarrow> addr_port coordinator \<times> download \<Rightarrow>
    (download_error, addr_port coordinator \<times> download) result option" where
  "resume t now i [] (c, d) = Some (Inr (c, d))"
| "resume t now i (v # vs) (c, d) =
     (if \<not> v then resume t now (i + 1) vs (c, d)
      else (case Length i (PieceCount t) (PieceLength t) (TotalLength t) of
              Inl DivideByZeroPanic \<Rightarrow> None
            | Inl e \<Rightarrow> Some (Inl (ResumedPiece i e))
            | Inr len \<Rightarrow>
                (case MarkComplete i c of
                   None \<Rightarrow> None
                 | Some c1 \<Rightarrow>
                     resume t now (i + 1) vs
                       (c1, d\<lparr>dhave := have_Set i (dhave d), completed := completed d + 1,
                              bytesOwned := i64 (bytesOwned d + len),
                              dprogress := PieceCompleted now (dprogress d)\<rparr>))))"

text \<open>
  What the disk and the tracker do at the start and at the very end: whether the output file opens and
  can be sized, what it held, how the scan's own open goes (\<open>None\<close>: it finds what \<open>Create\<close> left), the
  order in which the scan's goroutines finish, the clock at the scan and - twice - just before the loop, and
  the first and the last announce.
\<close>

record startup =
  OpenOk :: bool
  TruncateOk :: bool
  Existing :: "bytes option"
  Reopen :: "file_open option"
  ScanOrder :: "nat list"
  StartTime :: int
  ProgressTime :: int
  AnnounceTime :: int
  FirstAnnounce :: http
  LastAnnounce :: http
  FreshSlices :: "nat \<Rightarrow> bitfield"
  FreshSlice :: nat

definition open_and_scan :: "torrent \<Rightarrow> startup \<Rightarrow>
    (download_error, addr_port coordinator \<times> download) result option" where
  "open_and_scan t su =
     (case fst (Create (OpenOk su) (TruncateOk su) (TotalLength t) (Existing su)) of
        Inl e \<Rightarrow> Some (Inl (CreateOutput e))
      | Inr f \<Rightarrow>
          (case VerifyExisting (case Reopen su of None \<Rightarrow> Opened f | Some r \<Rightarrow> r) (ScanOrder su)
                  (PieceCount t) (PieceLength t) (TotalLength t) (PiecesHashes t) of
             Inl MakeSlicePanic \<Rightarrow> None
           | Inl e \<Rightarrow> Some (Inl (VerifyExistingData e))
           | Inr verified \<Rightarrow>
               resume t (StartTime su) 0 verified
                 (NewCoordinator (PieceCount t) (PieceLength t) (TotalLength t) (PiecesHashes t)
                    (Some (NewProgress (PieceCount t))) (Some NewRateTracker) (FreshSlices su) (FreshSlice su),
                  new_download t f)))"

section \<open>The loop\<close>

text \<open>
  What the \<open>select\<close> picks up. \<open>ProgressTick\<close> reads the clock when it fires, after the re-announce of a
  stalled download and after the routine one; \<open>ResultIn\<close> carries the piece, how its write ends, whether
  the sync works, and the clock before and after the announce of a completed download.
\<close>

datatype loop_stimulus =
    CallerDone
  | GraceOver
  | CancelSeen
  | ProgressTick int int int http http
  | ResultIn int bytes write_fault bool int http int
  | WorkerDone addr_port
  | Traffic int int int

datatype step_result =
    Loop download
  | Return "download_error option" download
  | LoopPanic

definition progress_tick :: "download_env \<Rightarrow> int \<Rightarrow> int \<Rightarrow> int \<Rightarrow> http \<Rightarrow> http \<Rightarrow> download \<Rightarrow> download" where
  "progress_tick env now mid fin http1 http2 d =
     (let stalled = now - lastProgress d \<ge> stallTimeout;
          allowedToReannounce = now - lastAnnounce d \<ge> minReannounceInterval d;
          d1 = (if \<not> downloadComplete d \<and> stalled \<and> allowedToReannounce
                then (snd (announce env http1 EventNone d))\<lparr>lastAnnounce := mid\<rparr> else d)
      in if mid - lastAnnounce d1 \<ge> announceInterval d1
         then (snd (announce env http2 EventNone d1))\<lparr>lastAnnounce := fin\<rparr> else d1)"

definition take_result :: "download_env \<Rightarrow> int \<Rightarrow> bytes \<Rightarrow> write_fault \<Rightarrow> bool \<Rightarrow> int \<Rightarrow> http \<Rightarrow> int \<Rightarrow>
    download \<Rightarrow> step_result" where
  "take_result env index data w sync now http fin d =
     (let t = tor env in
      case WritePiece w index (PieceCount t) (PieceLength t) (TotalLength t) data (dfile d) of
        (Some (GeometryError DivideByZeroPanic), _) \<Rightarrow> LoopPanic
      | (Some e, f) \<Rightarrow> Return (Some (WritePieceError index e)) (d\<lparr>dfile := f\<rparr>)
      | (None, f) \<Rightarrow>
          let d1 = d\<lparr>dfile := f, dhave := have_Set index (dhave d), completed := completed d + 1,
                     bytesOwned := i64 (bytesOwned d + int (length data)),
                     dprogress := PieceCompleted now (dprogress d), lastProgress := now\<rparr> in
          if completed d1 = PieceCount t \<and> \<not> downloadComplete d1
          then let d2 = d1\<lparr>downloadComplete := True\<rparr> in
               if \<not> sync then Return (Some SyncError) d2
               else let d3 = (snd (announce env http EventCompleted d2))\<lparr>lastAnnounce := fin\<rparr> in
                    if \<not> OptSeed (opts env) then Return None (d3\<lparr>cancelled := True\<rparr>) else Loop d3
          else Loop d1)"

text \<open>
  A channel that is nil, or whose timer has not been set, is never picked: the step leaves the state
  as it is. By the time the loop sees its own context cancelled the caller's is too.
\<close>

fun step :: "download_env \<Rightarrow> loop_stimulus \<Rightarrow> download \<Rightarrow> step_result" where
  "step env CallerDone d =
     Loop (if callerArmed d then d\<lparr>callerArmed := False, graceTimer := True\<rparr> else d)"
| "step env GraceOver d = Loop (if graceTimer d then d\<lparr>graceTimer := False, cancelled := True\<rparr> else d)"
| "step env CancelSeen d =
     (if cancelled d then Return (if downloadComplete d then None else Some CallerCanceled) d else Loop d)"
| "step env (ProgressTick now mid fin http1 http2) d = Loop (progress_tick env now mid fin http1 http2 d)"
| "step env (ResultIn index data w sync now http fin) d = take_result env index data w sync now http fin d"
| "step env (WorkerDone a) d = Loop (d\<lparr>workers := remove1 a (workers d)\<rparr>)"
| "step env (Traffic now down up) d =
     Loop (d\<lparr>dprogress := AddUploadedBytes now up (AddBytes down (dprogress d))\<rparr>)"

fun main_loop :: "download_env \<Rightarrow> loop_stimulus list \<Rightarrow> download \<Rightarrow> step_result" where
  "main_loop env [] d = Loop d"
| "main_loop env (x # xs) d = (case step env x d of Loop d1 \<Rightarrow> main_loop env xs d1 | r \<Rightarrow> r)"

section \<open>The whole run\<close>

text \<open>
  \<open>Refused\<close> is a return before the tracker knows of us; a return after that makes the deferred
  \<open>stopped\<close> announce. \<open>Running\<close> still waits when the stimuli are used up.
\<close>

datatype outcome =
    Crash
  | Refused download_error
  | Returned "download_error option" download
  | Running download

definition stop_announce :: "download_env \<Rightarrow> http \<Rightarrow> download \<Rightarrow> download" where
  "stop_announce env http d = snd (announce env http EventStopped d)"

definition enter_loop :: "download_env \<Rightarrow> startup \<Rightarrow> loop_stimulus list \<Rightarrow> download \<Rightarrow> step_result" where
  "enter_loop env su xs d =
     (let complete = (completed d = PieceCount (tor env));
          d1 = d\<lparr>lastProgress := ProgressTime su, lastAnnounce := AnnounceTime su, downloadComplete := complete\<rparr> in
      if complete \<and> \<not> OptSeed (opts env) then Return None (d1\<lparr>cancelled := True\<rparr>)
      else main_loop env xs d1)"

definition Download :: "download_env \<Rightarrow> startup \<Rightarrow> loop_stimulus list \<Rightarrow> outcome" where
  "Download env su xs =
     (case open_and_scan (tor env) su of
        None \<Rightarrow> Crash
      | Some (Inl e) \<Rightarrow> Refused e
      | Some (Inr (c, d)) \<Rightarrow>
          (case announce env (FirstAnnounce su) EventStarted d of
             (Some errs, _) \<Rightarrow> Refused (InitialAnnounce errs)
           | (None, d1) \<Rightarrow>
               (case enter_loop env su xs d1 of
                  LoopPanic \<Rightarrow> Crash
                | Loop d2 \<Rightarrow> Running d2
                | Return e d2 \<Rightarrow> Returned e (stop_announce env (LastAnnounce su) d2))))"

end
