(* ===== verification/Coordinator_Races.thy ===== *)
theory Coordinator_Races
  imports Coordinator_Choke
begin

text \<open>
  Orders of events the coordinator does not handle: a failure reported after somebody else completed
  the piece, a bitfield slice shared with the session, and the late departure of a connection that
  was replaced. The runs start from a fresh coordinator and use its handlers and its tick only.
\<close>

section \<open>Runs\<close>

text \<open>
  A run interleaves events, ticks (with the pieces in flight and the connected peers in the order
  the map iteration gives), the moments a session takes the command out of its channel, and the
  bits a session sets in its bitfield slice.
\<close>

datatype stimulus =
    Event "nat event"
  | Tick int "int list" "nat list"
  | Taken nat
  | BitSet nat int

fun stimulate :: "stimulus \<Rightarrow> nat coordinator \<Rightarrow> nat coordinator option" where
  "stimulate (Event ev) c = handle 0 (\<lambda>_. True) True ev c"
| "stimulate (Tick now indices order) c =
     (if list_all (\<lambda>a. peers c a \<noteq> None) order \<and> list_all (\<lambda>i. assignments c i \<noteq> None) indices
      then tick now (\<lambda>_ _. True) indices order order c else None)"
| "stimulate (Taken k) c = Some (c\<lparr>chans := (chans c)(k := [])\<rparr>)"
| "stimulate (BitSet r i) c = Some (c\<lparr>slices := (slices c)(r := SetPiece (slices c r) i)\<rparr>)"

definition play :: "stimulus list \<Rightarrow> nat coordinator \<Rightarrow> nat coordinator option" where
  "play xs c = each stimulate xs c"

section \<open>A failure that comes late\<close>

lemma complete_has_no_assignee:
  assumes "coordinator_ok c" "0 \<le> i" "i < pieceCount c" "pieces c ! nat i = pieceComplete"
  shows "assignees c i = []"
proof -
  have "pieces c ! nat i \<noteq> pieceInFlight" using assms(4) by simp
  then show ?thesis using coordinator_okD(7) [OF assms(1)] unfolding core_def by blast
qed

text \<open>
  Whatever state the download is in, a failure reported for a piece that is already complete
  (and whose data was already handed over) makes the coordinator forget that: the piece is missing
  again and will be downloaded, and handed over, a second time.
\<close>

theorem late_failure_reopens_complete_piece:
  assumes "coord_reachable c" "0 \<le> i" "i < pieceCount c" "pieces c ! nat i = pieceComplete"
  shows "\<exists>c'. handle now coin sent (PieceFailed a i) c = Some c' \<and> pieces c' ! nat i = pieceMissing \<and>
    results c' = results c"
proof -
  note ok = coord_reachable_ok [OF assms(1)]
  have "assignees c i = []" by (rule complete_has_no_assignee [OF ok assms(2-4)])
  then have "handlePieceFailed a i c = Some (upd_peer a (assigned_update (\<lambda>_. -1)) (c\<lparr>pieces := (pieces c)[nat i := pieceMissing]\<rparr>))"
    using assms(2,3) ok by (simp add: handlePieceFailed_def Let_def removeAssignee_def set_piece_def index_ok_piece)
  moreover have "nat i < length (pieces c)" using coordinator_okD(3) [OF ok] assms(2,3) by simp
  ultimately show ?thesis by simp
qed

text \<open>
  Two peers hold the only piece; in endgame both are assigned it. Peer 7 delivers, peer 8 - the
  cancel still in its channel - reports its own copy as bad, and peer 7 is asked once more.
\<close>

definition duplicate_run :: "stimulus list" where
  "duplicate_run =
     [Event (PeerJoined 7 0), Event (BitfieldReceived 7 0), Event (UnchokeReceived 7), Taken 0,
      Event (PeerJoined 8 1), Event (BitfieldReceived 8 1), Event (UnchokeReceived 8),
      Tick (1 * Second) [0] [7, 8], Taken 1,
      Event (PieceDownloaded 7 0 [1]), Event (PieceFailed 8 0), Event (PeerReady 7), Taken 0,
      Event (PieceDownloaded 7 0 [1])]"

lemma duplicate_results:
  "map_option (\<lambda>c. (results c, pieces c)) (play duplicate_run one_piece) = Some ([(0, [1]), (0, [1])], [pieceComplete])"
  unfolding duplicate_run_def play_def by code_simp

lemma late_failure_reopens_complete_piece_start:
  "\<exists>c. each MarkComplete [0] one_piece = Some c \<and> coord_reachable c \<and> pieceCount c = 1 \<and> pieces c = [pieceComplete]"
proof -
  have "each MarkComplete [0] one_piece = Some (one_piece\<lparr>pieces := [pieceComplete]\<rparr>)"
    by (simp add: one_piece_def NewCoordinator_def MarkComplete_def set_piece_def index_ok_def)
  moreover from this have "coord_reachable (one_piece\<lparr>pieces := [pieceComplete]\<rparr>)"
    unfolding one_piece_def by (rule coord_reachable.start [rotated 3]) simp_all
  ultimately show ?thesis by (auto simp: one_piece_def NewCoordinator_def)
qed

theorem late_failure_reopens_complete_piece_witness:
  "\<exists>c c'. each MarkComplete [0] one_piece = Some c \<and> pieces c = [pieceComplete] \<and>
    handle 0 (\<lambda>_. True) True (PieceFailed 8 0) c = Some c' \<and> pieces c' ! nat 0 = pieceMissing"
proof -
  obtain c where c: "each MarkComplete [0] one_piece = Some c" "coord_reachable c" "pieceCount c = 1"
      "pieces c = [pieceComplete]"
    using late_failure_reopens_complete_piece_start by blast
  show ?thesis
    using late_failure_reopens_complete_piece [OF c(2), of 0 0 "\<lambda>_. True" True 8] c by auto
qed

section \<open>Availability and the shared slice\<close>

text \<open>
  The coordinator keeps the very slice a session got its bitfield in, and the session sets the bit of
  a later \<open>have\<close> in it before it reports the \<open>have\<close>: the coordinator finds the bit set, takes the
  report for a redundant one and does not count the piece - but subtracts it when the peer leaves.
\<close>

definition shared_slice_run :: "stimulus list" where
  "shared_slice_run =
     [Event (PeerJoined 7 0), Event (BitfieldReceived 7 2), BitSet 2 0, Event (HaveReceived 7 0), Event (PeerLeft 7)]"

definition empty_slices :: "nat coordinator" where
  "empty_slices = one_piece\<lparr>slices := (\<lambda>_. [0])\<rparr>"

text \<open>
  After a peer announced its only piece by a \<open>have\<close> and left, the availability of that piece is
  -1 with nobody connected; had the session kept its own copy of the bitfield, it would be 0.
\<close>

theorem availability_goes_negative:
  "map_option (\<lambda>c. (availability c, peers c 7 = None)) (play shared_slice_run empty_slices) = Some ([-1], True) \<and>
   map_option (\<lambda>c. (availability c, peers c 7 = None))
     (play (filter (\<lambda>x. case x of BitSet _ _ \<Rightarrow> False | _ \<Rightarrow> True) shared_slice_run) empty_slices) = Some ([0], True)"
  unfolding shared_slice_run_def play_def by code_simp

text \<open>A \<open>have\<close> that comes before the bitfield is counted twice.\<close>

lemma have_before_bitfield_counts_twice:
  "map_option availability (play [Event (PeerJoined 7 0), Event (HaveReceived 7 0), Event (BitfieldReceived 7 2)] one_piece) =
    Some [2]"
  unfolding play_def by code_simp

section \<open>A connection that was replaced\<close>

text \<open>
  A second connection from an address replaces the first one's entry; the departure of the first,
  reported later, then removes the entry of the second, which is still connected.
\<close>

lemma replaced_connection_evicts:
  assumes "coord_reachable c"
  shows "\<exists>c1 c2. handle now coin sent (PeerJoined a k) c = Some c1 \<and> peers c1 a \<noteq> None \<and>
    handle now coin sent (PeerLeft a) c1 = Some c2 \<and> peers c2 a = None"
proof -
  obtain c1 where c1: "handlePeerJoined a k c = Some c1" "coordinator_ok c1"
    using ok_handlePeerJoined [OF coord_reachable_ok [OF assms]] by blast
  then have "peers c1 a \<noteq> None"
    by (auto simp: handlePeerJoined_def split: bind_splits)
  then show ?thesis using c1(1) ok_handlePeerLeft [OF c1(2), of a] by auto
qed

end
