(* ===== verification/Download_Inv.thy ===== *)
theory Download_Inv
  imports Download Session_Props Coordinator_Races
begin

text \<open>
  The invariants of a run of \<open>Download\<close>. The locale \<open>run_invariant\<close> is the shape of every argument about
  the main loop - a condition on the state and the stimuli still to come that each step keeps, and a
  condition each return satisfies; it is interpreted for the dialling of peers, the truthfulness of
  the have bitfield, the accounting of a run without duplicate results, and the order of announces.
\<close>

section \<open>Invariants of the loop\<close>

locale run_invariant =
  fixes ok :: "download_env \<Rightarrow> loop_stimulus list \<Rightarrow> download \<Rightarrow> bool"
    and ret :: "download_env \<Rightarrow> download_error option \<Rightarrow> download \<Rightarrow> bool"
  assumes step_ok: "ok env (x # xs) d \<Longrightarrow> step env x d = Loop d1 \<Longrightarrow> ok env xs d1"
    and step_ret: "ok env (x # xs) d \<Longrightarrow> step env x d = Return e d1 \<Longrightarrow> ret env e d1"
begin

lemma main_loop_ok:
  "ok env xs d \<Longrightarrow> main_loop env xs d = Loop d1 \<Longrightarrow> ok env [] d1"
  "ok env xs d \<Longrightarrow> main_loop env xs d = Return e d1 \<Longrightarrow> ret env e d1"
proof (induction env xs d rule: main_loop.induct)
  case (2 env x xs d)
  {
    case 1
    then show ?case using 2(1) step_ok [of env x xs d] by (cases "step env x d") auto
  next
    case 2
    then show ?case using "2.IH"(2) step_ok [of env x xs d] step_ret [of env x xs d] by (cases "step env x d") auto
  }
qed simp_all

lemma enter_loop_ok:
  assumes "ok env xs (d\<lparr>lastProgress := ProgressTime su, lastAnnounce := AnnounceTime su,
      downloadComplete := completed d = PieceCount (tor env)\<rparr>)"
    and "completed d = PieceCount (tor env) \<Longrightarrow> ret env None (d\<lparr>lastProgress := ProgressTime su,
      lastAnnounce := AnnounceTime su, downloadComplete := True, cancelled := True\<rparr>)"
  shows "enter_loop env su xs d = Loop d1 \<Longrightarrow> ok env [] d1" "enter_loop env su xs d = Return e d1 \<Longrightarrow> ret env e d1"
  using assms main_loop_ok by (auto simp: enter_loop_def Let_def split: if_splits)

end

text \<open>A run that got into the loop.\<close>

definition begins :: "download_env \<Rightarrow> startup \<Rightarrow> addr_port coordinator \<Rightarrow> download \<Rightarrow> download \<Rightarrow> bool" where
  "begins env su c d d1 \<longleftrightarrow> open_and_scan (tor env) su = Some (Inr (c, d)) \<and>
     announce env (FirstAnnounce su) EventStarted d = (None, d1)"

lemma Download_begins:
  "begins env su c d d1 \<Longrightarrow> Download env su xs = (case enter_loop env su xs d1 of LoopPanic \<Rightarrow> Crash
     | Loop d2 \<Rightarrow> Running d2 | Return e d2 \<Rightarrow> Returned e (stop_announce env (LastAnnounce su) d2))"
  by (simp add: begins_def Download_def)

lemma Download_Running:
  assumes "Download env su xs = Running d2"
  obtains c d d1 where "begins env su c d d1" "enter_loop env su xs d1 = Loop d2"
  using assms
  by (auto simp: Download_def begins_def split: option.splits sum.splits prod.splits step_result.splits)

lemma Download_Returned:
  assumes "Download env su xs = Returned e d2"
  obtains c d d1 d3 where "begins env su c d d1" "enter_loop env su xs d1 = Return e d3"
    "d2 = stop_announce env (LastAnnounce su) d3"
  using assms
  by (auto simp: Download_def begins_def split: option.splits sum.splits prod.splits step_result.splits)

section \<open>Announcing\<close>

text \<open>An announce leaves the download alone: only the record of announces, the intervals and the workers change.\<close>

definition same_data :: "download \<Rightarrow> download \<Rightarrow> bool" where
  "same_data d e \<longleftrightarrow> dfile e = dfile d \<and> dhave e = dhave d \<and> completed e = completed d \<and>
     bytesOwned e = bytesOwned d \<and> downloadComplete e = downloadComplete d \<and> dprogress e = dprogress d \<and>
     callerArmed e = callerArmed d \<and> graceTimer e = graceTimer d \<and> cancelled e = cancelled d \<and>
     lastProgress e = lastProgress d \<and> lastAnnounce e = lastAnnounce d"

lemma dial_peers_same: "same_data d (dial_peers n ps d) \<and> announced (dial_peers n ps d) = announced d"
  by (induction n ps d rule: dial_peers.induct) (auto simp: same_data_def)

lemma announce_same:
  "same_data d (snd (announce env http event d))"
  "announced (snd (announce env http event d)) = announced d @ [(event, bytes_left (tor env) d)]"
  using dial_peers_same
  by (auto simp: announce_def Let_def same_data_def split: sum.splits)

lemmas announce_data [simp] = announce_same(1) [unfolded same_data_def, THEN conjunct1]
  announce_same(1) [unfolded same_data_def, THEN conjunct2, THEN conjunct1]
  announce_same(1) [unfolded same_data_def, THEN conjunct2, THEN conjunct2, THEN conjunct1]
  announce_same(1) [unfolded same_data_def, THEN conjunct2, THEN conjunct2, THEN conjunct2, THEN conjunct1]
  announce_same(1) [unfolded same_data_def, THEN conjunct2, THEN conjunct2, THEN conjunct2, THEN conjunct2, THEN conjunct1]

section \<open>Dialling\<close>

definition dial_ok :: "download_env \<Rightarrow> download \<Rightarrow> bool" where
  "dial_ok env d \<longleftrightarrow> distinct (dialled d) \<and> (\<forall>a. connected d a \<longleftrightarrow> a \<in> set (dialled d)) \<and>
     set (workers d) \<subseteq> set (dialled d) \<and> int (length (workers d)) \<le> max_peers (opts env)"

lemma max_peers_pos: "0 < max_peers p"
  by (simp add: max_peers_def defaultMaxPeers_def)

lemma dial_peers_ok: "dial_ok env d \<Longrightarrow> dial_ok env (dial_peers (max_peers (opts env)) ps d)"
proof (induction ps arbitrary: d)
  case (Cons a ps)
  have "dial_ok env (d\<lparr>connected := (connected d)(a := True), workers := workers d @ [a], dialled := dialled d @ [a]\<rparr>)"
    if "\<not> connected d a" "int (length (workers d)) < max_peers (opts env)"
    using that Cons.prems by (auto simp: dial_ok_def)
  then show ?case using Cons by simp
qed simp

lemma announce_dial_ok: "dial_ok env d \<Longrightarrow> dial_ok env (snd (announce env http event d))"
  unfolding announce_def Let_def
  by (auto split: sum.splits intro!: dial_peers_ok) (simp_all add: dial_ok_def)

lemma dial_ok_updates [simp]:
  "dial_ok env (d\<lparr>lastAnnounce := n\<rparr>) = dial_ok env d" "dial_ok env (d\<lparr>lastProgress := n\<rparr>) = dial_ok env d"
  "dial_ok env (d\<lparr>dfile := f\<rparr>) = dial_ok env d" "dial_ok env (d\<lparr>dhave := h\<rparr>) = dial_ok env d"
  "dial_ok env (d\<lparr>completed := n\<rparr>) = dial_ok env d" "dial_ok env (d\<lparr>bytesOwned := n\<rparr>) = dial_ok env d"
  "dial_ok env (d\<lparr>dprogress := p\<rparr>) = dial_ok env d" "dial_ok env (d\<lparr>downloadComplete := b\<rparr>) = dial_ok env d"
  "dial_ok env (d\<lparr>callerArmed := b\<rparr>) = dial_ok env d" "dial_ok env (d\<lparr>graceTimer := b\<rparr>) = dial_ok env d"
  "dial_ok env (d\<lparr>cancelled := b\<rparr>) = dial_ok env d"
  by (simp_all add: dial_ok_def)

lemma progress_tick_dial_ok: "dial_ok env d \<Longrightarrow> dial_ok env (progress_tick env now mid fin h1 h2 d)"
  unfolding progress_tick_def Let_def by (simp add: announce_dial_ok)

section \<open>A result arrives\<close>

text \<open>The state once the piece is written and counted, and the outcomes of the step.\<close>

definition counted :: "int \<Rightarrow> int \<Rightarrow> bytes \<Rightarrow> bytes \<Rightarrow> download \<Rightarrow> download" where
  "counted now i data f d = d\<lparr>dfile := f, dhave := have_Set i (dhave d), completed := completed d + 1,
     bytesOwned := i64 (bytesOwned d + int (length data)),
     dprogress := PieceCompleted now (dprogress d), lastProgress := now\<rparr>"

lemma take_result_cases:
  assumes "take_result env i data w sync now http fin d = r" "r \<noteq> LoopPanic"
  obtains (unwritten) e f where "r = Return (Some (WritePieceError i e)) (d\<lparr>dfile := f\<rparr>)"
  | (more) f where "WritePiece w i (PieceCount (tor env)) (PieceLength (tor env)) (TotalLength (tor env)) data (dfile d) = (None, f)"
      "r = Loop (counted now i data f d)" "completed d + 1 \<noteq> PieceCount (tor env) \<or> downloadComplete d"
  | (unsynced) f where "WritePiece w i (PieceCount (tor env)) (PieceLength (tor env)) (TotalLength (tor env)) data (dfile d) = (None, f)"
      "r = Return (Some SyncError) ((counted now i data f d)\<lparr>downloadComplete := True\<rparr>)"
  | (finished) f d1 where "WritePiece w i (PieceCount (tor env)) (PieceLength (tor env)) (TotalLength (tor env)) data (dfile d) = (None, f)"
      "completed d + 1 = PieceCount (tor env)" "\<not> downloadComplete d"
      "d1 = (snd (announce env http EventCompleted ((counted now i data f d)\<lparr>downloadComplete := True\<rparr>)))\<lparr>lastAnnounce := fin\<rparr>"
      "r = (if OptSeed (opts env) then Loop d1 else Return None (d1\<lparr>cancelled := True\<rparr>))"
proof -
  obtain we f where w: "WritePiece w i (PieceCount (tor env)) (PieceLength (tor env)) (TotalLength (tor env)) data (dfile d) = (we, f)"
    by fastforce
  show thesis
  proof (cases we)
    case None
    note w = w [unfolded None]
    let ?d1 = "(counted now i data f d)\<lparr>downloadComplete := True\<rparr>"
    consider (m) "completed d + 1 \<noteq> PieceCount (tor env) \<or> downloadComplete d"
      | (u) "completed d + 1 = PieceCount (tor env)" "\<not> downloadComplete d" "\<not> sync"
      | (f) "completed d + 1 = PieceCount (tor env)" "\<not> downloadComplete d" sync by blast
    then show thesis
    proof cases
      case m
      then have "r = Loop (counted now i data f d)"
        using assms(1) w by (auto simp: take_result_def counted_def Let_def)
      then show thesis by (rule more [OF w _ m])
    next
      case u
      then have "r = Return (Some SyncError) ?d1"
        using assms(1) w by (simp add: take_result_def counted_def Let_def)
      then show thesis by (rule unsynced [OF w])
    next
      case f
      let ?d2 = "(snd (announce env http EventCompleted ?d1))\<lparr>lastAnnounce := fin\<rparr>"
      have "r = (if OptSeed (opts env) then Loop ?d2 else Return None (?d2\<lparr>cancelled := True\<rparr>))"
        unfolding assms(1) [symmetric] using w f
        by (cases "OptSeed (opts env)") (simp_all add: take_result_def counted_def Let_def)
      then show thesis by (rule finished [OF w f(1,2) refl])
    qed
  next
    case (Some e)
    then show thesis
      using assms w unwritten [of e f]
      by (cases e) (auto simp: take_result_def split: geometry_error.splits)
  qed
qed

lemma dial_ok_counted [simp]: "dial_ok env (counted now i data f d) = dial_ok env d"
  by (simp add: counted_def)

lemma take_result_dial_ok:
  assumes "dial_ok env d" "take_result env i data w sync now http fin d = r" "r \<noteq> LoopPanic"
  shows "case r of Loop d1 \<Rightarrow> dial_ok env d1 | Return e d1 \<Rightarrow> dial_ok env d1 | LoopPanic \<Rightarrow> True"
proof (rule take_result_cases [OF assms(2,3)], goal_cases)
  case (4 f d1)
  have "dial_ok env d1" using assms(1) unfolding 4(4) by (simp add: announce_dial_ok)
  then show ?case using 4(5) by simp
qed (use assms(1) in simp_all)

lemma dial_ok_steps:
  assumes "dial_ok env d"
  shows "step env x d = Loop d1 \<Longrightarrow> dial_ok env d1" "step env x d = Return e d1 \<Longrightarrow> dial_ok env d1"
proof -
  have r: "dial_ok env (d\<lparr>workers := remove1 a (workers d)\<rparr>)" for a
    using assms set_remove1_subset [of a "workers d"] by (auto simp: dial_ok_def length_remove1)
  have t: "take_result env i data w sync now http fin d = Loop d1 \<Longrightarrow> dial_ok env d1"
    "take_result env i data w sync now http fin d = Return e d1 \<Longrightarrow> dial_ok env d1" for i data w sync now http fin
    using take_result_dial_ok [OF assms, of i data w sync now http fin "Loop d1"]
      take_result_dial_ok [OF assms, of i data w sync now http fin "Return e d1"] by simp_all
  show "step env x d = Loop d1 \<Longrightarrow> dial_ok env d1"
    using assms r by (cases x) (auto simp: progress_tick_dial_ok split: if_splits dest: t)
  show "step env x d = Return e d1 \<Longrightarrow> dial_ok env d1"
    using assms by (cases x) (auto split: if_splits dest: t)
qed

interpretation dialling: run_invariant "\<lambda>env xs d. dial_ok env d" "\<lambda>env e d. dial_ok env d"
  by unfold_locales (blast intro: dial_ok_steps)+

section \<open>What is on disk\<close>

definition geom_of :: "torrent \<Rightarrow> geometry" where
  "geom_of t = (PieceCount t, PieceLength t, TotalLength t)"

definition torrent_fits :: "torrent \<Rightarrow> bool" where
  "torrent_fits t \<longleftrightarrow> geometry_ok (geom_of t) \<and> (\<forall>h \<in> set (PiecesHashes t). length h = 20)"

definition piece_bytes :: "torrent \<Rightarrow> bytes \<Rightarrow> int \<Rightarrow> bytes" where
  "piece_bytes t f i = slice_of f (piece_lo (geom_of t) i) (piece_hi (geom_of t) i)"

definition on_disk :: "torrent \<Rightarrow> bytes \<Rightarrow> int \<Rightarrow> bool" where
  "on_disk t f i \<longleftrightarrow> 0 \<le> i \<and> i < PieceCount t \<and> sha1_Sum (piece_bytes t f i) = PiecesHashes t ! nat i"

definition authentic :: "torrent \<Rightarrow> int \<Rightarrow> bytes \<Rightarrow> bool" where
  "authentic t i data \<longleftrightarrow> 0 \<le> i \<and> i < PieceCount t \<and> int (length data) = piece_len i (geom_of t) \<and>
     sha1_Sum data = PiecesHashes t ! nat i"

text \<open>The piece store of \<open>Storage\<close>, as the loop uses it.\<close>

lemma written_on_disk:
  assumes "torrent_fits t" "file_ok (geom_of t) f" "authentic t i data"
    and "WritePiece w i (PieceCount t) (PieceLength t) (TotalLength t) data f = (None, f')"
  shows "file_ok (geom_of t) f'" "on_disk t f' j \<longleftrightarrow> j = i \<or> on_disk t f j"
proof -
  note g = conjunct1 [OF assms(1) [unfolded torrent_fits_def]]
  have i: "0 \<le> i" "i < fst (geom_of t)" "int (length data) = piece_len i (geom_of t)"
    using assms(3) by (simp_all add: authentic_def geom_of_def)
  have "w = None"
    using assms(4) piece_range(1,2) [OF g [unfolded geom_of_def] i(1)] i(2)
    by (cases w) (simp_all add: WritePiece_def geom_of_def)
  then have f': "f' = file_wr (geom_of t) i data f" using assms(4) by (simp add: file_wr_def geom_of_def)
  show ok: "file_ok (geom_of t) f'" unfolding f' using disk.wr_ok [OF g assms(2) i(1,2)] i(3) by simp
  have rd: "file_rd (geom_of t) k h = Some (piece_bytes t h k)" if "file_ok (geom_of t) h" "0 \<le> k" "k < PieceCount t" for h k
    using file_rd_eq [OF g that(1,2)] that(3) by (simp add: piece_bytes_def geom_of_def)
  have "piece_bytes t f' i = data"
    using disk.rd_same [OF g assms(2) i] rd [OF ok] i by (simp add: f' geom_of_def)
  moreover have "piece_bytes t f' j = piece_bytes t f j" if "j \<noteq> i" "0 \<le> j" "j < PieceCount t"
    using disk.rd_other [OF g assms(2) i(1,2), of data j] that i(3) rd [OF ok that(2,3)] rd [OF assms(2) that(2,3)]
    by (simp add: f' geom_of_def)
  ultimately show "on_disk t f' j \<longleftrightarrow> j = i \<or> on_disk t f j"
    using assms(3) by (cases "j = i") (auto simp: on_disk_def authentic_def)
qed

text \<open>What the client believes to hold, and the sense in which that is true.\<close>

definition held :: "download \<Rightarrow> int set" where
  "held d = {i. HasPiece (dhave d) i}"

definition truthful :: "torrent \<Rightarrow> download \<Rightarrow> bool" where
  "truthful t d \<longleftrightarrow> file_ok (geom_of t) (dfile d) \<and> PieceCount t \<le> 8 * int (length (dhave d)) \<and>
     (\<forall>i \<in> held d. on_disk t (dfile d) i)"

definition accounted :: "torrent \<Rightarrow> download \<Rightarrow> bool" where
  "accounted t d \<longleftrightarrow> truthful t d \<and> completed d = int (card (held d)) \<and>
     bytesOwned d = (\<Sum>i \<in> held d. piece_len i (geom_of t))"

lemma held_counted:
  assumes "truthful t d" "authentic t i data"
  shows "held (counted now i data f d) = insert i (held d)"
  using assms by (auto simp: held_def counted_def have_Set_def HasPiece_SetPiece truthful_def authentic_def)

lemma truthful_counted:
  assumes "torrent_fits t" "truthful t d" "authentic t i data"
    and "WritePiece w i (PieceCount t) (PieceLength t) (TotalLength t) data (dfile d) = (None, f)"
  shows "truthful t (counted now i data f d)"
proof -
  have d: "file_ok (geom_of t) (dfile d)" using assms(2) by (simp add: truthful_def)
  note w = written_on_disk [OF assms(1) d assms(3,4)]
  show ?thesis
    using assms(2) w held_counted [OF assms(2,3), of now f]
    by (auto simp: truthful_def) (simp_all add: counted_def have_Set_def)
qed

lemma held_range: "truthful t d \<Longrightarrow> held d \<subseteq> {0..<PieceCount t}"
  by (auto simp: truthful_def on_disk_def)

lemma finite_held [simp]: "finite (held d)"
  using bits.finite_has by (simp add: held_def)

lemma lengths_sum:
  assumes "torrent_fits t"
  shows "(\<Sum>i = 0..<PieceCount t. piece_len i (geom_of t)) = TotalLength t"
    and "H \<subseteq> {0..<PieceCount t} \<Longrightarrow> 0 \<le> (\<Sum>i \<in> H. piece_len i (geom_of t)) \<and> (\<Sum>i \<in> H. piece_len i (geom_of t)) \<le> TotalLength t"
proof -
  have g: "geometry_ok (PieceCount t, PieceLength t, TotalLength t)" using assms by (simp add: torrent_fits_def geom_of_def)
  have e: "piece_len i (geom_of t) = piece_hi (geom_of t) i - piece_lo (geom_of t) i" "0 \<le> piece_len i (geom_of t)"
    if "i \<in> {0..<PieceCount t}" for i
    using piece_hi_len [OF g, of i] Length_piece_len(2) [OF g, of i] that by (simp_all add: geom_of_def)
  have "(\<Sum>i = 0..<PieceCount t. piece_hi (geom_of t) i - piece_lo (geom_of t) i) = TotalLength t"
    using pieces.sum_lengths [OF g] by (simp add: geom_of_def)
  then show s: "(\<Sum>i = 0..<PieceCount t. piece_len i (geom_of t)) = TotalLength t"
    using sum.cong [OF refl e(1), of "{0..<PieceCount t}"] by simp
  assume H: "H \<subseteq> {0..<PieceCount t}"
  have "(\<Sum>i \<in> H. piece_len i (geom_of t)) \<le> (\<Sum>i = 0..<PieceCount t. piece_len i (geom_of t))"
    using H e(2) by (intro sum_mono2) auto
  moreover have "0 \<le> (\<Sum>i \<in> H. piece_len i (geom_of t))" using H e(2) by (intro sum_nonneg) auto
  ultimately show "0 \<le> (\<Sum>i \<in> H. piece_len i (geom_of t)) \<and> (\<Sum>i \<in> H. piece_len i (geom_of t)) \<le> TotalLength t"
    using s by simp
qed

lemma total_bounds: "torrent_fits t \<Longrightarrow> 0 < TotalLength t \<and> TotalLength t < 2 ^ 63"
  by (simp add: torrent_fits_def geom_of_def geometry_ok.simps)

text \<open>One more piece: a result that was written, or a piece the scan found.\<close>

lemma accounted_insert:
  assumes "torrent_fits t" "accounted t d" "i \<notin> held d" "truthful t e" "held e = insert i (held d)"
    and "completed e = completed d + 1" "bytesOwned e = i64 (bytesOwned d + piece_len i (geom_of t))"
  shows "accounted t e"
proof -
  have sum: "(\<Sum>i \<in> insert i (held d). piece_len i (geom_of t)) = bytesOwned d + piece_len i (geom_of t)"
    using assms(2,3) by (simp add: accounted_def)
  have "0 \<le> bytesOwned d + piece_len i (geom_of t)" "bytesOwned d + piece_len i (geom_of t) \<le> TotalLength t"
    using lengths_sum(2) [OF assms(1) held_range [OF assms(4)]] unfolding assms(5) sum by simp_all
  then have "bytesOwned e = bytesOwned d + piece_len i (geom_of t)"
    using total_bounds [OF assms(1)] assms(7) i64_id [of "bytesOwned d + piece_len i (geom_of t)"] by simp
  then show ?thesis
    using assms(2-6) sum unfolding accounted_def assms(5) by simp
qed

lemma accounted_counted:
  assumes "torrent_fits t" "accounted t d" "authentic t i data" "i \<notin> held d"
    and "WritePiece w i (PieceCount t) (PieceLength t) (TotalLength t) data (dfile d) = (None, f)"
  shows "accounted t (counted now i data f d)"
proof -
  have tr: "truthful t d" using assms(2) by (simp add: accounted_def)
  show ?thesis
    using truthful_counted [OF assms(1) tr assms(3,5), of now] held_counted [OF tr assms(3), of now f] assms(3)
    by (intro accounted_insert [OF assms(1,2,4)]) (simp_all add: counted_def authentic_def)
qed

text \<open>When the count is right, reaching the piece count means having everything.\<close>

lemma accounted_all:
  assumes "torrent_fits t" "accounted t d" "completed d = PieceCount t"
  shows "held d = {0..<PieceCount t}" "bytes_left t d = 0" "\<And>i. 0 \<le> i \<Longrightarrow> i < PieceCount t \<Longrightarrow> on_disk t (dfile d) i"
proof -
  have tr: "truthful t d" using assms(2) by (simp add: accounted_def)
  have "card (held d) = card {0..<PieceCount t}" using assms(2,3) by (simp add: accounted_def PieceCount_def)
  then show h: "held d = {0..<PieceCount t}" using held_range [OF tr] by (intro card_subset_eq) auto
  then show "\<And>i. 0 \<le> i \<Longrightarrow> i < PieceCount t \<Longrightarrow> on_disk t (dfile d) i" using tr by (auto simp: truthful_def)
  have "bytesOwned d = TotalLength t" using assms(2) h lengths_sum(1) [OF assms(1)] by (simp add: accounted_def)
  then show "bytes_left t d = 0" by (simp add: bytes_left_def Let_def i64_id)
qed

section \<open>The start\<close>

text \<open>The pieces the scan marked, from index \<open>i\<close> on, and what the resume loop makes of them.\<close>

fun marked :: "int \<Rightarrow> bool list \<Rightarrow> int list" where
  "marked i [] = []"
| "marked i (v # vs) = (if v then i # marked (i + 1) vs else marked (i + 1) vs)"

lemma marked_set: "j \<in> set (marked i vs) \<longleftrightarrow> i \<le> j \<and> j < i + int (length vs) \<and> vs ! nat (j - i)"
proof (induction vs arbitrary: i)
  case (Cons v vs)
  have e: "nat (j - i) = Suc (nat (j - (i + 1)))" if "i < j" using that by linarith
  show ?case
  proof (cases "i < j")
    case True
    then show ?thesis using Cons [of "i + 1"] e by auto
  next
    case False
    then show ?thesis using Cons [of "i + 1"] by (cases "i = j") auto
  qed
qed simp

lemma MarkComplete_ok:
  "0 \<le> i \<Longrightarrow> i < int (length (pieces c)) \<Longrightarrow> MarkComplete i c = Some (c\<lparr>pieces := (pieces c)[nat i := pieceComplete]\<rparr>)"
  by (simp add: MarkComplete_def set_piece_def index_ok_def)

lemma each_MarkComplete_count: "each MarkComplete is c = Some c' \<Longrightarrow> pieceCount c' = pieceCount c"
  by (induction "is" arbitrary: c)
    (auto simp: MarkComplete_def set_piece_def split: bind_splits if_splits)

lemma resume_ok:
  assumes "torrent_fits t" "accounted t d" "0 \<le> i" "held d \<subseteq> {0..<i}" "i + int (length vs) \<le> PieceCount t"
    and "\<forall>j \<in> set (marked i vs). on_disk t (dfile d) j" and "int (length (pieces c)) = PieceCount t"
  shows "\<exists>c' d'. resume t now i vs (c, d) = Some (Inr (c', d')) \<and> each MarkComplete (marked i vs) c = Some c' \<and>
    int (length (pieces c')) = PieceCount t \<and>
    (\<forall>j. 0 \<le> j \<and> j < PieceCount t \<longrightarrow> pieces c' ! nat j = (if j \<in> set (marked i vs) then pieceComplete else pieces c ! nat j)) \<and>
    accounted t d' \<and> held d' = held d \<union> set (marked i vs) \<and> dfile d' = dfile d"
  using assms(2-)
proof (induction vs arbitrary: i c d)
  case (Cons v vs)
  show ?case
  proof (cases v)
    case False
    have "held d \<subseteq> {0..<i + 1}" using Cons.prems(3) by auto
    then show ?thesis using Cons.IH [of d "i + 1" c] Cons.prems False by simp
  next
    case True
    have g: "geometry_ok (PieceCount t, PieceLength t, TotalLength t)" using assms(1) by (simp add: torrent_fits_def geom_of_def)
    have i: "0 \<le> i" "i < PieceCount t" using Cons.prems by simp_all
    have L: "Length i (PieceCount t) (PieceLength t) (TotalLength t) = Inr (piece_len i (geom_of t))"
      using Length_piece_len(1) [OF g i] by (simp add: geom_of_def)
    let ?d = "d\<lparr>dhave := have_Set i (dhave d), completed := completed d + 1,
      bytesOwned := i64 (bytesOwned d + piece_len i (geom_of t)), dprogress := PieceCompleted now (dprogress d)\<rparr>"
    let ?c = "c\<lparr>pieces := (pieces c)[nat i := pieceComplete]\<rparr>"
    have tr: "truthful t d" using Cons.prems(1) by (simp add: accounted_def)
    have h: "held ?d = insert i (held d)"
      using tr i by (auto simp: held_def have_Set_def HasPiece_SetPiece truthful_def)
    have "on_disk t (dfile d) i" using Cons.prems(5) True by simp
    then have "truthful t ?d" using tr h by (auto simp: truthful_def) (simp_all add: have_Set_def)
    then have ac: "accounted t ?d"
      using Cons.prems(3) h by (intro accounted_insert [OF assms(1) Cons.prems(1)]) auto
    have m: "MarkComplete i c = Some ?c" by (rule MarkComplete_ok) (use i Cons.prems(6) in simp_all)
    have notin: "i \<notin> set (marked (i + 1) vs)" by (simp add: marked_set)
    have H: "0 \<le> i + 1" "held ?d \<subseteq> {0..<i + 1}" "i + 1 + int (length vs) \<le> PieceCount t"
      "\<forall>j \<in> set (marked (i + 1) vs). on_disk t (dfile ?d) j" "int (length (pieces ?c)) = PieceCount t"
      using Cons.prems True h by auto
    obtain c' d' where IH: "resume t now (i + 1) vs (?c, ?d) = Some (Inr (c', d'))"
      "each MarkComplete (marked (i + 1) vs) ?c = Some c'" "int (length (pieces c')) = PieceCount t"
      "\<forall>j. 0 \<le> j \<and> j < PieceCount t \<longrightarrow> pieces c' ! nat j = (if j \<in> set (marked (i + 1) vs) then pieceComplete else pieces ?c ! nat j)"
      "accounted t d'" "held d' = held ?d \<union> set (marked (i + 1) vs)" "dfile d' = dfile ?d"
      using Cons.IH [OF ac H] by - (elim exE conjE, rule that)
    have p: "pieces ?c ! nat j = (if j = i then pieceComplete else pieces c ! nat j)" if "0 \<le> j" "j < PieceCount t" for j
      using that i Cons.prems(6) by (auto simp: nth_list_update)
    show ?thesis
      using IH p notin h True L m by (intro exI [of _ c'] exI [of _ d']) auto
  qed
qed auto

definition same_control :: "download \<Rightarrow> download \<Rightarrow> bool" where
  "same_control d e \<longleftrightarrow> connected e = connected d \<and> workers e = workers d \<and> dialled e = dialled d \<and>
     announced e = announced d \<and> callerArmed e = callerArmed d \<and> graceTimer e = graceTimer d \<and>
     cancelled e = cancelled d \<and> downloadComplete e = downloadComplete d"

lemma resume_control: "resume t now i vs (c, d) = Some (Inr (c', d')) \<Longrightarrow> same_control d d'"
  by (induction vs arbitrary: i c d)
    (auto simp: same_control_def split: if_splits sum.splits geometry_error.splits option.splits)

lemma open_and_scan_control:
  assumes "open_and_scan t su = Some (Inr (c, d))"
  shows "\<exists>f. same_control (new_download t f) d"
  using assms unfolding open_and_scan_def
  by (auto split: sum.splits storage_error.splits dest: resume_control)

lemma begins_control: "begins env su c d d1 \<Longrightarrow> \<exists>f. same_control (new_download (tor env) f) d"
  unfolding begins_def using open_and_scan_control by blast

text \<open>A start in which the disk works: the scan reads the file \<open>Create\<close> left.\<close>

definition scan_fits :: "torrent \<Rightarrow> startup \<Rightarrow> bool" where
  "scan_fits t su \<longleftrightarrow> OpenOk su \<and> TruncateOk su \<and> Reopen su = None \<and> set (ScanOrder su) = {..<nat (PieceCount t)}"

definition found_file :: "torrent \<Rightarrow> startup \<Rightarrow> bytes" where
  "found_file t su = truncate_to (nat (TotalLength t)) (case Existing su of None \<Rightarrow> [] | Some f \<Rightarrow> f)"

lemma open_and_scan_ok:
  assumes "torrent_fits t" "scan_fits t su"
  shows "\<exists>c d. open_and_scan t su = Some (Inr (c, d)) \<and> coord_reachable c \<and> accounted t d \<and> dfile d = found_file t su \<and>
    held d = {i. on_disk t (found_file t su) i} \<and> pieceCount c = PieceCount t \<and>
    (\<forall>i. 0 \<le> i \<and> i < PieceCount t \<longrightarrow> (pieces c ! nat i = pieceComplete) = on_disk t (found_file t su) i)"
proof -
  let ?f = "found_file t su" and ?d = "new_download t (found_file t su)"
  let ?c = "NewCoordinator (PieceCount t) (PieceLength t) (TotalLength t) (PiecesHashes t)
    (Some (NewProgress (PieceCount t))) (Some NewRateTracker) (FreshSlices su) (FreshSlice su) :: addr_port coordinator"
  have g: "geometry_ok (PieceCount t, PieceLength t, TotalLength t)" using assms(1) by (simp add: torrent_fits_def geom_of_def)
  have tb: "0 < TotalLength t" using total_bounds [OF assms(1)] by simp
  have len: "int (length ?f) = TotalLength t" using tb by (simp add: found_file_def)
  have create: "fst (Create (OpenOk su) (TruncateOk su) (TotalLength t) (Existing su)) = Inr ?f"
    using assms(2) tb by (auto simp: Create_def scan_fits_def found_file_def Let_def split: option.splits)
  define vs where "vs = map (\<lambda>i. sha1_Sum (piece_bytes t ?f (int i)) = PiecesHashes t ! i) [0..<nat (PieceCount t)]"
  have scan: "VerifyExisting (Opened ?f) (ScanOrder su) (PieceCount t) (PieceLength t) (TotalLength t) (PiecesHashes t) = Inr vs"
    using VerifyExisting_eq [OF g len, of "PiecesHashes t" "ScanOrder su"] assms
    by (simp add: vs_def torrent_fits_def scan_fits_def piece_bytes_def geom_of_def PieceCount_def)
  have m: "j \<in> set (marked 0 vs) \<longleftrightarrow> on_disk t ?f j" for j
    by (auto simp: marked_set vs_def on_disk_def PieceCount_def nat_less_iff)
  have held0: "held ?d = {}" by (simp add: held_def new_download_def NewHaveBitfield_def)
  have "0 \<le> PieceCount t" by (simp add: PieceCount_def)
  then have tr: "truthful t ?d"
    using held0 len empty_bitfield_cap [of "PieceCount t"]
    by (simp add: truthful_def) (simp add: new_download_def NewHaveBitfield_def file_ok_def geom_of_def)
  then have ac: "accounted t ?d" using held0 by (simp add: accounted_def) (simp add: new_download_def)
  have "\<exists>c' d'. resume t (StartTime su) 0 vs (?c, ?d) = Some (Inr (c', d')) \<and> each MarkComplete (marked 0 vs) ?c = Some c' \<and>
    int (length (pieces c')) = PieceCount t \<and>
    (\<forall>j. 0 \<le> j \<and> j < PieceCount t \<longrightarrow> pieces c' ! nat j = (if j \<in> set (marked 0 vs) then pieceComplete else pieces ?c ! nat j)) \<and>
    accounted t d' \<and> held d' = held ?d \<union> set (marked 0 vs) \<and> dfile d' = dfile ?d"
  proof (rule resume_ok [OF assms(1) ac])
    show "0 + int (length vs) \<le> PieceCount t" by (simp add: vs_def PieceCount_def)
    show "\<forall>j \<in> set (marked 0 vs). on_disk t (dfile ?d) j" using m by (simp add: new_download_def)
  qed (use held0 in \<open>simp_all add: NewCoordinator_def PieceCount_def\<close>)
  then obtain c' d' where r: "resume t (StartTime su) 0 vs (?c, ?d) = Some (Inr (c', d'))"
    "each MarkComplete (marked 0 vs) ?c = Some c'"
    "\<forall>j. 0 \<le> j \<and> j < PieceCount t \<longrightarrow> pieces c' ! nat j = (if j \<in> set (marked 0 vs) then pieceComplete else pieces ?c ! nat j)"
    "accounted t d'" "held d' = held ?d \<union> set (marked 0 vs)" "dfile d' = dfile ?d" by blast
  have c: "coord_reachable c'"
    by (rule coord_reachable.start [OF _ _ _ r(2)]) (use g in \<open>auto simp: PieceCount_def geometry_ok.simps\<close>)
  have "pieceCount c' = PieceCount t"
    using each_MarkComplete_count [OF r(2)] by (simp add: NewCoordinator_def)
  moreover have "open_and_scan t su = Some (Inr (c', d'))"
    using create scan r(1) assms(2) by (simp add: open_and_scan_def scan_fits_def)
  moreover have "(pieces c' ! nat i = pieceComplete) = on_disk t ?f i" if "0 \<le> i" "i < PieceCount t" for i
    using r(3) that m by (simp add: NewCoordinator_def)
  ultimately show ?thesis
    using c r(4-6) held0 m by (intro exI [of _ c'] exI [of _ d']) (auto simp: new_download_def)
qed

section \<open>Runs\<close>

fun stim_ok :: "torrent \<Rightarrow> loop_stimulus \<Rightarrow> bool" where
  "stim_ok t (ResultIn i data w sync now http fin) = authentic t i data"
| "stim_ok t _ = True"

fun result_indices :: "loop_stimulus list \<Rightarrow> int list" where
  "result_indices [] = []"
| "result_indices (ResultIn i data w sync now http fin # xs) = i # result_indices xs"
| "result_indices (_ # xs) = result_indices xs"

text \<open>Only \<open>dfile\<close> and \<open>dhave\<close> matter for truthfulness, the counts as well for the accounting.\<close>

lemma truthful_frame: "dfile e = dfile d \<Longrightarrow> dhave e = dhave d \<Longrightarrow> truthful t e = truthful t d"
  by (simp add: truthful_def held_def)

lemma accounted_frame:
  "dfile e = dfile d \<Longrightarrow> dhave e = dhave d \<Longrightarrow> completed e = completed d \<Longrightarrow> bytesOwned e = bytesOwned d \<Longrightarrow>
    accounted t e = accounted t d"
  by (simp add: accounted_def truthful_def held_def)

lemma progress_tick_data [simp]:
  "dfile (progress_tick env now mid fin h1 h2 d) = dfile d" "dhave (progress_tick env now mid fin h1 h2 d) = dhave d"
  "completed (progress_tick env now mid fin h1 h2 d) = completed d" "bytesOwned (progress_tick env now mid fin h1 h2 d) = bytesOwned d"
  "downloadComplete (progress_tick env now mid fin h1 h2 d) = downloadComplete d"
  by (auto simp: progress_tick_def Let_def)

lemma truthful_updates [simp]:
  "truthful t (d\<lparr>lastAnnounce := n\<rparr>) = truthful t d"
  "truthful t (d\<lparr>lastProgress := n\<rparr>) = truthful t d"
  "truthful t (d\<lparr>dprogress := p\<rparr>) = truthful t d"
  "truthful t (d\<lparr>downloadComplete := b\<rparr>) = truthful t d"
  "truthful t (d\<lparr>callerArmed := b\<rparr>) = truthful t d"
  "truthful t (d\<lparr>graceTimer := b\<rparr>) = truthful t d"
  "truthful t (d\<lparr>cancelled := b\<rparr>) = truthful t d"
  "truthful t (d\<lparr>workers := ws\<rparr>) = truthful t d"
  "truthful t (snd (announce env http event d)) = truthful t d" "truthful t (progress_tick env now mid fin h1 h2 d) = truthful t d"
  by (intro truthful_frame; simp)+

lemma accounted_updates [simp]:
  "accounted t (d\<lparr>lastAnnounce := n\<rparr>) = accounted t d"
  "accounted t (d\<lparr>lastProgress := n\<rparr>) = accounted t d"
  "accounted t (d\<lparr>dprogress := p\<rparr>) = accounted t d"
  "accounted t (d\<lparr>downloadComplete := b\<rparr>) = accounted t d"
  "accounted t (d\<lparr>callerArmed := b\<rparr>) = accounted t d"
  "accounted t (d\<lparr>graceTimer := b\<rparr>) = accounted t d"
  "accounted t (d\<lparr>cancelled := b\<rparr>) = accounted t d"
  "accounted t (d\<lparr>workers := ws\<rparr>) = accounted t d"
  "accounted t (snd (announce env http event d)) = accounted t d" "accounted t (progress_tick env now mid fin h1 h2 d) = accounted t d"
  by (intro accounted_frame; simp)+

text \<open>A step other than a result leaves the data alone.\<close>

definition other_stimulus :: "loop_stimulus \<Rightarrow> bool" where
  "other_stimulus x = (case x of ResultIn i data w sync now http fin \<Rightarrow> False | _ \<Rightarrow> True)"

lemma stimulus_cases:
  obtains "other_stimulus x" | i data w sync now http fin where "x = ResultIn i data w sync now http fin"
  by (cases x) (auto simp: other_stimulus_def)

lemma step_other:
  assumes "other_stimulus x"
  shows "step env x d = Loop d1 \<Longrightarrow> dfile d1 = dfile d \<and> dhave d1 = dhave d \<and> completed d1 = completed d \<and>
      bytesOwned d1 = bytesOwned d \<and> downloadComplete d1 = downloadComplete d"
    and "step env x d = Return e d1 \<Longrightarrow> d1 = d \<and> e = (if downloadComplete d then None else Some CallerCanceled)"
  using assms by (cases x; auto simp: other_stimulus_def split: if_splits)+

definition truth_run :: "download_env \<Rightarrow> loop_stimulus list \<Rightarrow> download \<Rightarrow> bool" where
  "truth_run env xs d \<longleftrightarrow> torrent_fits (tor env) \<and> truthful (tor env) d \<and> list_all (stim_ok (tor env)) xs"

definition truth_return :: "download_env \<Rightarrow> download_error option \<Rightarrow> download \<Rightarrow> bool" where
  "truth_return env e d \<longleftrightarrow> (case e of Some (WritePieceError i we) \<Rightarrow> True | _ \<Rightarrow> truthful (tor env) d)"

lemma truth_result:
  assumes "truth_run env (ResultIn i data w sync now http fin # xs) d"
    and "take_result env i data w sync now http fin d = r" "r \<noteq> LoopPanic"
  shows "case r of Loop d1 \<Rightarrow> truthful (tor env) d1 | Return e d1 \<Rightarrow> truth_return env e d1 | LoopPanic \<Rightarrow> True"
proof -
  have d: "torrent_fits (tor env)" "truthful (tor env) d" "authentic (tor env) i data"
    using assms(1) by (simp_all add: truth_run_def)
  note c = truthful_counted [OF d]
  show ?thesis
    using assms(2,3)
  proof (rule take_result_cases, goal_cases)
    case (4 f d1)
    have "truthful (tor env) d1" unfolding 4(4) using c [OF 4(1)] by simp
    then show ?case using 4(5) by (simp add: truth_return_def)
  qed (use c in \<open>simp_all add: truth_return_def\<close>)
qed

lemma truth_steps:
  assumes "truth_run env (x # xs) d"
  shows "step env x d = Loop d1 \<Longrightarrow> truth_run env xs d1" "step env x d = Return e d1 \<Longrightarrow> truth_return env e d1"
proof -
  have k: "truth_run env xs d1" if "truthful (tor env) d1" for d1
    using assms that by (simp add: truth_run_def)
  have d: "truthful (tor env) d" using assms by (simp add: truth_run_def)
  show "truth_run env xs d1" if s: "step env x d = Loop d1"
  proof (cases x rule: stimulus_cases)
    case 1
    then show ?thesis using step_other(1) [OF 1 s] d truthful_frame [of d1 d "tor env"] by (intro k) simp
  next
    case (2 i data w sync now http fin)
    then show ?thesis using truth_result [OF assms [unfolded 2], of "Loop d1"] s by (intro k) simp
  qed
  show "truth_return env e d1" if s: "step env x d = Return e d1"
  proof (cases x rule: stimulus_cases)
    case 1
    then show ?thesis using step_other(2) [OF 1 s] d by (simp add: truth_return_def)
  next
    case (2 i data w sync now http fin)
    then show ?thesis using truth_result [OF assms [unfolded 2], of "Return e d1"] s by simp
  qed
qed

interpretation truth: run_invariant truth_run truth_return
  by unfold_locales (blast intro: truth_steps)+

section \<open>The order of announces\<close>

lemma event_names: "EventNone \<noteq> EventCompleted" "EventStarted \<noteq> EventCompleted" "EventStopped \<noteq> EventCompleted"
  by (simp_all add: EventNone_def EventCompleted_def EventStarted_def EventStopped_def)

lemma progress_tick_announced:
  "\<exists>ls. announced (progress_tick env now mid fin h1 h2 d) = announced d @ map (Pair EventNone) ls"
proof -
  define d1 where "d1 = (if \<not> downloadComplete d \<and> now - lastProgress d \<ge> stallTimeout \<and>
      now - lastAnnounce d \<ge> minReannounceInterval d
    then (snd (announce env h1 EventNone d))\<lparr>lastAnnounce := mid\<rparr> else d)"
  have "announced d1 = announced d @ map (Pair EventNone) [] \<or>
      announced d1 = announced d @ map (Pair EventNone) [bytes_left (tor env) d]"
    by (simp add: d1_def announce_same(2))
  then obtain ls where "announced d1 = announced d @ map (Pair EventNone) ls" by blast
  then have "announced (progress_tick env now mid fin h1 h2 d) = announced d @ map (Pair EventNone) ls \<or>
      announced (progress_tick env now mid fin h1 h2 d) = announced d @ map (Pair EventNone) (ls @ [bytes_left (tor env) d1])"
    unfolding progress_tick_def Let_def d1_def [symmetric] by (simp add: announce_same(2))
  then show ?thesis by blast
qed

lemma take_result_announced:
  assumes "take_result env i data w sync now http fin d = r" "r \<noteq> LoopPanic"
  shows "\<exists>d1. (r = Loop d1 \<or> (\<exists>e. r = Return e d1)) \<and>
    (announced d1 = announced d \<and> downloadComplete d \<le> downloadComplete d1 \<or>
     \<not> downloadComplete d \<and> downloadComplete d1 \<and>
       announced d1 = announced d @ [(EventCompleted, bytes_left (tor env) d1)])"
  using assms
proof (rule take_result_cases, goal_cases)
  case (4 f d1)
  have "announced d1 = announced d @ [(EventCompleted, bytes_left (tor env) d1)] \<and> downloadComplete d1"
    by (simp add: 4(4) announce_same(2) counted_def bytes_left_def)
  then show ?case using 4(3,5)
    by (cases "OptSeed (opts env)") (auto intro!: exI [of _ d1] exI [of _ "d1\<lparr>cancelled := True\<rparr>"] simp: bytes_left_def)
qed (auto simp: counted_def)

lemma step_announced:
  assumes "step env x d = Loop d1 \<or> (\<exists>e. step env x d = Return e d1)"
  shows "(\<exists>ls. announced d1 = announced d @ map (Pair EventNone) ls) \<and> downloadComplete d \<le> downloadComplete d1 \<or>
    \<not> downloadComplete d \<and> downloadComplete d1 \<and>
      announced d1 = announced d @ [(EventCompleted, bytes_left (tor env) d1)]"
proof (cases x rule: stimulus_cases)
  case 1
  have "\<exists>ls. announced d = announced d @ map (Pair EventNone) ls" by (intro exI [of _ "[]"]) simp
  then show ?thesis
    using 1 assms progress_tick_announced [of env _ _ _ _ _ d]
    by (cases x) (auto simp: other_stimulus_def split: if_splits)
next
  case (2 i data w sync now http fin)
  have "\<exists>ls. announced d = announced d @ map (Pair EventNone) ls" by (intro exI [of _ "[]"]) simp
  then show ?thesis using take_result_announced [of env i data w sync now http fin d] assms 2 by fastforce
qed

definition announces_ok :: "download \<Rightarrow> bool" where
  "announces_ok d \<longleftrightarrow> (\<exists>l mid. announced d = (EventStarted, l) # mid \<and> fst ` set mid \<subseteq> {EventNone, EventCompleted} \<and>
     length (filter (\<lambda>a. fst a = EventCompleted) mid) \<le> (if downloadComplete d then 1 else 0))"

lemma announces_ok_step:
  assumes "announces_ok d" "step env x d = Loop d1 \<or> (\<exists>e. step env x d = Return e d1)"
  shows "announces_ok d1"
proof -
  obtain l mid where m: "announced d = (EventStarted, l) # mid" "fst ` set mid \<subseteq> {EventNone, EventCompleted}"
    "length (filter (\<lambda>a. fst a = EventCompleted) mid) \<le> (if downloadComplete d then 1 else 0)"
    using assms(1) unfolding announces_ok_def by blast
  from step_announced [OF assms(2)] show ?thesis
  proof (elim disjE conjE exE)
    fix ls assume a: "announced d1 = announced d @ map (Pair EventNone) ls" "downloadComplete d \<le> downloadComplete d1"
    have "filter (\<lambda>a. fst a = EventCompleted) (map (Pair EventNone) ls) = []"
      using event_names by (simp add: filter_empty_conv)
    then show ?thesis
      unfolding announces_ok_def using m a
      by (intro exI [of _ l] exI [of _ "mid @ map (Pair EventNone) ls"]) (auto split: if_splits)
  next
    assume a: "\<not> downloadComplete d" "downloadComplete d1" "announced d1 = announced d @ [(EventCompleted, bytes_left (tor env) d1)]"
    then show ?thesis
      unfolding announces_ok_def using m
      by (intro exI [of _ l] exI [of _ "mid @ [(EventCompleted, bytes_left (tor env) d1)]"]) auto
  qed
qed

interpretation announces: run_invariant "\<lambda>env xs d. announces_ok d" "\<lambda>env e d. announces_ok d"
  by unfold_locales (blast intro: announces_ok_step)+

section \<open>Runs without duplicate results\<close>

definition completed_honest :: "download \<Rightarrow> bool" where
  "completed_honest d \<longleftrightarrow> (\<forall>l. (EventCompleted, l) \<in> set (announced d) \<longrightarrow> l = 0)"

definition account_run :: "download_env \<Rightarrow> loop_stimulus list \<Rightarrow> download \<Rightarrow> bool" where
  "account_run env xs d \<longleftrightarrow> torrent_fits (tor env) \<and> accounted (tor env) d \<and> list_all (stim_ok (tor env)) xs \<and>
     distinct (result_indices xs) \<and> set (result_indices xs) \<inter> held d = {} \<and>
     (downloadComplete d \<longrightarrow> completed d = PieceCount (tor env)) \<and> completed_honest d"

definition account_return :: "download_env \<Rightarrow> download_error option \<Rightarrow> download \<Rightarrow> bool" where
  "account_return env e d \<longleftrightarrow> (e = None \<longrightarrow> accounted (tor env) d \<and> completed d = PieceCount (tor env) \<and> completed_honest d)"

lemma account_result:
  assumes "account_run env (ResultIn i data w sync now http fin # xs) d"
    and "take_result env i data w sync now http fin d = r" "r \<noteq> LoopPanic"
  shows "case r of Loop d1 \<Rightarrow> accounted (tor env) d1 \<and> held d1 = insert i (held d) \<and>
      (downloadComplete d1 \<longrightarrow> completed d1 = PieceCount (tor env))
    | Return e d1 \<Rightarrow> e = None \<longrightarrow> accounted (tor env) d1 \<and> completed d1 = PieceCount (tor env)
    | LoopPanic \<Rightarrow> True"
proof -
  have d: "torrent_fits (tor env)" "accounted (tor env) d" "authentic (tor env) i data" "i \<notin> held d"
    using assms(1) by (simp_all add: account_run_def)
  have tr: "truthful (tor env) d" using d(2) by (simp add: accounted_def)
  have nc: "\<not> downloadComplete d"
  proof
    assume "downloadComplete d"
    then have "completed d = PieceCount (tor env)" using assms(1) by (simp add: account_run_def)
    then show False using accounted_all(1) [OF d(1,2)] d(3,4) by (simp add: authentic_def)
  qed
  note c = accounted_counted [OF d] and h = held_counted [OF tr d(3), of now]
  show ?thesis
    using assms(2,3)
  proof (rule take_result_cases, goal_cases)
    case (2 f)
    have "\<not> downloadComplete (counted now i data f d)" using nc by (simp add: counted_def)
    then show ?case using 2(2) c [OF 2(1)] h [of f] by simp
  next
    case (4 f d1)
    have "accounted (tor env) d1" unfolding 4(4) using c [OF 4(1)] by simp
    moreover have "completed d1 = PieceCount (tor env)" "dhave d1 = dhave (counted now i data f d)"
      using 4(2) by (simp_all add: 4(4)) (simp add: counted_def)
    ultimately show ?case using 4(5) h [of f] by (simp add: held_def)
  qed simp_all
qed

lemma step_completed_honest:
  assumes "completed_honest d" "step env x d = Loop d1 \<or> (\<exists>e. step env x d = Return e d1)"
    and "downloadComplete d1 \<Longrightarrow> bytes_left (tor env) d1 = 0"
  shows "completed_honest d1"
  using step_announced [OF assms(2)] assms(1,3) event_names by (auto simp: completed_honest_def)

lemma account_steps:
  assumes "account_run env (x # xs) d"
  shows "step env x d = Loop d1 \<Longrightarrow> account_run env xs d1" "step env x d = Return e d1 \<Longrightarrow> account_return env e d1"
proof -
  let ?t = "tor env"
  have d: "torrent_fits ?t" "accounted ?t d" "completed_honest d" "downloadComplete d \<Longrightarrow> completed d = PieceCount ?t"
    using assms by (simp_all add: account_run_def)
  show "account_run env xs d1" if s: "step env x d = Loop d1"
  proof -
    have "accounted ?t d1 \<and> (downloadComplete d1 \<longrightarrow> completed d1 = PieceCount ?t) \<and>
        distinct (result_indices xs) \<and> set (result_indices xs) \<inter> held d1 = {}"
    proof (cases x rule: stimulus_cases)
      case 1
      have "result_indices (x # xs) = result_indices xs" using 1 by (cases x) (simp_all add: other_stimulus_def)
      then show ?thesis
        using step_other(1) [OF 1 s] d accounted_frame [of d1 d ?t] assms
        by (simp add: account_run_def held_def)
    next
      case (2 i data w sync now http fin)
      then show ?thesis using account_result [OF assms [unfolded 2], of "Loop d1"] s assms by (auto simp: account_run_def)
    qed
    moreover from this have "completed_honest d1"
      using accounted_all(2) [OF d(1), of d1] s by (intro step_completed_honest [OF d(3)]) auto
    ultimately show ?thesis using assms by (simp add: account_run_def)
  qed
  show "account_return env e d1" if s: "step env x d = Return e d1"
  proof (cases x rule: stimulus_cases)
    case 1
    then show ?thesis using step_other(2) [OF 1 s] d by (simp add: account_return_def split: if_splits)
  next
    case (2 i data w sync now http fin)
    have a: "e = None \<Longrightarrow> accounted ?t d1 \<and> completed d1 = PieceCount ?t"
      using account_result [OF assms [unfolded 2], of "Return e d1"] s 2 by simp
    moreover have "e = None \<Longrightarrow> completed_honest d1"
      using accounted_all(2) [OF d(1), of d1] a s by (intro step_completed_honest [OF d(3)]) auto
    ultimately show ?thesis by (simp add: account_return_def)
  qed
qed

interpretation account: run_invariant account_run account_return
  by unfold_locales (blast intro: account_steps)+

section \<open>Shutting down\<close>

lemma announce_timers [simp]:
  "callerArmed (snd (announce env http event d)) = callerArmed d" "graceTimer (snd (announce env http event d)) = graceTimer d"
  "cancelled (snd (announce env http event d)) = cancelled d"
  using announce_same(1) [of d env http event] by (simp_all add: same_data_def)

lemma progress_tick_timers [simp]:
  "callerArmed (progress_tick env now mid fin h1 h2 d) = callerArmed d"
  "graceTimer (progress_tick env now mid fin h1 h2 d) = graceTimer d"
  "cancelled (progress_tick env now mid fin h1 h2 d) = cancelled d"
  by (auto simp: progress_tick_def Let_def)

lemma take_result_timers:
  assumes "take_result env i data w sync now http fin d = Loop d1"
  shows "callerArmed d1 = callerArmed d \<and> graceTimer d1 = graceTimer d \<and> cancelled d1 = cancelled d"
proof -
  have c: "callerArmed (counted now i data f d) = callerArmed d" "graceTimer (counted now i data f d) = graceTimer d"
    "cancelled (counted now i data f d) = cancelled d" for f by (simp_all add: counted_def)
  show ?thesis
    using assms by (rule take_result_cases) (simp_all add: c split: if_splits)
qed

text \<open>Once the caller is done the loop is on its way out: the grace timer runs, or the context is cancelled.\<close>

lemma step_timers:
  assumes "step env x d = Loop d1" "callerArmed d \<or> graceTimer d \<or> cancelled d"
  shows "callerArmed d1 \<or> graceTimer d1 \<or> cancelled d1" "callerArmed d1 \<Longrightarrow> callerArmed d \<and> x \<noteq> CallerDone"
  using assms take_result_timers [of env _ _ _ _ _ _ _ d d1] by (cases x; auto split: if_splits)+

lemma main_loop_timers:
  assumes "main_loop env xs d = Loop d1" "callerArmed d \<or> graceTimer d \<or> cancelled d"
  shows "(callerArmed d1 \<or> graceTimer d1 \<or> cancelled d1) \<and> (callerArmed d1 \<longrightarrow> callerArmed d \<and> CallerDone \<notin> set xs)"
  using assms
proof (induction xs arbitrary: d)
  case (Cons x xs)
  then obtain d2 where "step env x d = Loop d2" "main_loop env xs d2 = Loop d1"
    by (auto split: step_result.splits)
  then show ?case using Cons.IH [of d2] step_timers [of env x d d2] Cons.prems(2) by auto
qed simp

lemma main_loop_append:
  "main_loop env (xs @ ys) d = (case main_loop env xs d of Loop d1 \<Rightarrow> main_loop env ys d1 | r \<Rightarrow> r)"
  by (induction xs arbitrary: d) (auto split: step_result.splits)

lemma enter_loop_append:
  "enter_loop env su xs d = Loop d1 \<Longrightarrow> enter_loop env su (xs @ ys) d = main_loop env ys d1"
  by (auto simp: enter_loop_def main_loop_append Let_def split: if_splits)

lemma grace_ends:
  assumes "graceTimer d \<or> cancelled d"
  shows "\<exists>d1. main_loop env [GraceOver, CancelSeen] d = Return (if downloadComplete d then None else Some CallerCanceled) d1 \<and>
    dfile d1 = dfile d \<and> dhave d1 = dhave d"
  using assms by auto

section \<open>From the start into the loop\<close>

lemma begins_ok:
  assumes "torrent_fits (tor env)" "scan_fits (tor env) su" "begins env su c d d1"
  shows "accounted (tor env) d1" "held d1 = {i. on_disk (tor env) (found_file (tor env) su) i}" "truthful (tor env) d1"
    "announces_ok d1" "completed_honest d1"
proof -
  obtain l where l: "announced d1 = [(EventStarted, l)]" "downloadComplete d1 = False"
    using assms(3) begins_control [OF assms(3)] announce_same(1) [of d env "FirstAnnounce su" EventStarted]
      announce_same(2) [of env "FirstAnnounce su" EventStarted d]
    by (auto simp: begins_def same_control_def same_data_def new_download_def)
  have "accounted (tor env) d \<and> held d = {i. on_disk (tor env) (found_file (tor env) su) i}"
    using open_and_scan_ok [OF assms(1,2)] assms(3) by (auto simp: begins_def)
  moreover have "d1 = snd (announce env (FirstAnnounce su) EventStarted d)" using assms(3) by (simp add: begins_def)
  ultimately show "accounted (tor env) d1" "held d1 = {i. on_disk (tor env) (found_file (tor env) su) i}" "truthful (tor env) d1"
    by (simp_all add: held_def accounted_def)
  show "announces_ok d1" "completed_honest d1"
    using l event_names by (auto simp: announces_ok_def completed_honest_def)
qed

section \<open>What a return means\<close>

lemma complete_when_done:
  assumes "torrent_fits (tor env)" "scan_fits (tor env) su" "list_all (stim_ok (tor env)) xs"
    and "distinct (result_indices xs)" "\<forall>i \<in> set (result_indices xs). \<not> on_disk (tor env) (found_file (tor env) su) i"
    and "Download env su xs = Returned None d \<or> Download env su xs = Running d \<and> downloadComplete d"
    and "0 \<le> i" "i < PieceCount (tor env)"
  shows "on_disk (tor env) (dfile d) i \<and> ((EventCompleted, l) \<in> set (announced d) \<longrightarrow> l = 0)"
proof -
  have start: "account_run env xs (d1\<lparr>lastProgress := ProgressTime su, lastAnnounce := AnnounceTime su,
      downloadComplete := completed d1 = PieceCount (tor env)\<rparr>)" "accounted (tor env) d1" "completed_honest d1"
    if "begins env su c d0 d1" for c d0 d1
    using begins_ok [OF assms(1,2) that] assms(1,3-5)
    by (auto simp: account_run_def completed_honest_def held_def)
  have "accounted (tor env) d \<and> completed d = PieceCount (tor env) \<and> completed_honest d"
    using assms(6)
  proof
    assume "Download env su xs = Returned None d"
    then obtain c d0 d1 d3 where r: "begins env su c d0 d1" "enter_loop env su xs d1 = Return None d3"
      "d = stop_announce env (LastAnnounce su) d3" by (rule Download_Returned)
    have "account_return env None d3"
      by (rule account.enter_loop_ok(2) [OF _ _ r(2)])
        (use start [OF r(1)] in \<open>simp_all add: account_return_def completed_honest_def\<close>)
    then show ?thesis
      using event_names by (auto simp: r(3) stop_announce_def account_return_def completed_honest_def announce_same(2))
  next
    assume R: "Download env su xs = Running d \<and> downloadComplete d"
    then obtain c d0 d1 where r: "begins env su c d0 d1" "enter_loop env su xs d1 = Loop d"
      using Download_Running by blast
    have "account_run env [] d"
      by (rule account.enter_loop_ok(1) [OF _ _ r(2)])
        (use start [OF r(1)] in \<open>simp_all add: account_return_def completed_honest_def\<close>)
    then show ?thesis using R by (simp add: account_run_def)
  qed
  then show ?thesis using accounted_all(3) [OF assms(1)] assms(7,8) by (auto simp: completed_honest_def)
qed

text \<open>Nobody but the caller cancels the context while the loop runs.\<close>

lemma step_uncancelled:
  assumes "x \<noteq> CallerDone" "\<not> graceTimer d" "\<not> cancelled d"
  shows "step env x d = Loop d1 \<Longrightarrow> \<not> graceTimer d1 \<and> \<not> cancelled d1" "step env x d \<noteq> Return (Some CallerCanceled) d1"
proof -
  show "step env x d = Loop d1 \<Longrightarrow> \<not> graceTimer d1 \<and> \<not> cancelled d1"
    using assms take_result_timers [of env _ _ _ _ _ _ _ d d1] by (cases x) (auto split: if_splits)
  have "take_result env i data w sync now http fin d \<noteq> Return (Some CallerCanceled) d1" for i data w sync now http fin
  proof
    assume "take_result env i data w sync now http fin d = Return (Some CallerCanceled) d1"
    then show False by (rule take_result_cases) (auto split: if_splits)
  qed
  then show "step env x d \<noteq> Return (Some CallerCanceled) d1" using assms by (cases x) simp_all
qed

lemma run_uncancelled:
  assumes "CallerDone \<notin> set xs" "Download env su xs = Returned e d"
  shows "e \<noteq> Some CallerCanceled"
proof
  assume e: "e = Some CallerCanceled"
  have loop: "main_loop env ys d1 \<noteq> Return (Some CallerCanceled) d3"
    if "CallerDone \<notin> set ys" "\<not> graceTimer d1" "\<not> cancelled d1" for ys d1 d3
    using that
  proof (induction ys arbitrary: d1)
    case (Cons x ys)
    then show ?case using step_uncancelled [of x d1 env] by (cases "step env x d1") fastforce+
  qed simp
  obtain c d0 d1 d3 where r: "begins env su c d0 d1" "enter_loop env su xs d1 = Return (Some CallerCanceled) d3"
    using Download_Returned [OF assms(2) [unfolded e]] .
  have "\<not> graceTimer d1" "\<not> cancelled d1"
    using r(1) begins_control [OF r(1)] announce_timers(2,3) [of env "FirstAnnounce su" EventStarted d0]
    by (auto simp: begins_def same_control_def new_download_def)
  then show False
    using r(2) loop [OF assms(1), of "d1\<lparr>lastProgress := ProgressTime su, lastAnnounce := AnnounceTime su,
        downloadComplete := completed d1 = PieceCount (tor env)\<rparr>" d3]
    by (simp add: enter_loop_def Let_def split: if_splits)
qed

end
