(* ===== verification/Sha1_Vectors.thy ===== *)
theory Sha1_Vectors
  imports Sha1
begin

text \<open>
  SHA-1 as written out in \<open>Sha1\<close> computes the digests it should: the first test vector of FIPS 180-4,
  and three zero bytes - what a new output file of that size holds. The schedule and every twenty
  rounds are evaluated separately, so that the words stay short.
\<close>

lemma sha1_extend_numeral:
  "sha1_extend (numeral k) r = sha1_extend (pred_numeral k) (rotl32 1 (r ! 2 XOR r ! 7 XOR r ! 13 XOR r ! 15) # r)"
  by (simp add: numeral_eq_Suc)

lemma replicate_pred: "replicate (numeral k) x = x # replicate (pred_numeral k) x"
  by (simp add: numeral_eq_Suc)

lemma rounds_append:
  "length xs = 20 \<Longrightarrow> sha1_rounds t (xs @ ys) h = sha1_rounds (t + 20) ys (sha1_rounds t xs h)"
proof -
  have "sha1_rounds t (xs @ ys) h = sha1_rounds (t + length xs) ys (sha1_rounds t xs h)"
    by (induction t xs h rule: sha1_rounds.induct) simp_all
  then show "length xs = 20 \<Longrightarrow> sha1_rounds t (xs @ ys) h = sha1_rounds (t + 20) ys (sha1_rounds t xs h)" by simp
qed

lemmas sha1_round = rotl32_def sha1_f_def sha1_k_def

section \<open>The vectors\<close>

lemma abc_block: "chunks 64 (sha1_pad [97, 98, 99]) = [sha1_pad [97, 98, 99]]"
  "be_words (sha1_pad [97, 98, 99]) = [0x61626380, 0, 0, 0, 0, 0, 0, 0,
      0, 0, 0, 0, 0, 0, 0, 0x00000018]"
  by (simp_all add: sha1_pad_def be64_def replicate_pred)

lemma abc_schedule: "sha1_schedule (sha1_pad [97, 98, 99]) =
     [0x61626380, 0, 0, 0, 0, 0, 0, 0,
      0, 0, 0, 0, 0, 0, 0, 0x00000018,
      0xc2c4c700, 0, 0x00000030, 0x85898e01] @
     [0, 0x00000060, 0x0b131c03, 0x00000030, 0x85898ec1, 0x16263806, 0, 0x00000180,
      0x2c4c700c, 0x000000f0, 0x93afb507, 0x5898e048, 0x8e9a9202, 0x00000600, 0xb131c0f0, 0x16263bc6,
      0x4ebed41e, 0x626380a1, 0x16263806, 0x000018c0] @
     [0xd2e138c4, 0x00000f00, 0x3afb5079, 0x898e04e5, 0xe2ba3c2b, 0x000060c0, 0x053a37cd, 0x74458547,
      0xda9415ed, 0x26380a16, 0x626383a1, 0x4ebf54de, 0x3835b44b, 0x0000f600, 0x1e84c7a3, 0x98e04d98,
      0x651d16a0, 0x62658ca1, 0x458544d6, 0x44584cb7] @
     [0x7ba06619, 0x6380aea2, 0x0ae55269, 0x627b49a1, 0x7cd45c9d, 0x000f0000, 0xfb50753a, 0xec6765e8,
      0xba3c2be2, 0x0060c000, 0x3a37cd05, 0x458546f4, 0xb8599dd6, 0x380a1a26, 0x01e02203, 0xe7cc3456,
      0xe6e60b69, 0x00f60a00, 0x5795ef4f, 0x822e0879]"
  by (simp add: abc_block sha1_schedule_def sha1_extend_numeral rotl32_def)

lemma abc_rounds_0: "sha1_rounds 0
     [0x61626380, 0, 0, 0, 0, 0, 0, 0,
      0, 0, 0, 0, 0, 0, 0, 0x00000018,
      0xc2c4c700, 0, 0x00000030, 0x85898e01]
     (0x67452301, 0xefcdab89, 0x98badcfe, 0x10325476, 0xc3d2e1f0) = (0xfd9e1d7d, 0xdc64901d, 0x20aa99ca, 0xd3a49608, 0xc82f758b)"
  by (simp add: sha1_round)

lemma abc_rounds_1: "sha1_rounds 20
     [0, 0x00000060, 0x0b131c03, 0x00000030, 0x85898ec1, 0x16263806, 0, 0x00000180,
      0x2c4c700c, 0x000000f0, 0x93afb507, 0x5898e048, 0x8e9a9202, 0x00000600, 0xb131c0f0, 0x16263bc6,
      0x4ebed41e, 0x626380a1, 0x16263806, 0x000018c0]
     (0xfd9e1d7d, 0xdc64901d, 0x20aa99ca, 0xd3a49608, 0xc82f758b) = (0x32de1cba, 0x4c986405, 0xf718e5cf, 0x03d447f6, 0xf72eec32)"
  by (simp add: sha1_round)

lemma abc_rounds_2: "sha1_rounds 40
     [0xd2e138c4, 0x00000f00, 0x3afb5079, 0x898e04e5, 0xe2ba3c2b, 0x000060c0, 0x053a37cd, 0x74458547,
      0xda9415ed, 0x26380a16, 0x626383a1, 0x4ebf54de, 0x3835b44b, 0x0000f600, 0x1e84c7a3, 0x98e04d98,
      0x651d16a0, 0x62658ca1, 0x458544d6, 0x44584cb7]
     (0x32de1cba, 0x4c986405, 0xf718e5cf, 0x03d447f6, 0xf72eec32) = (0x3f52de5a, 0x09d785fd, 0x3498bfd4, 0xf211824f, 0xd79915ab)"
  by (simp add: sha1_round)

lemma abc_rounds_3: "sha1_rounds 60
     [0x7ba06619, 0x6380aea2, 0x0ae55269, 0x627b49a1, 0x7cd45c9d, 0x000f0000, 0xfb50753a, 0xec6765e8,
      0xba3c2be2, 0x0060c000, 0x3a37cd05, 0x458546f4, 0xb8599dd6, 0x380a1a26, 0x01e02203, 0xe7cc3456,
      0xe6e60b69, 0x00f60a00, 0x5795ef4f, 0x822e0879]
     (0x3f52de5a, 0x09d785fd, 0x3498bfd4, 0xf211824f, 0xd79915ab) = (0x42541b35, 0x5738d5e1, 0x21834873, 0x681e6df6, 0xd8fdf6ad)"
  by (simp add: sha1_round)

lemma sha1_abc: "sha1_Sum [97, 98, 99] =
    [0xa9, 0x99, 0x3e, 0x36, 0x47, 0x06, 0x81, 0x6a, 0xba, 0x3e, 0x25, 0x71, 0x78, 0x50, 0xc2, 0x6c, 0x9c, 0xd0, 0xd8, 0x9d]"
proof -
  have "sha1_compress sha1_init (sha1_pad [97, 98, 99]) = (0xa9993e36, 0x4706816a, 0xba3e2571, 0x7850c26c, 0x9cd0d89d)"
    unfolding sha1_init_def sha1_compress.simps abc_schedule
    by (simp add: rounds_append abc_rounds_0 abc_rounds_1 abc_rounds_2 abc_rounds_3 del: sha1_rounds.simps append_Cons)
  then show ?thesis by (simp add: sha1_Sum_def abc_block word_bytes_def)
qed

lemma zeros_block: "chunks 64 (sha1_pad [0, 0, 0]) = [sha1_pad [0, 0, 0]]"
  "be_words (sha1_pad [0, 0, 0]) = [0x00000080, 0, 0, 0, 0, 0, 0, 0,
      0, 0, 0, 0, 0, 0, 0, 0x00000018]"
  by (simp_all add: sha1_pad_def be64_def replicate_pred)

lemma zeros_schedule: "sha1_schedule (sha1_pad [0, 0, 0]) =
     [0x00000080, 0, 0, 0, 0, 0, 0, 0,
      0, 0, 0, 0, 0, 0, 0, 0x00000018,
      0x00000100, 0, 0x00000030, 0x00000200] @
     [0, 0x00000060, 0x00000400, 0x00000030, 0x000002c0, 0x00000800, 0, 0x00000180,
      0x00001000, 0x000000f0, 0x00000900, 0x00002050, 0x00000600, 0x00000600, 0x000040c0, 0x00000bc0,
      0x00002400, 0x000080c0, 0x00000800, 0x000018c0] @
     [0x00010800, 0x00000f00, 0x00009000, 0x00020560, 0x00006400, 0x000060c0, 0x000404c0, 0x0000b520,
      0x00025c00, 0x00080c00, 0x000083c0, 0x0001a4c0, 0x00108800, 0x0000f600, 0x00094000, 0x002055c0,
      0x00066400, 0x00068cc0, 0x00404400, 0x000b4ac0] @
     [0x0024c800, 0x0080cfc0, 0x0008a400, 0x001849c0, 0x0108e800, 0x000f0000, 0x00900c00, 0x0205e000,
      0x00640000, 0x0060c000, 0x0404c000, 0x00b52180, 0x025c1000, 0x080c0c00, 0x00834300, 0x01a4ea00,
      0x1088c000, 0x00f60a00, 0x0940cc00, 0x20555080]"
  by (simp add: zeros_block sha1_schedule_def sha1_extend_numeral rotl32_def)

lemma zeros_rounds_0: "sha1_rounds 0
     [0x00000080, 0, 0, 0, 0, 0, 0, 0,
      0, 0, 0, 0, 0, 0, 0, 0x00000018,
      0x00000100, 0, 0x00000030, 0x00000200]
     (0x67452301, 0xefcdab89, 0x98badcfe, 0x10325476, 0xc3d2e1f0) = (0xd0e0585d, 0x6d481ee0, 0x3af3a67f, 0xfcbd7b91, 0x297341af)"
  by (simp add: sha1_round)

lemma zeros_rounds_1: "sha1_rounds 20
     [0, 0x00000060, 0x00000400, 0x00000030, 0x000002c0, 0x00000800, 0, 0x00000180,
      0x00001000, 0x000000f0, 0x00000900, 0x00002050, 0x00000600, 0x00000600, 0x000040c0, 0x00000bc0,
      0x00002400, 0x000080c0, 0x00000800, 0x000018c0]
     (0xd0e0585d, 0x6d481ee0, 0x3af3a67f, 0xfcbd7b91, 0x297341af) = (0x48f464f7, 0x2d8c3a4f, 0xa062d46d, 0x75664bac, 0xb6e90136)"
  by (simp add: sha1_round)

lemma zeros_rounds_2: "sha1_rounds 40
     [0x00010800, 0x00000f00, 0x00009000, 0x00020560, 0x00006400, 0x000060c0, 0x000404c0, 0x0000b520,
      0x00025c00, 0x00080c00, 0x000083c0, 0x0001a4c0, 0x00108800, 0x0000f600, 0x00094000, 0x002055c0,
      0x00066400, 0x00068cc0, 0x00404400, 0x000b4ac0]
     (0x48f464f7, 0x2d8c3a4f, 0xa062d46d, 0x75664bac, 0xb6e90136) = (0x41de2d1e, 0xddbbba54, 0x71074bfc, 0x89bec78e, 0x859bfdda)"
  by (simp add: sha1_round)

lemma zeros_rounds_3: "sha1_rounds 60
     [0x0024c800, 0x0080cfc0, 0x0008a400, 0x001849c0, 0x0108e800, 0x000f0000, 0x00900c00, 0x0205e000,
      0x00640000, 0x0060c000, 0x0404c000, 0x00b52180, 0x025c1000, 0x080c0c00, 0x00834300, 0x01a4ea00,
      0x1088c000, 0x00f60a00, 0x0940cc00, 0x20555080]
     (0x41de2d1e, 0xddbbba54, 0x71074bfc, 0x89bec78e, 0x859bfdda) = (0xc29db9fa, 0xc1a1b832, 0x699a0277, 0x756f0740, 0x378bb08d)"
  by (simp add: sha1_round)

lemma sha1_zeros: "sha1_Sum [0, 0, 0] =
    [0x29, 0xe2, 0xdc, 0xfb, 0xb1, 0x6f, 0x63, 0xbb, 0x02, 0x54, 0xdf, 0x75, 0x85, 0xa1, 0x5b, 0xb6, 0xfb, 0x5e, 0x92, 0x7d]"
proof -
  have "sha1_compress sha1_init (sha1_pad [0, 0, 0]) = (0x29e2dcfb, 0xb16f63bb, 0x0254df75, 0x85a15bb6, 0xfb5e927d)"
    unfolding sha1_init_def sha1_compress.simps zeros_schedule
    by (simp add: rounds_append zeros_rounds_0 zeros_rounds_1 zeros_rounds_2 zeros_rounds_3 del: sha1_rounds.simps append_Cons)
  then show ?thesis by (simp add: sha1_Sum_def zeros_block word_bytes_def)
qed

end
