(* ===== verification/Download_Props.thy ===== *)
theory Download_Props
  imports Download_Inv Sha1_Vectors
begin

text \<open>
  What a run of \<open>Download\<close> guarantees: resuming, dialling, the truth of what is served, what success
  means and where it fails to mean it, the order of announces, and shutting down; then concrete runs
  on a torrent of two one-byte pieces, and the places where the loop goes wrong.
\<close>

section \<open>Properties\<close>

text \<open>
  C11. What the start finds is what the run resumes from: on any file left at the path, whatever its
  size, the coordinator starts in a reachable state, and a piece is marked complete, set in the have
  bitfield and counted - with its bytes - exactly when its bytes on disk have its hash.
\<close>

theorem resume_from_disk:
  assumes "torrent_fits t" "scan_fits t su"
  shows "\<exists>c d. open_and_scan t su = Some (Inr (c, d)) \<and> coord_reachable c \<and> dfile d = found_file t su \<and>
    (\<forall>i. HasPiece (dhave d) i = on_disk t (found_file t su) i) \<and>
    (\<forall>i. 0 \<le> i \<and> i < PieceCount t \<longrightarrow> (pieces c ! nat i = pieceComplete) = on_disk t (found_file t su) i) \<and>
    completed d = int (card {i. on_disk t (found_file t su) i}) \<and>
    bytesOwned d = (\<Sum>i | on_disk t (found_file t su) i. piece_len i (geom_of t))"
proof -
  obtain c d where "open_and_scan t su = Some (Inr (c, d))" "coord_reachable c" "accounted t d" "dfile d = found_file t su"
    "held d = {i. on_disk t (found_file t su) i}"
    "\<forall>i. 0 \<le> i \<and> i < PieceCount t \<longrightarrow> (pieces c ! nat i = pieceComplete) = on_disk t (found_file t su) i"
    using open_and_scan_ok [OF assms] by blast
  moreover from this have "HasPiece (dhave d) i = on_disk t (found_file t su) i" for i by (auto simp: held_def set_eq_iff)
  ultimately show ?thesis by (intro exI [of _ c] exI [of _ d]) (simp add: accounted_def)
qed

text \<open>
  C29. However the tracker answers and however often it is asked, a peer is dialled at most once in a
  run, and never do more workers run than the limit on peers allows.
\<close>

theorem each_peer_dialled_once:
  "case Download env su xs of
     Running d \<Rightarrow> distinct (dialled d) \<and> int (length (workers d)) \<le> max_peers (opts env)
   | Returned e d \<Rightarrow> distinct (dialled d) \<and> int (length (workers d)) \<le> max_peers (opts env)
   | _ \<Rightarrow> True"
proof -
  have start: "dial_ok env d1" if "begins env su c d d1" for c d d1
    using that begins_control [OF that] announce_dial_ok [of env d "FirstAnnounce su" EventStarted] max_peers_pos [of "opts env"]
    by (auto simp: begins_def same_control_def dial_ok_def new_download_def)
  show ?thesis
  proof (cases "Download env su xs")
    case (Returned e d2)
    obtain c d d1 d3 where r: "begins env su c d d1" "enter_loop env su xs d1 = Return e d3" "d2 = stop_announce env (LastAnnounce su) d3"
      using Download_Returned [OF Returned] .
    have "dial_ok env d3" by (rule dialling.enter_loop_ok(2) [OF _ _ r(2)]) (use start [OF r(1)] in simp_all)
    then have "dial_ok env d2" using announce_dial_ok by (simp add: r(3) stop_announce_def)
    then show ?thesis by (simp add: Returned dial_ok_def)
  next
    case (Running d2)
    obtain c d d1 where r: "begins env su c d d1" "enter_loop env su xs d1 = Loop d2"
      using Download_Running [OF Running] .
    have "dial_ok env d2" by (rule dialling.enter_loop_ok(1) [OF _ _ r(2)]) (use start [OF r(1)] in simp_all)
    then show ?thesis by (simp add: Running dial_ok_def)
  qed simp_all
qed

lemma running_truthful:
  assumes "torrent_fits (tor env)" "scan_fits (tor env) su" "list_all (stim_ok (tor env)) xs" "Download env su xs = Running d"
  shows "truthful (tor env) d"
proof -
  obtain c d0 d1 where r: "begins env su c d0 d1" "enter_loop env su xs d1 = Loop d" using Download_Running [OF assms(4)] .
  have "truth_run env [] d"
    by (rule truth.enter_loop_ok(1) [OF _ _ r(2)])
      (use begins_ok(3) [OF assms(1,2) r(1)] assms in \<open>simp_all add: truth_run_def truth_return_def\<close>)
  then show ?thesis by (simp add: truth_run_def)
qed



text \<open>
  But a result counts whatever its index: with one piece still missing, a second result for a piece
  already held - which the coordinator does hand over, see the run below - ends the download as
  complete, and successfully, while some piece was never written.
\<close>

theorem duplicate_result_completes_early:
  assumes "torrent_fits (tor env)" "accounted (tor env) d" "\<not> downloadComplete d" "completed d + 1 = PieceCount (tor env)"
    and "i \<in> held d" "authentic (tor env) i data" "\<not> OptSeed (opts env)"
  shows "\<exists>d1 j. step env (ResultIn i data None True now http fin) d = Return None d1 \<and>
    0 \<le> j \<and> j < PieceCount (tor env) \<and> \<not> HasPiece (dhave d1) j \<and>
    on_disk (tor env) (dfile d1) j = on_disk (tor env) (dfile d) j"
proof -
  let ?t = "tor env"
  have tr: "truthful ?t d" using assms(2) by (simp add: accounted_def)
  have i: "0 \<le> i" "i < PieceCount ?t" using assms(6) by (simp_all add: authentic_def)
  have g: "geometry_ok (PieceCount ?t, PieceLength ?t, TotalLength ?t)" using assms(1) by (simp add: torrent_fits_def geom_of_def)
  obtain f where W: "WritePiece None i (PieceCount ?t) (PieceLength ?t) (TotalLength ?t) data (dfile d) = (None, f)"
    using WritePiece_ok [OF g i] by blast
  have "held d \<noteq> {0..<PieceCount ?t}"
  proof
    assume "held d = {0..<PieceCount ?t}"
    then have "completed d = PieceCount ?t" using assms(2) i by (simp add: accounted_def)
    then show False using assms(4) by simp
  qed
  then have "\<exists>j \<in> {0..<PieceCount ?t}. j \<notin> held d" using held_range [OF tr] by blast
  then obtain j where j: "0 \<le> j" "j < PieceCount ?t" "j \<notin> held d" by auto
  let ?c = "(counted now i data f d)\<lparr>downloadComplete := True\<rparr>"
  let ?d1 = "(snd (announce env http EventCompleted ?c))\<lparr>lastAnnounce := fin, cancelled := True\<rparr>"
  have "step env (ResultIn i data None True now http fin) d = Return None ?d1"
    using W assms(3,4,7) by (simp add: take_result_def counted_def Let_def)
  moreover have "\<not> HasPiece (dhave ?d1) j"
    using held_counted [OF tr assms(6), of now f] j(3) assms(5) by (auto simp: held_def)
  moreover have "on_disk ?t (dfile ?d1) j = on_disk ?t (dfile d) j"
  proof -
    have "file_ok (geom_of ?t) (dfile d)" using tr by (simp add: truthful_def)
    then show ?thesis using written_on_disk(2) [OF assms(1) _ assms(6) W, of j] j(3) assms(5) by (auto simp: counted_def)
  qed
  ultimately show ?thesis using j(1,2) by blast
qed

text \<open>
  C28. The tracker hears of the run in order: \<open>started\<close> first, \<open>stopped\<close> last, \<open>completed\<close> at most once
  between them, and otherwise only announces without an event.
\<close>

theorem announce_lifecycle:
  assumes "torrent_fits (tor env)" "scan_fits (tor env) su" "Download env su xs = Returned e d"
  shows "\<exists>l mid l'. announced d = (EventStarted, l) # mid @ [(EventStopped, l')] \<and>
    fst ` set mid \<subseteq> {EventNone, EventCompleted} \<and> length (filter (\<lambda>a. fst a = EventCompleted) mid) \<le> 1"
proof -
  obtain c d0 d1 d3 where r: "begins env su c d0 d1" "enter_loop env su xs d1 = Return e d3"
    "d = stop_announce env (LastAnnounce su) d3" using Download_Returned [OF assms(3)] .
  have "announces_ok d1" by (rule begins_ok(4) [OF assms(1,2) r(1)])
  then have u: "announces_ok (d1\<lparr>lastProgress := ProgressTime su, lastAnnounce := AnnounceTime su, downloadComplete := b\<rparr>)"
    "announces_ok (d1\<lparr>lastProgress := ProgressTime su, lastAnnounce := AnnounceTime su, downloadComplete := True, cancelled := True\<rparr>)"
    if "b \<or> \<not> downloadComplete d1" for b
    using that by (auto simp: announces_ok_def split: if_splits)
  have "\<not> downloadComplete d1"
    using r(1) begins_control [OF r(1)] announce_same(1) [of d0 env "FirstAnnounce su" EventStarted]
    by (auto simp: begins_def same_control_def same_data_def new_download_def)
  then have "announces_ok d3"
    by (intro announces.enter_loop_ok(2) [OF _ _ r(2)] u) auto
  then obtain l mid where m: "announced d3 = (EventStarted, l) # mid" "fst ` set mid \<subseteq> {EventNone, EventCompleted}"
    "length (filter (\<lambda>a. fst a = EventCompleted) mid) \<le> 1"
    unfolding announces_ok_def by (auto split: if_splits)
  then show ?thesis
    by (intro exI [of _ l] exI [of _ mid] exI [of _ "bytes_left (tor env) d3"])
      (simp add: r(3) stop_announce_def announce_same(2))
qed

text \<open>
  C30. The caller's cancellation ends the run: from any state reached after it - pieces may still have
  been written and announced meanwhile - the grace timer and the cancellation it makes return, with the
  caller's error unless the download had completed, and what is on disk stays.
\<close>

theorem shutdown_returns:
  assumes "Download env su xs = Running d" "CallerDone \<in> set xs"
  shows "\<exists>d'. Download env su (xs @ [GraceOver, CancelSeen]) = Returned (if downloadComplete d then None else Some CallerCanceled) d' \<and>
    dfile d' = dfile d \<and> dhave d' = dhave d"
proof -
  obtain c d0 d1 where r: "begins env su c d0 d1" "enter_loop env su xs d1 = Loop d" using Download_Running [OF assms(1)] .
  have "callerArmed d1"
    using r(1) begins_control [OF r(1)] announce_timers(1) [of env "FirstAnnounce su" EventStarted d0]
    by (auto simp: begins_def same_control_def new_download_def)
  then have "graceTimer d \<or> cancelled d"
    using main_loop_timers [of env xs "d1\<lparr>lastProgress := ProgressTime su, lastAnnounce := AnnounceTime su,
        downloadComplete := completed d1 = PieceCount (tor env)\<rparr>" d] r(2) assms(2)
    by (simp add: enter_loop_def Let_def split: if_splits; blast)
  then obtain d2 where "main_loop env [GraceOver, CancelSeen] d = Return (if downloadComplete d then None else Some CallerCanceled) d2"
    "dfile d2 = dfile d" "dhave d2 = dhave d" using grace_ends by blast
  then show ?thesis
    using Download_begins [OF r(1), of "xs @ [GraceOver, CancelSeen]"] enter_loop_append [OF r(2), of "[GraceOver, CancelSeen]"]
    by (simp add: stop_announce_def)
qed

section \<open>Concrete runs\<close>

text \<open>A torrent of two one-byte pieces, a tracker that answers with an empty peer list, a complete file.\<close>

definition tiny_torrent :: torrent where
  "tiny_torrent =
     (let t = empty_torrent\<lparr>Announce := bs ''http://t'', Name := bs ''f'', PieceLength := 1, TotalLength := 2,
        PiecesHashes := [sha1_Sum [1], sha1_Sum [2]], Files := [\<lparr>Path = bs ''f'', FLength = 2\<rparr>]\<rparr>
      in t\<lparr>InfoHash := sha1_Sum (bencode (Dictionary (info_of t)))\<rparr>)"

definition tiny_env :: "bool \<Rightarrow> download_env" where
  "tiny_env sd = \<lparr>tor = tiny_torrent, peerID = bs ''-GO0001-'' @ replicate 12 7, opts = \<lparr>OptPort = 6881, MaxPeers = 0, OptSeed = sd\<rparr>,
     urlParser = (\<lambda>s. Some \<lparr>Scheme = bs ''http'', UPrefix = s, UQuery = [], UFragment = []\<rparr>), ipv6Parser = (\<lambda>_. None)\<rparr>"

definition no_peers :: http where
  "no_peers n url = Response 200 (bs ''d5:peers0:e'') False"

definition tiny_start :: startup where
  "tiny_start = \<lparr>OpenOk = True, TruncateOk = True, Existing = Some [1, 2], Reopen = None, ScanOrder = [1, 0],
     StartTime = 0, ProgressTime = 0, AnnounceTime = 0, FirstAnnounce = no_peers, LastAnnounce = no_peers, FreshSlices = (\<lambda>_. []), FreshSlice = 0\<rparr>"

lemma no_peers_answer: "Tracker.Announce (\<lambda>_. None) (no_peers n url) =
    Inr \<lparr>Interval = 0, MinInterval = 0, Complete = 0, Incomplete = 0, Peers = []\<rparr>"
proof -
  have "ParseAnnounceResponse (\<lambda>_. None) (bs ''d5:peers0:e'') =
      Inr \<lparr>Interval = 0, MinInterval = 0, Complete = 0, Incomplete = 0, Peers = []\<rparr>" by code_simp
  moreover have "take maxResponseSize (bs ''d5:peers0:e'') = bs ''d5:peers0:e''"
    by (rule take_all) (simp add: maxResponseSize_def)
  ultimately show ?thesis by (simp add: Tracker.Announce_def no_peers_def)
qed

lemma tiny_announce: "announce (tiny_env sd) no_peers ev d = (None, d\<lparr>announced := announced d @ [(ev, bytes_left tiny_torrent d)]\<rparr>)"
  using no_peers_answer
  by (simp add: announce_def tiny_env_def tiny_torrent_def Let_def empty_torrent_def AnnounceAll_def flattenTiers_def try_tracker_def
      BuildAnnounceURL_def Let_def)

lemma tiny_facts: "PieceCount tiny_torrent = 2" "PieceLength tiny_torrent = 1" "TotalLength tiny_torrent = 2"
  "PiecesHashes tiny_torrent = [sha1_Sum [1], sha1_Sum [2]]" "tor (tiny_env sd) = tiny_torrent" "geom_of tiny_torrent = (2, 1, 2)"
  by (simp_all add: tiny_torrent_def Let_def PieceCount_def tiny_env_def geom_of_def)

lemma tiny_fits: "torrent_fits tiny_torrent" "scan_fits tiny_torrent tiny_start"
  by (auto simp: torrent_fits_def tiny_facts geometry_ok.simps scan_fits_def tiny_start_def)

lemma tiny_geometry: "piece_lo (2, 1, 2) 0 = 0" "piece_hi (2, 1, 2) 0 = 1" "piece_lo (2, 1, 2) 1 = 1" "piece_hi (2, 1, 2) 1 = 2"
  "piece_len 0 (2, 1, 2) = 1" "piece_len 1 (2, 1, 2) = 1"
  by code_simp+

lemma tiny_on_disk: "on_disk tiny_torrent [1, 2] i \<longleftrightarrow> i = 0 \<or> i = 1"
proof -
  have "0 \<le> i \<and> i < 2 \<longleftrightarrow> i = 0 \<or> i = 1" by auto
  then show ?thesis
    by (auto simp: on_disk_def tiny_facts piece_bytes_def tiny_geometry slice_of_def numeral_eq_Suc)
qed

lemma tiny_found: "found_file tiny_torrent tiny_start = [1, 2]"
  by (simp add: found_file_def tiny_facts tiny_start_def truncate_to_def numeral_eq_Suc)

lemma tiny_pieces: "{i. on_disk tiny_torrent (found_file tiny_torrent tiny_start) i} = {0, 1}"
  by (auto simp: tiny_found tiny_on_disk)

theorem resume_from_disk_witness:
  "\<exists>c d. open_and_scan tiny_torrent tiny_start = Some (Inr (c, d)) \<and> completed d = 2 \<and> bytesOwned d = 2 \<and>
    pieces c ! 0 = pieceComplete"
proof -
  obtain c d where r: "open_and_scan tiny_torrent tiny_start = Some (Inr (c, d))"
    "\<forall>i. 0 \<le> i \<and> i < PieceCount tiny_torrent \<longrightarrow> (pieces c ! nat i = pieceComplete) = on_disk tiny_torrent (found_file tiny_torrent tiny_start) i"
    "completed d = int (card {i. on_disk tiny_torrent (found_file tiny_torrent tiny_start) i})"
    "bytesOwned d = (\<Sum>i | on_disk tiny_torrent (found_file tiny_torrent tiny_start) i. piece_len i (geom_of tiny_torrent))"
    using resume_from_disk [OF tiny_fits] by blast
  have "pieces c ! nat 0 = pieceComplete" using r(2) [rule_format, of 0] by (simp add: tiny_facts tiny_found tiny_on_disk)
  then show ?thesis using r(1,3,4) by (simp add: tiny_pieces tiny_facts tiny_geometry)
qed

text \<open>The state the loop starts in.\<close>

lemma tiny_begins:
  obtains c d d1 where "begins (tiny_env sd) tiny_start c d d1" "completed d1 = 2" "callerArmed d1" "dhave d1 = dhave d"
    "accounted tiny_torrent d1" "held d1 = {0, 1}" "announced d1 = [(EventStarted, bytes_left tiny_torrent d)]"
proof -
  obtain c d where r: "open_and_scan tiny_torrent tiny_start = Some (Inr (c, d))" "accounted tiny_torrent d" "held d = {0, 1}"
    using open_and_scan_ok [OF tiny_fits] tiny_pieces by auto
  obtain f where f: "same_control (new_download tiny_torrent f) d" using open_and_scan_control [OF r(1)] by blast
  let ?d1 = "d\<lparr>announced := announced d @ [(EventStarted, bytes_left tiny_torrent d)]\<rparr>"
  have F: "FirstAnnounce tiny_start = no_peers" by (simp add: tiny_start_def)
  have b: "begins (tiny_env sd) tiny_start c d ?d1"
    using r(1) by (simp add: begins_def tiny_facts tiny_announce F)
  have "completed d = 2" using r(2,3) by (simp add: accounted_def)
  moreover have "accounted tiny_torrent ?d1" using r(2) accounted_frame [of ?d1 d tiny_torrent] by simp
  ultimately show thesis
    using that [OF b] f r(3) by (simp add: same_control_def new_download_def held_def)
qed

lemma tiny_completes:
  obtains d where "Download (tiny_env False) tiny_start [] = Returned None d"
proof -
  obtain c d d1 where b: "begins (tiny_env False) tiny_start c d d1" "completed d1 = 2" by (rule tiny_begins)
  have "enter_loop (tiny_env False) tiny_start [] d1 =
      Return None (d1\<lparr>lastProgress := 0, lastAnnounce := 0, downloadComplete := True, cancelled := True\<rparr>)"
    using b(2) by (simp add: enter_loop_def tiny_facts Let_def) (simp add: tiny_env_def tiny_start_def)
  then show thesis using that Download_begins [OF b(1), of "[]"] by simp
qed

text \<open>A whole download: a torrent of the one piece "abc", no file yet, and the piece arrives.\<close>

definition abc_torrent :: torrent where
  "abc_torrent =
     (let t = empty_torrent\<lparr>Announce := bs ''http://t'', Name := bs ''f'', PieceLength := 3, TotalLength := 3,
        PiecesHashes := [sha1_Sum [97, 98, 99]], Files := [\<lparr>Path = bs ''f'', FLength = 3\<rparr>]\<rparr>
      in t\<lparr>InfoHash := sha1_Sum (bencode (Dictionary (info_of t)))\<rparr>)"

definition abc_env :: download_env where
  "abc_env = (tiny_env False)\<lparr>tor := abc_torrent\<rparr>"

definition abc_start :: startup where
  "abc_start = tiny_start\<lparr>Existing := None, ScanOrder := [0]\<rparr>"

lemma abc_facts: "PieceCount abc_torrent = 1" "PieceLength abc_torrent = 3" "TotalLength abc_torrent = 3"
  "PiecesHashes abc_torrent = [sha1_Sum [97, 98, 99]]" "tor abc_env = abc_torrent" "geom_of abc_torrent = (1, 3, 3)"
  "opts abc_env = \<lparr>OptPort = 6881, MaxPeers = 0, OptSeed = False\<rparr>"
  by (simp_all add: abc_torrent_def Let_def PieceCount_def abc_env_def geom_of_def tiny_env_def)

lemma abc_announce: "announce abc_env no_peers ev d = (None, d\<lparr>announced := announced d @ [(ev, bytes_left abc_torrent d)]\<rparr>)"
  using no_peers_answer
  by (simp add: announce_def abc_env_def tiny_env_def abc_torrent_def Let_def empty_torrent_def AnnounceAll_def
      flattenTiers_def try_tracker_def BuildAnnounceURL_def)

lemma abc_fits: "torrent_fits abc_torrent" "scan_fits abc_torrent abc_start" "authentic abc_torrent 0 [97, 98, 99]"
proof -
  have "piece_len 0 (1, 3, 3) = 3" by code_simp
  then show "authentic abc_torrent 0 [97, 98, 99]" by (simp add: authentic_def abc_facts)
qed (auto simp: torrent_fits_def abc_facts geometry_ok.simps scan_fits_def abc_start_def tiny_start_def)

lemma abc_missing: "\<not> on_disk abc_torrent (found_file abc_torrent abc_start) i"
proof -
  have "piece_lo (1, 3, 3) 0 = 0" "piece_hi (1, 3, 3) 0 = 3" by code_simp+
  moreover have "0 \<le> i \<and> i < 1 \<longleftrightarrow> i = 0" by auto
  ultimately have "on_disk abc_torrent [0, 0, 0] i \<longleftrightarrow> i = 0 \<and> sha1_Sum [0, 0, 0] = sha1_Sum [97, 98, 99]"
    by (auto simp: on_disk_def abc_facts piece_bytes_def slice_of_def)
  moreover have "found_file abc_torrent abc_start = [0, 0, 0]"
    by (simp add: found_file_def abc_facts abc_start_def truncate_to_def numeral_eq_Suc)
  moreover have "sha1_Sum [0, 0, 0] \<noteq> sha1_Sum [97, 98, 99]" by (simp add: sha1_abc sha1_zeros)
  ultimately show ?thesis by simp
qed

lemma abc_completes:
  obtains d where "Download abc_env abc_start [ResultIn 0 [97, 98, 99] None True 1 no_peers 2] = Returned None d"
proof -
  obtain c d where r: "open_and_scan abc_torrent abc_start = Some (Inr (c, d))" "accounted abc_torrent d" "held d = {}"
    using open_and_scan_ok [OF abc_fits(1,2)] abc_missing by auto
  let ?d1 = "d\<lparr>announced := announced d @ [(EventStarted, bytes_left abc_torrent d)]\<rparr>"
  have F: "FirstAnnounce abc_start = no_peers" by (simp add: abc_start_def tiny_start_def)
  have b: "begins abc_env abc_start c d ?d1"
    using r(1) by (simp add: begins_def abc_facts abc_announce F)
  have z: "completed ?d1 = 0" using r(2,3) by (simp add: accounted_def)
  have g: "geometry_ok (1, 3, 3)" by (simp add: geometry_ok.simps)
  obtain f where W: "WritePiece None 0 1 3 3 [97, 98, 99] (dfile d) = (None, f)" using WritePiece_ok [OF g, of 0] by auto
  have "\<exists>d2. enter_loop abc_env abc_start [ResultIn 0 [97, 98, 99] None True 1 no_peers 2] ?d1 = Return None d2"
    using z W by (simp add: enter_loop_def Let_def abc_facts take_result_def abc_announce)
  then show thesis using that Download_begins [OF b] by auto
qed


theorem announce_lifecycle_witness:
  "\<exists>d l mid l'. Download (tiny_env False) tiny_start [] = Returned None d \<and>
    announced d = (EventStarted, l) # mid @ [(EventStopped, l')]"
proof -
  obtain d where "Download (tiny_env False) tiny_start [] = Returned None d" by (rule tiny_completes)
  then show ?thesis
    using announce_lifecycle [of "tiny_env False" tiny_start "[]" None d] tiny_fits by (auto simp: tiny_facts)
qed

text \<open>As a seeder, given a piece it has and then told to stop.\<close>

lemma tiny_seeds:
  obtains d where "Download (tiny_env True) tiny_start [ResultIn 0 [1] None True 1 no_peers 2, CallerDone] = Running d"
    "HasPiece (dhave d) 0" "downloadComplete d"
proof -
  obtain c d d1 where b: "begins (tiny_env True) tiny_start c d d1" "completed d1 = 2" "callerArmed d1" "held d1 = {0, 1}"
    by (rule tiny_begins)
  have g: "geometry_ok (2, 1, 2)" by (simp add: geometry_ok.simps)
  obtain f where W: "WritePiece None 0 2 1 2 [1] (dfile d1) = (None, f)" using WritePiece_ok [OF g, of 0] by auto
  let ?d = "d1\<lparr>lastProgress := 0, lastAnnounce := 0, downloadComplete := True\<rparr>"
  have e: "enter_loop (tiny_env True) tiny_start xs d1 = main_loop (tiny_env True) xs ?d" for xs
    using b(2) by (simp add: enter_loop_def tiny_facts Let_def) (simp add: tiny_env_def tiny_start_def)
  have "take_result (tiny_env True) 0 [1] None True 1 no_peers 2 ?d = Loop (counted 1 0 [1] f ?d)"
    using W by (simp add: take_result_def tiny_facts Let_def counted_def)
  then have "enter_loop (tiny_env True) tiny_start [ResultIn 0 [1] None True 1 no_peers 2, CallerDone] d1 =
      Loop ((counted 1 0 [1] f ?d)\<lparr>callerArmed := False, graceTimer := True\<rparr>)"
    using b(3) by (simp add: e) (simp add: counted_def)
  then have "Download (tiny_env True) tiny_start [ResultIn 0 [1] None True 1 no_peers 2, CallerDone] =
      Running ((counted 1 0 [1] f ?d)\<lparr>callerArmed := False, graceTimer := True\<rparr>)"
    using Download_begins [OF b(1)] by simp
  moreover have "HasPiece (dhave d1) 0" using b(4) by (auto simp: held_def)
  ultimately show thesis using that by (simp add: counted_def have_Set_def HasPiece_SetPiece)
qed


theorem shutdown_returns_witness:
  "\<exists>d. Download (tiny_env True) tiny_start [ResultIn 0 [1] None True 1 no_peers 2, CallerDone, GraceOver, CancelSeen] = Returned None d"
proof -
  obtain d where d: "Download (tiny_env True) tiny_start [ResultIn 0 [1] None True 1 no_peers 2, CallerDone] = Running d"
    "downloadComplete d" by (rule tiny_seeds)
  then show ?thesis using shutdown_returns [OF d(1)] by auto
qed

section \<open>Where the loop goes wrong\<close>

text \<open>
  The coordinator can hand over the same piece twice: the run of \<open>Coordinator_Races\<close>, with a second
  piece nobody has. Peers 7 and 8 hold piece 0 only.
\<close>

definition two_pieces :: "bytes list \<Rightarrow> nat coordinator" where
  "two_pieces hashes = NewCoordinator 2 1 2 hashes None None (\<lambda>_. [0x80]) 5"

lemma two_pieces_reachable: "length hashes = 2 \<Longrightarrow> coord_reachable (two_pieces hashes)"
  unfolding two_pieces_def by (rule coord_reachable.start [where held = "[]"]) simp_all

lemma piece_delivered_twice:
  "map_option (\<lambda>c. (results c, pieces c)) (play duplicate_run (two_pieces [h0, h1])) =
    Some ([(0, [1]), (0, [1])], [pieceComplete, pieceMissing])"
  unfolding duplicate_run_def play_def by code_simp

text \<open>The loop after the first of the two results: piece 0 is on disk, piece 1 is not.\<close>

definition after_first :: download where
  "after_first = (new_download tiny_torrent [1, 0])\<lparr>dhave := SetPiece (NewHaveBitfield 2) 0, completed := 1, bytesOwned := 1\<rparr>"

lemma after_first_accounted: "accounted tiny_torrent after_first" "held after_first = {0}"
proof -
  have l: "length (dhave after_first) = 1"
    by (simp add: after_first_def NewHaveBitfield_def empty_bitfield_def sdiv_nonneg)
  show h: "held after_first = {0}"
    using empty_bitfield_cap [of 2]
    by (auto simp: held_def after_first_def HasPiece_SetPiece NewHaveBitfield_def)
  have "on_disk tiny_torrent [1, 0] 0"
    by (simp add: on_disk_def tiny_facts piece_bytes_def tiny_geometry slice_of_def)
  moreover have "dfile after_first = [1, 0]" "completed after_first = 1" "bytesOwned after_first = 1"
    by (simp_all add: after_first_def new_download_def)
  ultimately show "accounted tiny_torrent after_first"
    using l by (simp add: accounted_def truthful_def h tiny_facts file_ok_def tiny_geometry)
qed

theorem duplicate_result_completes_early_witness:
  "\<exists>d1 j. step (tiny_env False) (ResultIn 0 [1] None True 5 no_peers 6) after_first = Return None d1 \<and>
    0 \<le> j \<and> j < 2 \<and> \<not> HasPiece (dhave d1) j"
  using duplicate_result_completes_early [of "tiny_env False" after_first 0 "[1]" 5 no_peers 6] tiny_fits after_first_accounted
  by (auto simp: tiny_facts authentic_def tiny_geometry tiny_env_def after_first_def new_download_def)

text \<open>
  The product of the tracker's interval in seconds and a second overflows \<open>int64\<close>: an interval of
  9223372037 seconds makes the routine announce due at every tick, from then on.
\<close>

lemma huge_interval_is_negative: "i64 (9223372037 * Second) < 0"
  by (simp add: Second_def i64_def)

lemma negative_interval_announces_always:
  assumes "announceInterval d < 0" "lastAnnounce d \<le> now" "now \<le> mid"
  shows "announced (progress_tick env now mid fin h1 h2 d) \<noteq> announced d"
proof (cases "\<not> downloadComplete d \<and> now - lastProgress d \<ge> stallTimeout \<and> now - lastAnnounce d \<ge> minReannounceInterval d")
  case True
  then show ?thesis by (auto simp: progress_tick_def Let_def announce_same(2))
next
  case False
  then show ?thesis using assms by (auto simp: progress_tick_def Let_def announce_same(2))
qed

text \<open>When the interval is not negative and no tick is due, nothing is announced.\<close>

lemma quiet_tick:
  assumes "mid - lastAnnounce d < announceInterval d"
    and "downloadComplete d \<or> now - lastProgress d < stallTimeout \<or> now - lastAnnounce d < minReannounceInterval d"
  shows "progress_tick env now mid fin h1 h2 d = d"
  using assms by (auto simp: progress_tick_def Let_def)

text \<open>A peer that was dialled once is never dialled again, even when its worker ended long ago.\<close>

lemma dialled_peers_are_skipped: "connected d a \<Longrightarrow> dial_peers n [a] d = d"
  by simp

text \<open>
  The announce of the way out dials as well: a tracker that answers \<open>stopped\<close> with a peer gets a new
  worker started after the loop has returned.
\<close>

lemma stop_announce_dials:
  assumes "AnnounceAll (urlParser env) (ipv6Parser env) http (torrent.Announce (tor env)) (AnnounceList (tor env))
      (\<lambda>url. BuildAnnounceURL (urlParser env) url (InfoHash (tor env)) (peerID env) (OptPort (opts env))
         (bytesUploaded (dprogress d)) (bytesDownloaded (dprogress d)) (bytes_left (tor env) d) EventStopped) = Inr resp"
    and "Peers resp = [a]" "\<not> connected d a" "int (length (workers d)) < max_peers (opts env)"
  shows "a \<in> set (workers (stop_announce env http d))"
  using assms by (simp add: stop_announce_def announce_def Let_def)

text \<open>Nothing to download, but no tracker to be told so: the run fails.\<close>

lemma complete_but_refused:
  assumes "open_and_scan (tor env) su = Some (Inr (c, d))"
    and "announce env (FirstAnnounce su) EventStarted d = (Some errs, d1)"
  shows "Download env su xs = Refused (InitialAnnounce errs)"
  using assms by (simp add: Download_def)

end
