(* ===== verification/P2pget.thy ===== *)
theory P2pget
  imports Download_Props
begin

text \<open>
  The command \<open>p2pget\<close> (\<open>cmd/p2pget/main.go\<close>): flags in, exit code out. The flags are what package
  \<open>flag\<close> parsed; the file system is a function from paths to contents, shared by the torrent file and
  the output; logging is left out; \<open>withShutdown\<close> is a small machine of its own. The theory ends with the guarantee of the whole program: what a
  successful exit says about the files.
\<close>

section \<open>The command\<close>

datatype level = LevelDebug | LevelInfo | LevelWarn | LevelError

definition parseLogLevel :: "bytes \<Rightarrow> level option" where
  "parseLogLevel s =
     (if s = bs ''debug'' then Some LevelDebug
      else if s = bs ''info'' then Some LevelInfo
      else if s = bs ''warn'' then Some LevelWarn
      else if s = bs ''error'' then Some LevelError
      else None)"

record flags =
  torrentPath :: bytes
  outDir :: bytes
  maxPeersFlag :: int
  portFlag :: int
  seedFlag :: bool
  logLevel :: bytes
  showVersion :: bool

text \<open>The world \<open>run\<close> meets: the files, the random source, the parsers, the start-up and the loop's stimuli.\<close>

record world =
  Files_at :: "bytes \<Rightarrow> bytes option"
  Rand :: "nat \<Rightarrow> bytes option"
  UrlParser :: "bytes \<Rightarrow> parsed_url option"
  Ipv6Parser :: "bytes \<Rightarrow> addr option"
  Start :: startup
  Stimuli :: "loop_stimulus list"

datatype run_result =
    ParseTorrentError meta_error
  | PeerIDError
  | Ran download_env outcome

definition output_path :: "bytes \<Rightarrow> torrent \<Rightarrow> bytes" where
  "output_path dir t = dir @ [47] @ Name t"

definition run :: "world \<Rightarrow> bytes \<Rightarrow> bytes \<Rightarrow> int \<Rightarrow> int \<Rightarrow> bool \<Rightarrow> run_result" where
  "run w path dir port maxPeers sd =
     (case ParseFile (Files_at w) path of
        Inl e \<Rightarrow> ParseTorrentError e
      | Inr t \<Rightarrow>
          (case GeneratePeerID (Rand w) of
             None \<Rightarrow> PeerIDError
           | Some pid \<Rightarrow>
               let env = \<lparr>tor = t, peerID = pid, opts = \<lparr>OptPort = port, MaxPeers = maxPeers, OptSeed = sd\<rparr>,
                          urlParser = UrlParser w, ipv6Parser = Ipv6Parser w\<rparr>
               in Ran env (Download env ((Start w)\<lparr>Existing := Files_at w (output_path dir t)\<rparr>) (Stimuli w))))"

text \<open>
  \<open>main\<close>: the exit code, and the state of the download when there was one. A crash is a Go panic,
  whose exit code is 2; a run that is still going has no exit code.
\<close>

datatype exit_code = Exit int "(torrent \<times> download) option" | StillRunning

definition main :: "world \<Rightarrow> flags \<Rightarrow> exit_code" where
  "main w fl =
     (if showVersion fl then Exit 0 None
      else if torrentPath fl = [] then Exit 2 None
      else (case parseLogLevel (logLevel fl) of
              None \<Rightarrow> Exit 2 None
            | Some level \<Rightarrow>
                (case run w (torrentPath fl) (outDir fl) (portFlag fl) (maxPeersFlag fl) (seedFlag fl) of
                   ParseTorrentError e \<Rightarrow> Exit 1 None
                 | PeerIDError \<Rightarrow> Exit 1 None
                 | Ran env Crash \<Rightarrow> Exit 2 None
                 | Ran env (Refused e) \<Rightarrow> Exit 1 None
                 | Ran env (Returned None d) \<Rightarrow> Exit 0 (Some (tor env, d))
                 | Ran env (Returned (Some CallerCanceled) d) \<Rightarrow> Exit 0 (Some (tor env, d))
                 | Ran env (Returned (Some e) d) \<Rightarrow> Exit 1 (Some (tor env, d))
                 | Ran env (Running d) \<Rightarrow> StillRunning)))"

section \<open>Signals\<close>

text \<open>
  \<open>withShutdown\<close>: the context handed to \<open>Download\<close> and the goroutine beside it. \<open>signal.Notify\<close> never
  blocks, so a signal that finds the two places of \<open>sigCh\<close> taken is dropped; the goroutine takes one
  signal to cancel the context and a second one to end the process. What \<open>main\<close> says is the exit code
  of a process the second signal has not ended; the first signal is the stimulus \<open>CallerDone\<close>.
\<close>

datatype waiting_for = FirstSignal | SecondSignal | Exited int

record shutdown =
  sigCh :: nat
  ctxCanceled :: bool
  waitingFor :: waiting_for

definition withShutdown :: shutdown where
  "withShutdown = \<lparr>sigCh = 0, ctxCanceled = False, waitingFor = FirstSignal\<rparr>"

datatype shutdown_event = Signal | Goroutine

fun shutdown_step :: "shutdown_event \<Rightarrow> shutdown \<Rightarrow> shutdown" where
  "shutdown_step Signal s = s\<lparr>sigCh := min 2 (Suc (sigCh s))\<rparr>"
| "shutdown_step Goroutine s =
     (if sigCh s = 0 then s
      else (case waitingFor s of
              FirstSignal \<Rightarrow> s\<lparr>sigCh := sigCh s - 1, ctxCanceled := True, waitingFor := SecondSignal\<rparr>
            | SecondSignal \<Rightarrow> s\<lparr>sigCh := sigCh s - 1, waitingFor := Exited 1\<rparr>
            | Exited code \<Rightarrow> s))"

definition shutdown_after :: "shutdown_event list \<Rightarrow> shutdown" where
  "shutdown_after es = fold shutdown_step es withShutdown"

definition signals_taken :: "shutdown \<Rightarrow> nat" where
  "signals_taken s = (case waitingFor s of FirstSignal \<Rightarrow> 0 | SecondSignal \<Rightarrow> 1 | Exited code \<Rightarrow> 2)"

text \<open>Of the signals sent, at most the ones beyond the second are lost.\<close>

lemma shutdown_counts:
  "ctxCanceled (shutdown_after es) = (waitingFor (shutdown_after es) \<noteq> FirstSignal) \<and>
    min 2 (count_list es Signal) \<le> signals_taken (shutdown_after es) + sigCh (shutdown_after es) \<and>
    signals_taken (shutdown_after es) + sigCh (shutdown_after es) \<le> count_list es Signal \<and>
    (\<forall>code. waitingFor (shutdown_after es) = Exited code \<longrightarrow> code = 1)"
proof (induction es rule: rev_induct)
  case Nil
  then show ?case by (simp add: shutdown_after_def withShutdown_def signals_taken_def)
next
  case (snoc e es)
  then show ?case
    by (cases e) (auto simp: shutdown_after_def signals_taken_def split: waiting_for.splits)
qed

text \<open>
  A single Ctrl+C only asks for a clean stop, no signal is needed to keep running, and two signals,
  whenever they come, end the process with code 1 as soon as the goroutine has run twice.
\<close>

lemma one_signal_never_exits: "count_list es Signal \<le> 1 \<Longrightarrow> waitingFor (shutdown_after es) \<noteq> Exited code"
  using shutdown_counts [of es] by (auto simp: signals_taken_def)

lemma canceled_needs_signal: "ctxCanceled (shutdown_after es) \<Longrightarrow> 0 < count_list es Signal"
  using shutdown_counts [of es] by (auto simp: signals_taken_def split: waiting_for.splits)

lemma two_signals_exit:
  assumes "2 \<le> count_list es Signal"
  shows "waitingFor (shutdown_after (es @ [Goroutine, Goroutine])) = Exited 1"
proof -
  have "2 \<le> signals_taken (shutdown_after es) + sigCh (shutdown_after es)" using shutdown_counts [of es] assms by simp
  then show ?thesis
    using shutdown_counts [of es] by (auto simp: shutdown_after_def signals_taken_def split: waiting_for.splits)
qed

section \<open>Properties\<close>

text \<open>What an exit with code 0 after a download goes back to.\<close>

lemma exit_zero:
  assumes "main w fl = Exit 0 (Some (t, d))"
  obtains data env e where "Files_at w (torrentPath fl) = Some data" "Parse data = Inr t" "tor env = t"
    "Download env ((Start w)\<lparr>Existing := Files_at w (output_path (outDir fl) t)\<rparr>) (Stimuli w) = Returned e d"
    "e = None \<or> e = Some CallerCanceled"
proof -
  obtain env e where R: "run w (torrentPath fl) (outDir fl) (portFlag fl) (maxPeersFlag fl) (seedFlag fl) = Ran env (Returned e d)"
    "tor env = t" "e = None \<or> e = Some CallerCanceled"
    using assms(1)
    by (auto simp: main_def split: if_splits option.splits run_result.splits outcome.splits download_error.splits)
  then obtain data where "Files_at w (torrentPath fl) = Some data" "Parse data = Inr t"
    "Download env ((Start w)\<lparr>Existing := Files_at w (output_path (outDir fl) t)\<rparr>) (Stimuli w) = Returned e d"
    by (auto simp: run_def ParseFile_def Let_def split: sum.splits option.splits)
  then show thesis using that R(2,3) by blast
qed

text \<open>And a way to get there.\<close>

lemma main_returns:
  assumes "fl = \<lparr>torrentPath = path, outDir = dir, maxPeersFlag = peers', portFlag = port, seedFlag = sd,
      logLevel = bs ''info'', showVersion = False\<rparr>" "path \<noteq> []"
    and "Files_at w path = Some data" "Parse data = Inr t" "GeneratePeerID (Rand w) = Some pid"
    and "Download \<lparr>tor = t, peerID = pid, opts = \<lparr>OptPort = port, MaxPeers = peers', OptSeed = sd\<rparr>,
      urlParser = UrlParser w, ipv6Parser = Ipv6Parser w\<rparr>
      ((Start w)\<lparr>Existing := Files_at w (output_path dir t)\<rparr>) (Stimuli w) = Returned None d"
  shows "main w fl = Exit 0 (Some (t, d))"
proof -
  have "parseLogLevel (bs ''info'') = Some LevelInfo" by (simp add: parseLogLevel_def)
  then show ?thesis
    using assms(2-6) by (simp add: assms(1) main_def run_def ParseFile_def Let_def del: bs_Cons)
qed

text \<open>
  A successful exit of the whole program: when \<open>p2pget\<close> exits 0 without having been told to stop,
  the torrent file parsed, the output name cannot leave the output directory, and every piece of the
  torrent is on disk with the right hash - given a disk that works and a coordinator that delivers
  authentic pieces, each of them once.
\<close>

theorem p2pget_success:
  assumes "main w fl = Exit 0 (Some (t, d))" "CallerDone \<notin> set (Stimuli w)"
    and "scan_fits t (Start w)" "TotalLength t + PieceLength t \<le> 2 ^ 63"
    and "list_all (stim_ok t) (Stimuli w)" "distinct (result_indices (Stimuli w))"
    and "\<forall>i \<in> set (result_indices (Stimuli w)).
      \<not> on_disk t (found_file t ((Start w)\<lparr>Existing := Files_at w (output_path (outDir fl) t)\<rparr>)) i"
  shows "\<exists>data. Files_at w (torrentPath fl) = Some data \<and> Parse data = Inr t \<and> name_safe (Name t) \<and>
    (\<forall>i. 0 \<le> i \<and> i < PieceCount t \<longrightarrow> on_disk t (dfile d) i)"
proof -
  obtain data env e where P: "Files_at w (torrentPath fl) = Some data" "Parse data = Inr t" and R: "tor env = t"
    and D: "Download env ((Start w)\<lparr>Existing := Files_at w (output_path (outDir fl) t)\<rparr>) (Stimuli w) = Returned e d"
    and e: "e = None \<or> e = Some CallerCanceled"
    by (rule exit_zero [OF assms(1)])
  note facts = Parse_facts [OF P(2)]
  have fits: "torrent_fits t" using facts assms(4) by (simp add: torrent_fits_def geom_of_def)
  have scan: "scan_fits t ((Start w)\<lparr>Existing := Files_at w (output_path (outDir fl) t)\<rparr>)"
    using assms(3) by (simp add: scan_fits_def)
  have "e = None" using e run_uncancelled [OF assms(2) D] by blast
  then have "on_disk t (dfile d) i" if "0 \<le> i" "i < PieceCount t" for i
    using complete_when_done [of env _ "Stimuli w" d i 0] fits scan assms(5-7) D R that by auto
  then show ?thesis using P facts by blast
qed

text \<open>The tiny torrent's file beside a complete copy of its content.\<close>

definition tiny_world :: world where
  "tiny_world = \<lparr>Files_at = [bs ''t.torrent'' \<mapsto> torrent_file tiny_torrent, bs ''./f'' \<mapsto> [1, 2]],
     Rand = (\<lambda>n. Some (replicate n 7)), UrlParser = urlParser (tiny_env False), Ipv6Parser = ipv6Parser (tiny_env False),
     Start = tiny_start, Stimuli = []\<rparr>"

definition tiny_flags :: flags where
  "tiny_flags = \<lparr>torrentPath = bs ''t.torrent'', outDir = bs ''.'', maxPeersFlag = 0, portFlag = 6881, seedFlag = False,
     logLevel = bs ''info'', showVersion = False\<rparr>"

lemma tiny_parses: "Parse (torrent_file tiny_torrent) = Inr tiny_torrent"
  by (rule Parse_torrent_file)
    (simp add: torrent_ok_def tiny_torrent_def Let_def validate_None PieceCount_def expected_pieces_def empty_torrent_def
      i64_def sdiv_nonneg name_safe_def MaxStringLength_def info_of_def)

lemma tiny_exits: "\<exists>d. main tiny_world tiny_flags = Exit 0 (Some (tiny_torrent, d))"
proof -
  obtain d where D: "Download (tiny_env False) tiny_start [] = Returned None d" by (rule tiny_completes)
  have "GeneratePeerID (\<lambda>n. Some (replicate n 7)) = Some (bs ''-GO0001-'' @ replicate 12 7)"
    by code_simp
  then have id: "GeneratePeerID (Rand tiny_world) = Some (peerID (tiny_env False))"
    by (simp add: tiny_world_def tiny_env_def)
  have path: "output_path (bs ''.'') tiny_torrent = bs ''./f''" by (simp add: output_path_def tiny_torrent_def Let_def)
  have "Files_at tiny_world (output_path (bs ''.'') tiny_torrent) = Some [1, 2]"
    unfolding path by (simp add: tiny_world_def)
  then have su: "(Start tiny_world)\<lparr>Existing := Files_at tiny_world (output_path (bs ''.'') tiny_torrent)\<rparr> = tiny_start"
    by (simp add: tiny_world_def) (simp add: tiny_start_def)
  have env: "\<lparr>tor = tiny_torrent, peerID = peerID (tiny_env False), opts = \<lparr>OptPort = 6881, MaxPeers = 0, OptSeed = False\<rparr>,
      urlParser = UrlParser tiny_world, ipv6Parser = Ipv6Parser tiny_world\<rparr> = tiny_env False"
    by (simp add: tiny_world_def tiny_env_def)
  have "main tiny_world tiny_flags = Exit 0 (Some (tiny_torrent, d))"
  proof (rule main_returns [OF tiny_flags_def _ _ tiny_parses id])
    show "Files_at tiny_world (bs ''t.torrent'') = Some (torrent_file tiny_torrent)" by (simp add: tiny_world_def)
    have "Stimuli tiny_world = []" by (simp add: tiny_world_def)
    then show "Download \<lparr>tor = tiny_torrent, peerID = peerID (tiny_env False),
        opts = \<lparr>OptPort = 6881, MaxPeers = 0, OptSeed = False\<rparr>, urlParser = UrlParser tiny_world, ipv6Parser = Ipv6Parser tiny_world\<rparr>
      ((Start tiny_world)\<lparr>Existing := Files_at tiny_world (output_path (bs ''.'') tiny_torrent)\<rparr>) (Stimuli tiny_world) = Returned None d"
      unfolding env su by (simp add: D)
  qed simp
  then show ?thesis by blast
qed

theorem p2pget_success_witness:
  "\<exists>d. main tiny_world tiny_flags = Exit 0 (Some (tiny_torrent, d)) \<and> on_disk tiny_torrent (dfile d) 1"
proof -
  obtain d where "main tiny_world tiny_flags = Exit 0 (Some (tiny_torrent, d))" using tiny_exits by blast
  moreover have "Stimuli tiny_world = []" "Start tiny_world = tiny_start" by (simp_all add: tiny_world_def)
  ultimately show ?thesis
    using p2pget_success [of tiny_world tiny_flags tiny_torrent d] tiny_fits by (auto simp: tiny_facts)
qed

end
