(* ===== verification/System.thy ===== *)
theory System
  imports Coordinator_Settled Session_Prefix P2pget
begin

text \<open>
  The whole client running: one coordinator and any number of connections. A connection is the session
  its handler started with, the inputs it has picked up so far and how many of its events the
  coordinator has handled; what it reported is what \<open>serveIncoming\<close> computes from these inputs. A
  message is anything the network delivers; a command is what lies in the connection's channel. The
  theory shows what the main loop may rely on, and from it the guarantee of the whole program.
\<close>

section \<open>Incoming connections\<close>

text \<open>
  The handler \<open>Download\<close> gives the listener. \<open>remote\<close> is the remote address as \<open>netip.ParseAddrPort\<close>
  reads it, \<open>d1\<close>, \<open>w\<close>, \<open>d2\<close> are the outcomes of the socket calls of \<open>Accept\<close>, and \<open>s\<close> is a session with
  the torrent's data. No session is started, and the socket is closed, unless the handshake works.
\<close>

definition handle_incoming :: "addr_port option \<Rightarrow> bool \<Rightarrow> write_outcome \<Rightarrow> bool \<Rightarrow> bytes \<Rightarrow> bytes \<Rightarrow> nat \<Rightarrow>
    addr_port session \<Rightarrow> input list \<Rightarrow> net_conn \<Rightarrow> addr_port session_end option \<times> net_conn" where
  "handle_incoming remote d1 w d2 infoHash ourID k s xs c =
     (case remote of
        None \<Rightarrow> (None, net_close c)
      | Some a \<Rightarrow>
          (case Accept d1 w d2 c infoHash ourID of
             (Inl e, c1) \<Rightarrow> (None, net_close c1)
           | (Inr pconn, c1) \<Rightarrow> (Some (serveIncoming k (s\<lparr>sconn := pconn, saddr := a\<rparr>) xs), c1)))"

section \<open>Coordinator and connections\<close>

record 'a connection =
  cstart :: "'a session"
  cchan :: nat
  cinputs :: "input list"
  chandled :: nat

record 'a network =
  coord :: "'a coordinator"
  conns :: "nat \<rightharpoonup> 'a connection"

definition reported :: "'a connection \<Rightarrow> 'a Coordinator.event list" where
  "reported x = evs (end_session (serveIncoming (cchan x) (cstart x) (cinputs x)))"

definition is_command :: "input \<Rightarrow> bool" where
  "is_command y = (case y of Cmd c \<Rightarrow> True | _ \<Rightarrow> False)"

definition network_of :: "'a coordinator \<Rightarrow> 'a network" where
  "network_of c = \<lparr>coord = c, conns = Map.empty\<rparr>"

text \<open>What the coordinator does without an event: its tickers, and the memory and counters it shares.\<close>

inductive tick_step :: "'a coordinator \<Rightarrow> 'a coordinator \<Rightarrow> bool" where
  assign: "enumerates indices (dom (assignments c)) \<Longrightarrow> enumerates order1 (dom (peers c)) \<Longrightarrow>
    enumerates order2 (dom (peers c)) \<Longrightarrow> tick now coins indices order1 order2 c = Some c' \<Longrightarrow> tick_step c c'"
| choke: "enumerates order (dom (peers c)) \<Longrightarrow> tick_step c (recalcChoke now order c)"
| optimistic: "enumerates order (dom (peers c)) \<Longrightarrow> tick_step c (rotateOptimistic pick order c)"
| changed: "length bf = length (slices c r) \<Longrightarrow> tick_step c (c\<lparr>slices := (slices c)(r := bf)\<rparr>)"
| allocated: "tick_step c (c\<lparr>slices := (slices c)(nextSlice c := bf), nextSlice := Suc (nextSlice c)\<rparr>)"
| counted: "tick_step c (c\<lparr>crates := rts, cprogress := prog\<rparr>)"

text \<open>
  One step of the client. A connection starts (dialled or accepted), picks up something from the network
  or the command in its channel, or the coordinator handles the next of its events - those \<open>ok\<close> allows.
\<close>

inductive client_step :: "('a coordinator \<Rightarrow> 'a Coordinator.event \<Rightarrow> bool) \<Rightarrow> 'a network \<Rightarrow> 'a network \<Rightarrow> bool" for ok where
  connects: "conns n i = None \<Longrightarrow> evs s = [] \<Longrightarrow> spieceCount s = pieceCount (coord n) \<Longrightarrow>
    client_step ok n (n\<lparr>conns := (conns n)(i \<mapsto> \<lparr>cstart = s, cchan = k, cinputs = [], chandled = 0\<rparr>)\<rparr>)"
| receives: "conns n i = Some x \<Longrightarrow> \<not> is_command y \<Longrightarrow>
    client_step ok n (n\<lparr>conns := (conns n)(i \<mapsto> x\<lparr>cinputs := cinputs x @ [y]\<rparr>)\<rparr>)"
| commanded: "conns n i = Some x \<Longrightarrow> chans (coord n) (cchan x) = [cmd] \<Longrightarrow>
    client_step ok n (n\<lparr>coord := (coord n)\<lparr>chans := (chans (coord n))(cchan x := [])\<rparr>,
      conns := (conns n)(i \<mapsto> x\<lparr>cinputs := cinputs x @ [Cmd cmd]\<rparr>)\<rparr>)"
| handles: "conns n i = Some x \<Longrightarrow> chandled x < length (reported x) \<Longrightarrow> ok (coord n) (reported x ! chandled x) \<Longrightarrow>
    handle now coin taken (reported x ! chandled x) (coord n) = Some c' \<Longrightarrow>
    client_step ok n (n\<lparr>coord := c', conns := (conns n)(i \<mapsto> x\<lparr>chandled := Suc (chandled x)\<rparr>)\<rparr>)"
| ticks: "tick_step (coord n) c' \<Longrightarrow> client_step ok n (n\<lparr>coord := c'\<rparr>)"

inductive client_run :: "('a coordinator \<Rightarrow> 'a Coordinator.event \<Rightarrow> bool) \<Rightarrow> 'a coordinator \<Rightarrow> 'a network \<Rightarrow> bool" for ok c0 where
  begin_run: "client_run ok c0 (network_of c0)"
| more: "client_run ok c0 n \<Longrightarrow> client_step ok n n' \<Longrightarrow> client_run ok c0 n'"

text \<open>The order of events the coordinator does not survive intact: a failure of a piece completed meanwhile.\<close>

definition timely :: "'a coordinator \<Rightarrow> 'a Coordinator.event \<Rightarrow> bool" where
  "timely c ev = (case ev of PieceFailed a i \<Rightarrow> pieces c ! nat i \<noteq> pieceComplete | _ \<Rightarrow> True)"

section \<open>What every step keeps\<close>

definition same_torrent :: "'a coordinator \<Rightarrow> 'a coordinator \<Rightarrow> bool" where
  "same_torrent c c' \<longleftrightarrow> pieceCount c' = pieceCount c \<and> pieceLength c' = pieceLength c \<and>
     totalLength c' = totalLength c \<and> pieceHashes c' = pieceHashes c"

lemma sends_ok_same_torrent: "sends_ok c c' \<Longrightarrow> same_torrent c c'"
  by (simp add: sends_ok_def same_torrent_def)

text \<open>A result the main loop can trust: a piece of the torrent with the length and hash it gives.\<close>

definition genuine :: "'a coordinator \<Rightarrow> piece_result \<Rightarrow> bool" where
  "genuine c r = (case r of (i, d) \<Rightarrow> 0 \<le> i \<and> i < pieceCount c \<and> sha1_Sum d = pieceHashes c ! nat i \<and>
     Length i (pieceCount c) (pieceLength c) (totalLength c) = Inr (int (length d)))"

definition connection_ok :: "'a coordinator \<Rightarrow> 'a connection \<Rightarrow> bool" where
  "connection_ok c x \<longleftrightarrow> evs (cstart x) = [] \<and> spieceCount (cstart x) = pieceCount c \<and> list_all (input_ok c) (cinputs x)"

lemma same_torrent_cong:
  assumes "same_torrent c c'"
  shows "genuine c' = genuine c" "connection_ok c' x = connection_ok c x"
proof -
  have "command_ok c' y = command_ok c y" for y using assms by (intro command_ok_cong) (simp_all add: same_torrent_def)
  then have "input_ok c' y = input_ok c y" for y by (cases y) simp_all
  then show "connection_ok c' x = connection_ok c x"
    using assms by (simp add: connection_ok_def same_torrent_def list_all_iff)
  show "genuine c' = genuine c" using assms by (simp add: genuine_def same_torrent_def fun_eq_iff)
qed

definition client_ok :: "'a coordinator \<Rightarrow> 'a network \<Rightarrow> bool" where
  "client_ok c0 n \<longleftrightarrow> coord_reachable (coord n) \<and> same_torrent c0 (coord n) \<and>
     (\<forall>i x. conns n i = Some x \<longrightarrow> connection_ok c0 x) \<and> list_all (genuine c0) (results (coord n))"

text \<open>The coordinator's side of a step.\<close>

lemma tick_step_coord: "tick_step c c' \<Longrightarrow> coord_step c c'"
  by (induction rule: tick_step.induct) (rule coord_step.intros; assumption?)+

lemma tick_step_calm: "tick_step c c' \<Longrightarrow> calm c c'"
proof (induction rule: tick_step.induct)
  case (assign indices c order1 order2 now coins c')
  show ?case by (rule keeping.ticking [OF assign(4)])
qed (auto intro: keeping.recalculating keeping.rotating keeping.idle simp: unmoved_def)

lemma handle_results:
  assumes "handle now coin taken ev c = Some c'" "coordinator_ok c"
  shows "results c' = results c \<or>
    (\<exists>a i d. ev = PieceDownloaded a i d \<and> pieces c ! nat i \<noteq> pieceComplete \<and> results c' = results c @ [(i, d)])"
proof (cases ev)
  case (PieceDownloaded a i d)
  then show ?thesis using handle_downloaded(4) [of taken a i d c c'] assms by auto
next
  case (PieceFailed a i)
  then show ?thesis
    using assms(1) removeAssignee_eq(1) [of i a c]
    by (auto simp: handlePieceFailed_def Let_def set_piece_Some split: if_splits bind_splits)
qed (use keeping.handled [OF assms(1)] in \<open>simp_all add: calm_def\<close>)

text \<open>An event the coordinator can be given in a client: it is in range, and the piece it carries is genuine.\<close>

lemma pending_event_ok:
  assumes "connection_ok c x" "chandled x < length (reported x)" "reported x ! chandled x = ev"
  shows "event_in_range (pieceCount c) ev" "ev = PieceDownloaded a i d \<Longrightarrow> genuine c (i, d)"
proof -
  have ev: "ev \<in> set (evs (end_session (serveIncoming (cchan x) (cstart x) (cinputs x))))"
    using assms(2,3) unfolding reported_def by (metis nth_mem)
  note r = reported_event_ok [OF _ _ _ ev, where c = c]
  show range: "event_in_range (pieceCount c) ev" using r(1) assms(1) by (simp add: connection_ok_def)
  show "ev = PieceDownloaded a i d \<Longrightarrow> genuine c (i, d)"
    using r(2,3) [of a i d] range assms(1) by (simp add: genuine_def connection_ok_def)
qed

lemma client_step_ok:
  assumes "client_step ok n n'" "client_ok c0 n"
  shows "client_ok c0 n'"
proof -
  note inv = assms(2) [unfolded client_ok_def]
  have same: "same_torrent c0 c'" if "sends_ok (coord n) c'" for c'
    using sends_ok_same_torrent [OF that] inv by (simp add: same_torrent_def)
  note torrent = same_torrent_cong [of c0 "coord n"]
  show ?thesis
    using assms(1)
  proof cases
    case (connects i s k)
    then show ?thesis using inv by (auto simp: client_ok_def connection_ok_def same_torrent_def)
  next
    case (receives i x y)
    then have "input_ok c0 y" by (cases y) (simp_all add: is_command_def)
    then show ?thesis using inv receives by (auto simp: client_ok_def connection_ok_def)
  next
    case (commanded i x cmd)
    let ?c = "(coord n)\<lparr>chans := (chans (coord n))(cchan x := [])\<rparr>"
    have "coord_reachable ?c" using inv coord_reachable.step coord_step.command_taken by blast
    moreover have "command_ok c0 cmd"
      using commands_valid [of "coord n" cmd "cchan x"] inv commanded(3) command_ok_cong [of "coord n" c0 cmd]
      by (auto simp: same_torrent_def)
    moreover have "same_torrent c0 ?c" using inv by (simp add: same_torrent_def)
    ultimately show ?thesis using inv commanded by (auto simp: client_ok_def connection_ok_def)
  next
    case (handles i x now coin taken c')
    let ?ev = "reported x ! chandled x"
    have x: "connection_ok c0 x" "genuine (coord n) = genuine c0" using inv handles(2) torrent(1) by auto
    have step: "coord_step (coord n) c'" by (rule coord_step.event [OF handles(5)])
    have "list_all (genuine c0) (results c')"
      using handle_results [OF handles(5) coord_reachable_ok] pending_event_ok(2) [OF x(1) handles(3) refl] inv by auto
    moreover have "connection_ok c0 (x\<lparr>chandled := Suc (chandled x)\<rparr>)" using x by (simp add: connection_ok_def)
    ultimately show ?thesis
      using inv handles(1,2) coord_reachable.step [OF _ step] same [OF step_sends_ok [OF step]] by (auto simp: client_ok_def)
  next
    case (ticks c')
    have step: "coord_step (coord n) c'" by (rule tick_step_coord [OF ticks(2)])
    have "results c' = results (coord n)" using tick_step_calm [OF ticks(2)] by (simp add: calm_def)
    then show ?thesis
      using inv ticks(1) coord_reachable.step [OF _ step] same [OF step_sends_ok [OF step]] by (simp add: client_ok_def)
  qed
qed

lemma client_run_ok:
  assumes "coord_reachable c0" "results c0 = []"
  shows "client_run ok c0 n \<Longrightarrow> client_ok c0 n"
proof (induction rule: client_run.induct)
  case begin_run
  show ?case using assms by (simp add: client_ok_def network_of_def same_torrent_def)
qed (rule client_step_ok)

section \<open>Every piece once\<close>

text \<open>
  As long as no failure comes late: a piece handed over is settled from then on, so it is handed over
  once, and never when it was already there at the start.
\<close>

definition once_ok :: "'a coordinator \<Rightarrow> 'a coordinator \<Rightarrow> bool" where
  "once_ok c0 c \<longleftrightarrow> distinct (map fst (results c)) \<and> (\<forall>i \<in> fst ` set (results c). settled i c \<and> \<not> settled i c0) \<and>
     (\<forall>i. settled i c0 \<longrightarrow> settled i c)"

lemma once_calm: "calm c c' \<Longrightarrow> once_ok c0 c \<Longrightarrow> once_ok c0 c'"
  by (auto simp: once_ok_def calm_def)

lemma once_handle:
  assumes "handle now coin taken ev c = Some c'" "timely c ev" "coordinator_ok c" "once_ok c0 c"
  shows "once_ok c0 c'"
proof (cases ev)
  case (PieceDownloaded a j d)
  then have h: "handlePieceDownloaded taken a j d c = Some c'" using assms(1) by simp
  note r = handle_downloaded [OF h assms(3)]
  have s: "settled i c \<Longrightarrow> settled i c'" for i using r(2) by (simp add: calm_def)
  have "\<not> settled j c" if "pieces c ! nat j \<noteq> pieceComplete" using that by (simp add: settled_def)
  then show ?thesis using assms(4) r(3,4) s unfolding once_ok_def by (auto split: if_splits)
next
  case (PieceFailed a i)
  then have "calm c c'" using assms(1,2) by (auto simp: timely_def intro: calm_handlePieceFailed)
  then show ?thesis by (rule once_calm [OF _ assms(4)])
qed (use once_calm [OF keeping.handled [OF assms(1)] assms(4)] in simp_all)

lemma once_step:
  assumes "client_step timely n n'" "coord_reachable (coord n)" "once_ok c0 (coord n)"
  shows "once_ok c0 (coord n')"
  using assms(1)
proof cases
  case (commanded i x cmd)
  have "calm (coord n) (coord n')" by (simp add: commanded(1) calm_def settled_def assignees_def)
  then show ?thesis by (rule once_calm [OF _ assms(3)])
next
  case (handles i x now coin taken c')
  then show ?thesis using once_handle [OF handles(5,4) coord_reachable_ok [OF assms(2)] assms(3)] by simp
next
  case (ticks c')
  then show ?thesis using once_calm [OF tick_step_calm assms(3)] by simp
qed (use assms(3) in simp_all)

lemma client_run_once:
  assumes "coord_reachable c0" "results c0 = []"
  shows "client_run timely c0 n \<Longrightarrow> once_ok c0 (coord n)"
proof (induction rule: client_run.induct)
  case begin_run
  show ?case using assms(2) by (simp add: once_ok_def network_of_def)
next
  case (more n n')
  then show ?case using once_step client_run_ok [OF assms more.hyps(1)] by (blast intro: once_step dest: client_ok_def [THEN iffD1])
qed

section \<open>The loop and its coordinator\<close>

text \<open>The results the loop was given, in order; they are a part of what the coordinator handed over.\<close>

fun delivered :: "loop_stimulus list \<Rightarrow> piece_result list" where
  "delivered [] = []"
| "delivered (ResultIn i data w sync now http fin # xs) = (i, data) # delivered xs"
| "delivered (_ # xs) = delivered xs"

definition fed_by :: "'a network \<Rightarrow> loop_stimulus list \<Rightarrow> bool" where
  "fed_by n xs \<longleftrightarrow> (\<exists>k. delivered xs = take k (results (coord n)))"

lemma delivered_indices: "map fst (delivered xs) = result_indices xs"
  by (induction xs rule: delivered.induct) simp_all

lemma delivered_ok: "(\<forall>(i, data) \<in> set (delivered xs). authentic t i data) \<Longrightarrow> list_all (stim_ok t) xs"
  by (induction xs rule: delivered.induct) auto

text \<open>The coordinator a start creates.\<close>

lemma resume_same: "resume t now i vs (c, d) = Some (Inr (c', d')) \<Longrightarrow> same_torrent c c' \<and> results c' = results c"
proof (induction vs arbitrary: i c d)
  case (Cons v vs)
  show ?case
  proof (cases v)
    case True
    then obtain c1 d1 where "MarkComplete i c = Some c1" "resume t now (i + 1) vs (c1, d1) = Some (Inr (c', d'))"
      using Cons.prems by (auto split: sum.splits option.splits geometry_error.splits)
    then show ?thesis using Cons.IH by (auto simp: MarkComplete_def set_piece_Some same_torrent_def)
  qed (use Cons in simp)
qed (simp add: same_torrent_def)

lemma started_coordinator:
  assumes "open_and_scan t su = Some (Inr (c, d))"
  shows "pieceCount c = PieceCount t" "pieceLength c = PieceLength t" "totalLength c = TotalLength t"
    "pieceHashes c = PiecesHashes t" "results c = []"
proof -
  obtain vs f where "resume t (StartTime su) 0 vs (NewCoordinator (PieceCount t) (PieceLength t) (TotalLength t) (PiecesHashes t)
      (Some (NewProgress (PieceCount t))) (Some NewRateTracker) (FreshSlices su) (FreshSlice su), new_download t f) = Some (Inr (c, d))"
    using assms by (auto simp: open_and_scan_def split: sum.splits storage_error.splits)
  from resume_same [OF this] show "pieceCount c = PieceCount t" "pieceLength c = PieceLength t" "totalLength c = TotalLength t"
    "pieceHashes c = PiecesHashes t" "results c = []"
    by (simp_all add: same_torrent_def NewCoordinator_def)
qed

lemma genuine_authentic:
  assumes "torrent_fits t" "open_and_scan t su = Some (Inr (c, d))" "genuine c (i, data)"
  shows "authentic t i data"
proof -
  note s = started_coordinator [OF assms(2)]
  have g: "geometry_ok (PieceCount t, PieceLength t, TotalLength t)" using assms(1) by (simp add: torrent_fits_def geom_of_def)
  have i: "0 \<le> i" "i < PieceCount t" using assms(3) by (simp_all add: genuine_def s)
  show ?thesis using assms(3) Length_piece_len(1) [OF g i] i by (simp add: genuine_def authentic_def geom_of_def s)
qed

text \<open>What a loop fed by such a coordinator is given.\<close>

lemma fed_results:
  assumes "torrent_fits t" "scan_fits t su" "open_and_scan t su = Some (Inr (c0, d0))" "client_run timely c0 n" "fed_by n xs"
  shows "list_all (stim_ok t) xs" "distinct (result_indices xs)"
    "\<forall>i \<in> set (result_indices xs). \<not> on_disk t (found_file t su) i"
proof -
  have start: "coord_reachable c0"
    "\<And>i. 0 \<le> i \<Longrightarrow> i < PieceCount t \<Longrightarrow> (pieces c0 ! nat i = pieceComplete) = on_disk t (found_file t su) i"
    using open_and_scan_ok [OF assms(1,2)] assms(3) by auto
  note st = started_coordinator [OF assms(3)]
  note ok = client_run_ok [OF start(1) st(5) assms(4)] and once = client_run_once [OF start(1) st(5) assms(4)]
  obtain k where k: "delivered xs = take k (results (coord n))" using assms(5) by (auto simp: fed_by_def)
  have sub: "set (delivered xs) \<subseteq> set (results (coord n))" unfolding k by (rule set_take_subset)
  have gen: "genuine c0 r" if "r \<in> set (delivered xs)" for r
    using that sub ok by (auto simp: client_ok_def list_all_iff)
  show "list_all (stim_ok t) xs"
    by (rule delivered_ok) (use genuine_authentic [OF assms(1,3)] gen in blast)
  show "distinct (result_indices xs)"
    using once unfolding delivered_indices [symmetric] k by (simp add: once_ok_def take_map [symmetric])
  show "\<forall>i \<in> set (result_indices xs). \<not> on_disk t (found_file t su) i"
  proof
    fix i assume "i \<in> set (result_indices xs)"
    then obtain data where r: "(i, data) \<in> set (delivered xs)" unfolding delivered_indices [symmetric] by auto
    then have "\<not> settled i c0" using once sub by (force simp: once_ok_def)
    then show "\<not> on_disk t (found_file t su) i"
      using gen [OF r] start settled_complete [OF coord_reachable_ok [OF start(1)]] st(1) by (auto simp: genuine_def)
  qed
qed

end
