(* ===== verification/System_Props.thy ===== *)
theory System_Props
  imports System
begin

text \<open>
  What the whole client guarantees: the results the main loop receives, the file a successful exit
  leaves behind, and who may talk to it; then a run from the first message of a peer to that exit.
\<close>

section \<open>Properties\<close>

text \<open>
  C2. What the main loop receives is right: in a client of any number of connections, whatever the peers
  send and whatever the clock, the map orders and the random draws do, every event a connection has
  waiting is handled without a panic, and every piece handed to the main loop lies in the torrent and
  has the length and the SHA-1 hash it gives for that piece.
\<close>

theorem client_results_are_genuine:
  assumes "coord_reachable c0" "results c0 = []" "client_run ok c0 n"
  shows "(\<forall>(i, d) \<in> set (results (coord n)). genuine c0 (i, d)) \<and>
    (\<forall>i x. conns n i = Some x \<and> chandled x < length (reported x) \<longrightarrow>
      (\<exists>c'. handle now coin taken (reported x ! chandled x) (coord n) = Some c'))"
proof -
  note inv = client_run_ok [OF assms, unfolded client_ok_def]
  have "\<exists>c'. handle now coin taken (reported x ! chandled x) (coord n) = Some c'"
    if "conns n i = Some x" "chandled x < length (reported x)" for i x
    using ok_handle [OF coord_reachable_ok, of "coord n"] pending_event_ok(1) [of c0 x, OF _ that(2) refl] inv that
    by (metis same_torrent_def)
  then show ?thesis using inv by (auto simp: list_all_iff)
qed

text \<open>
  C3. Every piece once: as long as no failure is reported for a piece that was completed meanwhile, the
  coordinator hands over no piece twice, none that was on disk from the start, and what it handed
  over stays complete.
\<close>

theorem client_delivers_each_piece_once:
  assumes "coord_reachable c0" "results c0 = []" "client_run timely c0 n"
  shows "distinct (map fst (results (coord n))) \<and>
    (\<forall>(i, d) \<in> set (results (coord n)). pieces c0 ! nat i \<noteq> pieceComplete \<and> pieces (coord n) ! nat i = pieceComplete)"
proof -
  note once = client_run_once [OF assms] and ok = client_run_ok [OF assms]
  have "pieces c0 ! nat i \<noteq> pieceComplete \<and> pieces (coord n) ! nat i = pieceComplete" if r: "(i, d) \<in> set (results (coord n))" for i d
  proof -
    have "settled i (coord n)" "\<not> settled i c0" using once r by (force simp: once_ok_def)+
    moreover have "0 \<le> i \<and> i < pieceCount c0" using ok r by (auto simp: client_ok_def list_all_iff genuine_def)
    ultimately show ?thesis using settled_complete [OF coord_reachable_ok [OF assms(1)]] by (auto simp: settled_def)
  qed
  then show ?thesis using once by (auto simp: once_ok_def)
qed

text \<open>
  C1. The whole program, end to end: when \<open>p2pget\<close> exits 0 without having been told to stop, its disk
  worked, and its main loop was fed by a client run - connections, coordinator and main loop together -
  in which no failure came late, then every piece of the torrent is on disk with the right hash.
\<close>

theorem p2pget_end_to_end:
  assumes "main w fl = Exit 0 (Some (t, d))" "CallerDone \<notin> set (Stimuli w)"
    and "scan_fits t (Start w)" "TotalLength t + PieceLength t \<le> 2 ^ 63"
    and "open_and_scan t ((Start w)\<lparr>Existing := Files_at w (output_path (outDir fl) t)\<rparr>) = Some (Inr (c0, d0))"
    and "client_run timely c0 n" "fed_by n (Stimuli w)"
    and "0 \<le> i" "i < PieceCount t"
  shows "on_disk t (dfile d) i"
proof -
  let ?su = "(Start w)\<lparr>Existing := Files_at w (output_path (outDir fl) t)\<rparr>"
  have "\<exists>data. Parse data = Inr t" using exit_zero [OF assms(1)] by blast
  then have fits: "torrent_fits t" using Parse_facts assms(4) by (auto simp: torrent_fits_def geom_of_def)
  have scan: "scan_fits t ?su" using assms(3) by (simp add: scan_fits_def)
  show ?thesis
    using p2pget_success [OF assms(1-4) fed_results [OF fits scan assms(5-7)]] assms(8,9) by blast
qed

text \<open>
  A connection never takes back what it reported: whatever it picks up next, the events it has
  reported so far - some of them handled by the coordinator already - stay the beginning of its reports.
\<close>

theorem reports_are_final:
  "prefix (reported x) (reported (x\<lparr>cinputs := cinputs x @ ys\<rparr>))"
  by (simp add: reported_def reported_grows)

text \<open>
  C31. Who may talk to us: a session for an incoming connection is started - and anything is reported to
  the coordinator - exactly when the remote address parses and the peer opened with a handshake for
  our torrent (and the socket worked); its events then carry that address. Otherwise the socket is
  closed, and a peer that did not send such a handshake has not been told anything.
\<close>

theorem incoming_needs_handshake:
  assumes "evs s = []"
  shows "case handle_incoming remote d1 w d2 infoHash ourID k s xs c of
      (Some r, c1) \<Rightarrow> (\<exists>a h rest. remote = Some a \<and> claims c infoHash h rest) \<and> d1 \<and> w = WroteAll \<and> d2 \<and>
        (\<forall>ev \<in> set (evs (end_session r)). Some (event_addr ev) = remote)
    | (None, c1) \<Rightarrow> \<not> NOpen c1 \<and> (remote = None \<or> \<not> (d1 \<and> w = WroteAll \<and> d2 \<and> (\<exists>h rest. claims c infoHash h rest))) \<and>
        ((\<nexists>h rest. claims c infoHash h rest) \<longrightarrow> NOut c1 = NOut c)"
proof (cases remote)
  case None
  then show ?thesis by (simp add: handle_incoming_def net_close_def)
next
  case (Some a)
  obtain r c1 where A: "Accept d1 w d2 c infoHash ourID = (r, c1)" by fastforce
  note acc = accept_exact [of d1 w d2 c infoHash ourID, unfolded A fst_conv snd_conv]
  show ?thesis
  proof (cases r)
    case (Inl e)
    then show ?thesis using acc A Some by (auto simp: handle_incoming_def net_close_def)
  next
    case (Inr pconn)
    have "event_addr ev = a" if "ev \<in> set (evs (end_session (serveIncoming k (s\<lparr>sconn := pconn, saddr := a\<rparr>) xs)))" for ev
      using reported_addr [OF _ that] assms by simp
    then show ?thesis using Inr acc A Some by (auto simp: handle_incoming_def)
  qed
qed


section \<open>A concrete run\<close>

text \<open>
  The torrent of the one piece "abc", no file yet, and one connection to a peer that has the piece: it
  sends its bitfield, unchokes us, is assigned the piece and sends it.
\<close>

definition abc_peer :: addr_port where
  "abc_peer = \<lparr>Addr = Addr4 [10, 0, 0, 1], Port = 6881\<rparr>"

definition abc_coord :: "bytes \<Rightarrow> addr_port coordinator" where
  "abc_coord h = NewCoordinator 1 3 3 [h] (Some (NewProgress 1)) (Some NewRateTracker) (\<lambda>_. []) 0"

definition abc_session :: "addr_port session" where
  "abc_session = \<lparr>sconn = newConn \<lparr>NIn = [], NErr = EOF, NOut = [], NOpen = True\<rparr> [] [], saddr = abc_peer, spieceCount = 1,
     sprogress = None, srates = None, seed = None, peerRef = 0, sslices = (\<lambda>_. []), snext = 0, sent = 0,
     io = (\<lambda>_. (True, WroteAll)), evs = [], live = (\<lambda>_. True)\<rparr>"

definition abc_joined :: "addr_port session" where
  "abc_joined = snd (declare_state (peerBitfieldFor (abc_session\<lparr>evs := [PeerJoined abc_peer 0]\<rparr>)))"

definition abc_ready :: "addr_port session" where
  "abc_ready = end_session (session_loop abc_joined [Msg 0 (BitfieldMsg [0x80]), Msg 1 UnchokeMsg])"

lemma abc_serve:
  "serveIncoming 0 abc_session xs = (case session_loop abc_joined xs of
     Closed s3 \<Rightarrow> Closed (leave_session s3)
   | Crashed s3 \<Rightarrow> Closed ((leave_session s3)\<lparr>sprogress := map_option PanicRecovered (sprogress (leave_session s3))\<rparr>)
   | r \<Rightarrow> r)"
proof -
  have "fst (declare_state (peerBitfieldFor (abc_session\<lparr>evs := [PeerJoined abc_peer 0]\<rparr>)))" by code_simp
  then have "declare_state (peerBitfieldFor (abc_session\<lparr>evs := [PeerJoined abc_peer 0]\<rparr>)) = (True, abc_joined)"
    unfolding abc_joined_def by (cases "declare_state (peerBitfieldFor (abc_session\<lparr>evs := [PeerJoined abc_peer 0]\<rparr>))") simp
  moreover have "sendEvent (PeerJoined (saddr abc_session) 0) (abc_session\<lparr>sprogress := map_option PeerConnected (sprogress abc_session)\<rparr>) =
      (True, abc_session\<lparr>evs := [PeerJoined abc_peer 0]\<rparr>)"
    by (simp add: abc_session_def sendEvent_def)
  ultimately show ?thesis
    by (simp add: serveIncoming_def runConnection_def split: session_end.split)
qed

lemma abc_greets: "session_loop abc_joined (Msg 0 (BitfieldMsg [0x80]) # Msg 1 UnchokeMsg # xs) = session_loop abc_ready xs"
proof -
  have "case handleMessage 0 (BitfieldMsg [0x80]) abc_joined of Some (ok, s1) \<Rightarrow> ok \<and>
      (case handleMessage 1 UnchokeMsg s1 of Some (ok, s2) \<Rightarrow> ok | None \<Rightarrow> False) | None \<Rightarrow> False"
    by code_simp
  then obtain s1 s2 where "handleMessage 0 (BitfieldMsg [0x80]) abc_joined = Some (True, s1)" "handleMessage 1 UnchokeMsg s1 = Some (True, s2)"
    by (auto split: option.splits prod.splits)
  then show ?thesis by (simp add: abc_ready_def)
qed

lemma abc_ready_facts: "evs abc_ready = [PeerJoined abc_peer 0, BitfieldReceived abc_peer 1, UnchokeReceived abc_peer]"
  "saddr abc_ready = abc_peer" "live abc_ready = (\<lambda>_. True)"
proof -
  show "evs abc_ready = [PeerJoined abc_peer 0, BitfieldReceived abc_peer 1, UnchokeReceived abc_peer]" by code_simp
  have "same_session abc_session abc_joined"
    using declare_state_same [of "peerBitfieldFor (abc_session\<lparr>evs := [PeerJoined abc_peer 0]\<rparr>)"]
    by (auto simp: abc_joined_def peerBitfieldFor_def same_session_def split_pairs2)
  then have "same_session abc_session abc_ready"
    using session_loop_reports [where s = abc_joined, OF order.refl, of "[Msg 0 (BitfieldMsg [0x80]), Msg 1 UnchokeMsg]"]
    unfolding abc_ready_def reports_def by (blast intro: same_session_trans)
  then show "saddr abc_ready = abc_peer" "live abc_ready = (\<lambda>_. True)" by (simp_all add: same_session_def abc_session_def)
qed

lemma abc_piece_arrives:
  "case downloadBlocks \<lparr>Index = 0, ExpectedHash = h, WLength = 3\<rparr> abc_ready [Msg 2 (PieceMsg 0 0 [97, 98, 99])] of
     Finished b s ys \<Rightarrow> b = [97, 98, 99] \<and> ys = [] \<and> evs s = evs abc_ready
   | _ \<Rightarrow> False"
  by code_simp

definition abc_messages :: "input list" where
  "abc_messages = [Msg 0 (BitfieldMsg [0x80]), Msg 1 UnchokeMsg]"

definition abc_work :: "input list" where
  "abc_work = [Cmd (AssignPiece 0 3 (sha1_Sum [97, 98, 99])), Msg 2 (PieceMsg 0 0 [97, 98, 99])]"

lemma abc_reported:
  "reported \<lparr>cstart = abc_session, cchan = 0, cinputs = abc_messages, chandled = k\<rparr> =
    [PeerJoined abc_peer 0, BitfieldReceived abc_peer 1, UnchokeReceived abc_peer]"
  "reported \<lparr>cstart = abc_session, cchan = 0, cinputs = abc_messages @ abc_work, chandled = k\<rparr> =
    [PeerJoined abc_peer 0, BitfieldReceived abc_peer 1, UnchokeReceived abc_peer,
     PieceDownloaded abc_peer 0 [97, 98, 99], PeerReady abc_peer]"
proof -
  have idle: "session_loop abc_ready [] = Open abc_ready" by simp
  show "reported \<lparr>cstart = abc_session, cchan = 0, cinputs = abc_messages, chandled = k\<rparr> =
      [PeerJoined abc_peer 0, BitfieldReceived abc_peer 1, UnchokeReceived abc_peer]"
    by (simp add: reported_def abc_serve abc_messages_def abc_greets idle abc_ready_facts del: session_loop.simps)
  let ?w = "\<lparr>Index = 0, ExpectedHash = sha1_Sum [97, 98, 99], WLength = 3\<rparr>"
  obtain s1 where s1: "downloadBlocks ?w abc_ready [Msg 2 (PieceMsg 0 0 [97, 98, 99])] = Finished [97, 98, 99] s1 []"
    "evs s1 = evs abc_ready"
    using abc_piece_arrives [of "sha1_Sum [97, 98, 99]"] by (auto split: piece_outcome.splits)
  then have P: "Piece ?w abc_ready [Msg 2 (PieceMsg 0 0 [97, 98, 99])] = Finished [97, 98, 99] s1 []"
    by (simp add: Piece_def Verify_def ExpectedHashSize_def sha1_Size_def)
  obtain e t where v: "via (\<lambda>d w. SendHave d w 0) s1 = (e, t)" by fastforce
  have "same_session abc_ready s1"
    using Piece_reports(1) [of abc_ready "[]" ?w "[Msg 2 (PieceMsg 0 0 [97, 98, 99])]"] P by (simp add: reports_def)
  then have t: "live t = (\<lambda>_. True)" "evs t = evs abc_ready" "saddr t = abc_peer"
    using via_same [OF v] s1(2) abc_ready_facts(2,3) by (simp_all add: same_session_def)
  have "session_loop abc_ready abc_work = Open (t\<lparr>evs := evs t @ [PieceDownloaded abc_peer 0 [97, 98, 99], PeerReady abc_peer]\<rparr>)"
    unfolding abc_work_def by (simp add: P v t(1) abc_ready_facts(2) sendEvent_def)
  then show "reported \<lparr>cstart = abc_session, cchan = 0, cinputs = abc_messages @ abc_work, chandled = k\<rparr> =
    [PeerJoined abc_peer 0, BitfieldReceived abc_peer 1, UnchokeReceived abc_peer,
     PieceDownloaded abc_peer 0 [97, 98, 99], PeerReady abc_peer]"
    by (simp add: reported_def abc_serve abc_messages_def abc_greets abc_ready_facts(1) t(2) del: session_loop.simps)
qed

text \<open>The coordinator's side; the slice of the peer's bitfield is allocated by its session.\<close>

lemma abc_coordination:
  "map_option (\<lambda>(c3, c4). (chans c3 0, results c4)) (do {
      c1 \<leftarrow> handle 0 (\<lambda>_. True) True (PeerJoined abc_peer 0) (abc_coord h);
      c2 \<leftarrow> handle 1 (\<lambda>_. True) True (BitfieldReceived abc_peer 1)
        (c1\<lparr>slices := (slices c1)(nextSlice c1 := [0x80]), nextSlice := Suc (nextSlice c1)\<rparr>);
      c3 \<leftarrow> handle 2 (\<lambda>_. True) True (UnchokeReceived abc_peer) c2;
      c4 \<leftarrow> handle 3 (\<lambda>_. True) True (PieceDownloaded abc_peer 0 d) (c3\<lparr>chans := (chans c3)(0 := [])\<rparr>);
      Some (c3, c4)}) = Some ([AssignPiece 0 3 h], [(0, d)])"
  by code_simp

definition abc_connection :: "input list \<Rightarrow> nat \<Rightarrow> addr_port connection" where
  "abc_connection xs k = \<lparr>cstart = abc_session, cchan = 0, cinputs = xs, chandled = k\<rparr>"

text \<open>The steps of a client with one connection.\<close>

definition single :: "'a coordinator \<Rightarrow> 'a connection \<Rightarrow> 'a network" where
  "single c x = \<lparr>coord = c, conns = [0 \<mapsto> x]\<rparr>"

lemma single_steps:
  assumes "client_run ok c0 (single c x)"
  shows "\<not> is_command y \<Longrightarrow> client_run ok c0 (single c (x\<lparr>cinputs := cinputs x @ [y]\<rparr>))"
    "chans c (cchan x) = [cmd] \<Longrightarrow> client_run ok c0 (single (c\<lparr>chans := (chans c)(cchan x := [])\<rparr>) (x\<lparr>cinputs := cinputs x @ [Cmd cmd]\<rparr>))"
    "reported x = xs \<Longrightarrow> chandled x < length xs \<Longrightarrow> ok c (xs ! chandled x) \<Longrightarrow> handle now coin taken (xs ! chandled x) c = Some c' \<Longrightarrow>
      client_run ok c0 (single c' (x\<lparr>chandled := Suc (chandled x)\<rparr>))"
    "tick_step c c' \<Longrightarrow> client_run ok c0 (single c' x)"
  using client_run.more [OF assms client_step.receives [of _ 0 x]] client_run.more [OF assms client_step.commanded [of _ 0 x]]
    client_run.more [OF assms client_step.handles [of _ 0 x]] client_run.more [OF assms client_step.ticks]
  by (simp_all add: single_def)

lemma abc_client_run:
  obtains n where "client_run timely (abc_coord (sha1_Sum [97, 98, 99])) n" "results (coord n) = [(0, [97, 98, 99])]"
    "conns n = [0 \<mapsto> abc_connection (abc_messages @ abc_work) 4]"
proof -
  let ?h = "sha1_Sum [97, 98, 99]"
  obtain c1 c2 c3 c4 where c1: "handle 0 (\<lambda>_. True) True (PeerJoined abc_peer 0) (abc_coord ?h) = Some c1"
    and c2: "handle 1 (\<lambda>_. True) True (BitfieldReceived abc_peer 1)
        (c1\<lparr>slices := (slices c1)(nextSlice c1 := [0x80]), nextSlice := Suc (nextSlice c1)\<rparr>) = Some c2"
    and c3: "handle 2 (\<lambda>_. True) True (UnchokeReceived abc_peer) c2 = Some c3"
    and c4: "handle 3 (\<lambda>_. True) True (PieceDownloaded abc_peer 0 [97, 98, 99]) (c3\<lparr>chans := (chans c3)(0 := [])\<rparr>) = Some c4"
    and r: "chans c3 0 = [AssignPiece 0 3 ?h]" "results c4 = [(0, [97, 98, 99])]"
    using abc_coordination [of ?h "[97, 98, 99]"] by (auto simp del: handle.simps split: bind_splits)
  have t: "timely c (PeerJoined a k)" "timely c (BitfieldReceived a k)" "timely c (UnchokeReceived a)" "timely c (PieceDownloaded a i d)"
    for c :: "addr_port coordinator" and a k i d by (simp_all add: timely_def)
  let ?run = "\<lambda>c xs k. client_run timely (abc_coord ?h) (single c (abc_connection xs k))"
  note rep = abc_reported [folded abc_connection_def] and f = abc_connection_def
  have "?run (abc_coord ?h) [] 0"
    using client_run.more [OF begin_run client_step.connects [of _ 0 abc_session timely 0]]
    by (simp add: network_of_def single_def abc_session_def abc_coord_def NewCoordinator_def f)
  from single_steps(1) [OF this, of "Msg 0 (BitfieldMsg [0x80])"] have "?run (abc_coord ?h) [Msg 0 (BitfieldMsg [0x80])] 0"
    by (simp add: f is_command_def)
  from single_steps(1) [OF this, of "Msg 1 UnchokeMsg"] have "?run (abc_coord ?h) abc_messages 0"
    by (simp add: f is_command_def abc_messages_def)
  from single_steps(3) [OF this rep(1)] c1 t have "?run c1 abc_messages 1" by (simp add: f del: handle.simps)
  from single_steps(4) [OF this tick_step.allocated]
  have "?run (c1\<lparr>slices := (slices c1)(nextSlice c1 := [0x80]), nextSlice := Suc (nextSlice c1)\<rparr>) abc_messages 1" .
  from single_steps(3) [OF this rep(1)] c2 t have "?run c2 abc_messages 2" by (simp add: f numeral_eq_Suc del: handle.simps)
  from single_steps(3) [OF this rep(1)] c3 t have "?run c3 abc_messages 3" by (simp add: f eval_nat_numeral del: handle.simps)
  from single_steps(2) [OF this, of "AssignPiece 0 3 ?h"] r(1)
  have "?run (c3\<lparr>chans := (chans c3)(0 := [])\<rparr>) (abc_messages @ [Cmd (AssignPiece 0 3 ?h)]) 3" by (simp add: f)
  from single_steps(1) [OF this, of "Msg 2 (PieceMsg 0 0 [97, 98, 99])"]
  have "?run (c3\<lparr>chans := (chans c3)(0 := [])\<rparr>) (abc_messages @ abc_work) 3" by (simp add: f is_command_def abc_work_def)
  from single_steps(3) [OF this rep(2)] c4 t have "?run c4 (abc_messages @ abc_work) 4" by (simp add: f eval_nat_numeral del: handle.simps)
  then show thesis using that r(2) by (simp add: single_def)
qed

lemma abc_coord_start: "coord_reachable (abc_coord h)" "results (abc_coord h) = []"
proof -
  show "coord_reachable (abc_coord h)"
    unfolding abc_coord_def by (rule coord_reachable.start [where held = "[]"]) simp_all
qed (simp add: abc_coord_def NewCoordinator_def)

theorem client_results_are_genuine_witness:
  "\<exists>n :: addr_port network. results (coord n) = [(0, [97, 98, 99])] \<and> genuine (abc_coord (sha1_Sum [97, 98, 99])) (0, [97, 98, 99])"
proof -
  obtain n where n: "client_run timely (abc_coord (sha1_Sum [97, 98, 99])) n" "results (coord n) = [(0, [97, 98, 99])]"
    by (rule abc_client_run)
  then show ?thesis using client_results_are_genuine [OF abc_coord_start n(1), of 0 "\<lambda>_. True" True] n(2) by (intro exI [of _ n]) simp
qed

theorem client_delivers_each_piece_once_witness:
  "\<exists>n :: addr_port network. results (coord n) = [(0, [97, 98, 99])] \<and> pieces (coord n) ! 0 = pieceComplete"
proof -
  obtain n where n: "client_run timely (abc_coord (sha1_Sum [97, 98, 99])) n" "results (coord n) = [(0, [97, 98, 99])]"
    by (rule abc_client_run)
  then show ?thesis using client_delivers_each_piece_once [OF abc_coord_start n(1)] n(2) by (intro exI [of _ n]) simp
qed

text \<open>The program on that torrent, its loop fed by that client.\<close>

definition abc_world :: world where
  "abc_world = \<lparr>Files_at = [bs ''t.torrent'' \<mapsto> torrent_file abc_torrent],
     Rand = (\<lambda>n. Some (replicate n 7)), UrlParser = urlParser abc_env, Ipv6Parser = ipv6Parser abc_env,
     Start = abc_start, Stimuli = [ResultIn 0 [97, 98, 99] None True 1 no_peers 2]\<rparr>"

lemma abc_parses: "Parse (torrent_file abc_torrent) = Inr abc_torrent"
  by (rule Parse_torrent_file)
    (simp add: torrent_ok_def abc_torrent_def Let_def validate_None PieceCount_def expected_pieces_def empty_torrent_def
      i64_def sdiv_nonneg name_safe_def MaxStringLength_def info_of_def)

lemma abc_path: "output_path (bs ''.'') abc_torrent = bs ''./f''"
  by (simp add: output_path_def abc_torrent_def Let_def)

lemma abc_startup: "(Start abc_world)\<lparr>Existing := Files_at abc_world (output_path (bs ''.'') abc_torrent)\<rparr> = abc_start"
  unfolding abc_path by (simp add: abc_world_def) (simp add: abc_start_def tiny_start_def)

lemma abc_exits: "\<exists>d. main abc_world tiny_flags = Exit 0 (Some (abc_torrent, d))"
proof -
  obtain d where D: "Download abc_env abc_start [ResultIn 0 [97, 98, 99] None True 1 no_peers 2] = Returned None d"
    by (rule abc_completes)
  have "GeneratePeerID (\<lambda>n. Some (replicate n 7)) = Some (bs ''-GO0001-'' @ replicate 12 7)"
    by code_simp
  then have id: "GeneratePeerID (Rand abc_world) = Some (peerID abc_env)"
    by (simp add: abc_world_def abc_env_def tiny_env_def)
  have env: "\<lparr>tor = abc_torrent, peerID = peerID abc_env, opts = \<lparr>OptPort = 6881, MaxPeers = 0, OptSeed = False\<rparr>,
      urlParser = UrlParser abc_world, ipv6Parser = Ipv6Parser abc_world\<rparr> = abc_env"
    by (simp add: abc_world_def abc_env_def tiny_env_def)
  have "main abc_world tiny_flags = Exit 0 (Some (abc_torrent, d))"
  proof (rule main_returns [OF tiny_flags_def _ _ abc_parses id])
    show "Files_at abc_world (bs ''t.torrent'') = Some (torrent_file abc_torrent)" by (simp add: abc_world_def)
    have "Stimuli abc_world = [ResultIn 0 [97, 98, 99] None True 1 no_peers 2]" by (simp add: abc_world_def)
    then show "Download \<lparr>tor = abc_torrent, peerID = peerID abc_env, opts = \<lparr>OptPort = 6881, MaxPeers = 0, OptSeed = False\<rparr>,
        urlParser = UrlParser abc_world, ipv6Parser = Ipv6Parser abc_world\<rparr>
      ((Start abc_world)\<lparr>Existing := Files_at abc_world (output_path (bs ''.'') abc_torrent)\<rparr>) (Stimuli abc_world) = Returned None d"
      unfolding env abc_startup by (simp add: D)
  qed simp
  then show ?thesis by blast
qed

lemma abc_opens: "\<exists>d. open_and_scan abc_torrent abc_start = Some (Inr (abc_coord (sha1_Sum [97, 98, 99]), d))"
proof -
  have g: "geometry_ok (1, 3, 3)" by (simp add: geometry_ok.simps)
  have c: "fst (Create True True 3 None) = Inr [0, 0, 0]" by (simp add: Create_def truncate_to_def numeral_eq_Suc Let_def)
  have "piece_lo (1, 3, 3) 0 = 0" "piece_hi (1, 3, 3) 0 = 3" by code_simp+
  moreover have "sha1_Sum [0, 0, 0] \<noteq> sha1_Sum [97, 98, 99]" by (simp add: sha1_abc sha1_zeros)
  ultimately have v: "VerifyExisting (Opened [0, 0, 0]) [0] 1 3 3 [sha1_Sum [97, 98, 99]] = Inr [False]"
    using VerifyExisting_eq [OF g, of "[0, 0, 0]" "[sha1_Sum [97, 98, 99]]" "[0]"] by (auto simp: slice_of_def)
  have su: "OpenOk abc_start" "TruncateOk abc_start" "Existing abc_start = None" "Reopen abc_start = None" "ScanOrder abc_start = [0]"
    "FreshSlices abc_start = (\<lambda>_. [])" "FreshSlice abc_start = 0"
    by (simp_all add: abc_start_def tiny_start_def)
  show ?thesis
    using c v by (simp add: open_and_scan_def abc_facts su abc_coord_def)
qed

theorem p2pget_end_to_end_witness:
  "\<exists>d. main abc_world tiny_flags = Exit 0 (Some (abc_torrent, d)) \<and> on_disk abc_torrent (dfile d) 0"
proof -
  obtain d where d: "main abc_world tiny_flags = Exit 0 (Some (abc_torrent, d))" using abc_exits by blast
  obtain d0 where d0: "open_and_scan abc_torrent abc_start = Some (Inr (abc_coord (sha1_Sum [97, 98, 99]), d0))"
    using abc_opens by blast
  obtain n where n: "client_run timely (abc_coord (sha1_Sum [97, 98, 99])) n" "results (coord n) = [(0, [97, 98, 99])]"
    by (rule abc_client_run)
  have w: "Stimuli abc_world = [ResultIn 0 [97, 98, 99] None True 1 no_peers 2]" "Start abc_world = abc_start"
    "outDir tiny_flags = bs ''.''"
    by (simp_all add: abc_world_def tiny_flags_def)
  have "fed_by n (Stimuli abc_world)" unfolding fed_by_def by (rule exI [of _ 1]) (simp add: w n(2))
  then show ?thesis
    using p2pget_end_to_end [OF d, of "abc_coord (sha1_Sum [97, 98, 99])" d0 n 0] abc_fits(2) abc_startup d0 n(1) d
    by (auto simp: w abc_facts)
qed

text \<open>A stranger with a handshake for another torrent.\<close>

theorem incoming_needs_handshake_witness:
  "\<exists>c1. handle_incoming (Some abc_peer) True WroteAll True (replicate 20 1) (replicate 20 9) 0 abc_session []
      \<lparr>NIn = SerializeHandshake (our_handshake (replicate 20 2) (replicate 20 7)), NErr = EOF, NOut = [], NOpen = True\<rparr> = (None, c1) \<and>
    \<not> NOpen c1 \<and> NOut c1 = []"
proof -
  let ?c = "\<lparr>NIn = SerializeHandshake (our_handshake (replicate 20 2) (replicate 20 7)), NErr = EOF, NOut = [], NOpen = True\<rparr>"
  have other: "\<not> claims ?c (replicate 20 1) h rest" for h rest
  proof
    assume a: "claims ?c (replicate 20 1) h rest"
    have "our_handshake (replicate 20 2) (replicate 20 7) = h"
      using a SerializeHandshake_inject [of "our_handshake (replicate 20 2) (replicate 20 7)" h "[]" rest]
      by (simp add: claims_def handshake_ok_def our_handshake_def)
    then show False using a by (auto simp: claims_def our_handshake_def replicate_eq_replicate)
  qed
  have "evs abc_session = []" by (simp add: abc_session_def)
  from incoming_needs_handshake [OF this, where remote = "Some abc_peer" and ?d1.0 = True and w = WroteAll and ?d2.0 = True
      and infoHash = "replicate 20 1" and ourID = "replicate 20 9" and k = 0 and xs = "[]" and c = ?c] other
  show ?thesis by (auto split: prod.splits option.splits)
qed


end
