(* ===== verification/Session_End.thy ===== *)
theory Session_End
  imports Session_Prefix
begin

text \<open>
  How a connection ends. A session never outlives its reader - once \<open>messages\<close> is closed it returns,
  whatever else it picks up - and a peer that stays silent in the middle of a piece gives the piece back:
  when the piece times out or the connection dies, the coordinator is told of the failure and that the
  peer is gone. On the way, a waiting download is shown to go on exactly from where it waits.
\<close>

section \<open>A waiting download goes on from where it waits\<close>

lemma fill_again: "fill w d s = Go d1 s1 \<Longrightarrow> fill w d1 s1 = Go d1 s1"
proof (induction w d s rule: fill.induct)
  case (1 w d s)
  show ?case
  proof (cases "PeerChoking (sconn s) \<or> outstanding d \<ge> backlogLimit \<or> nextUnrequestedBlock (requested d) < 0")
    case True
    then have "fill w d s = Go d s" by (subst fill.simps) (auto simp: Let_def)
    then show ?thesis using "1.prems" by simp
  next
    case False
    then show ?thesis
      using "1.prems" "1.IH"
      by (subst (asm) fill.simps)
        (auto simp: Let_def split: sum.splits prod.splits option.splits geometry_error.splits)
  qed
qed

lemma downloadLoop_waits:
  assumes "downloadLoop w d s xs = Waiting d1 s1"
  shows "0 < remaining d1 \<and> fill w d1 s1 = Go d1 s1 \<and> downloadLoop w d s (xs @ ys) = downloadLoop w d1 s1 ys"
  using assms
proof (induction w d s xs rule: downloadLoop.induct)
  case (1 w d s)
  then have "fill w d s = Go d1 s1" "0 < remaining d" by (auto split: if_splits loop_result.splits)
  moreover from this have "remaining d1 = remaining d"
    by (induction w d s rule: fill.induct)
      (subst (asm) (2) fill.simps, auto simp: Let_def split: if_splits sum.splits prod.splits option.splits geometry_error.splits)
  moreover have "fill w d1 s1 = Go d1 s1" using fill_again [of w d s] calculation(1) .
  ultimately show ?case by (cases ys) auto
next
  case (2 w d s x xs)
  then show ?case by (auto split: if_splits loop_result.splits)
qed

lemma Piece_waits:
  assumes "Piece w s xs = Waiting d s1" "x = Deadline \<and> e = PieceTimeout \<or> x = MessagesClosed \<and> e = ConnectionClosed"
  shows "Piece w s (xs @ x # ys) = Failed e s1 ys"
proof -
  have b: "downloadBlocks w s xs = Waiting d s1"
    using assms(1) by (auto simp: Piece_def split: piece_outcome.splits sum.splits if_splits)
  then have "downloadBlocks w s (xs @ x # ys) = Failed e s1 ys"
    using assms(2) downloadLoop_waits [where w = w and s = s and xs = xs and ?d1.0 = d and ?s1.0 = s1 and ys = "x # ys"]
    by (auto simp: downloadBlocks_def split: if_splits sum.splits geometry_error.splits)
  then show ?thesis by (simp add: Piece_def)
qed

text \<open>The session keeps its address and its view of the coordinator all along.\<close>

lemma reports_addr: "reports P s s1 \<Longrightarrow> saddr s1 = saddr s \<and> live s1 = live s"
  using reports_id by blast

lemma sendEvent_addr [simp]: "saddr (snd (sendEvent ev s)) = saddr s" "live (snd (sendEvent ev s)) = live s"
  by (simp_all add: sendEvent_def)

lemma via_addr [simp]: "saddr (snd (via f s)) = saddr s" "live (snd (via f s)) = live s"
  using via_same [of f s "fst (via f s)" "snd (via f s)"] by (simp_all add: same_session_def)

lemma applyCommand_addr: "saddr (snd (applyCommand c s)) = saddr s"
  using applyCommand_same [of c s "fst (applyCommand c s)" "snd (applyCommand c s)"] by (simp add: same_session_def)

lemma Piece_addr: "saddr (outcome_session (Piece w s xs)) = saddr s"
  using reports_addr [OF Piece_reports(1) [of s "[]" w xs]] by simp

lemma loop_gives_up:
  assumes "session_loop s xs = Busy w d s1" "x = Deadline \<or> x = MessagesClosed"
  shows "session_loop s (xs @ x # ys) = Closed (snd (sendEvent (PieceFailed (saddr s) (Index w)) s1))"
  using assms(1)
proof (induction s xs rule: session_loop.induct)
  case (6 s now msg xs)
  then show ?case
    by (auto split: option.splits prod.splits if_splits dest: handleMessage_same simp: same_session_def)
next
  case (7 s i len h xs)
  let ?w = "\<lparr>Index = i, ExpectedHash = h, WLength = len\<rparr>"
  note c = Piece_continues [of ?w s xs "x # ys"]
  show ?case
  proof (cases "Piece ?w s xs")
    case (Waiting d' s')
    obtain e where e: "x = Deadline \<and> e = PieceTimeout \<or> x = MessagesClosed \<and> e = ConnectionClosed" using assms(2) by auto
    then show ?thesis using Piece_waits [OF Waiting e, of ys] Waiting "7.prems" by auto
  next
    case (Failed e s' zs)
    then have p: "Piece ?w s (xs @ x # ys) = Failed e s' (zs @ x # ys)" "saddr s' = saddr s"
      using c Piece_addr [of ?w s xs] by (simp_all add: continues_def)
    obtain ok s2 where s2: "sendEvent (PeerReady (saddr s)) s' = (ok, s2)" by fastforce
    then have "saddr s2 = saddr s" using sendEvent_addr(1) [of "PeerReady (saddr s)" s'] p(2) by simp
    then show ?thesis
      using Failed "7.IH"(1) [OF Failed] "7.prems" p s2 by (auto split: if_splits)
  next
    case (Finished b s' zs)
    then have p: "Piece ?w s (xs @ x # ys) = Finished b s' (zs @ x # ys)" "saddr s' = saddr s"
      using c Piece_addr [of ?w s xs] by (simp_all add: continues_def)
    let ?v = "snd (via (\<lambda>d w. SendHave d w i) s')"
    obtain ok s2 where s2: "sendEvent (PieceDownloaded (saddr s) i b) ?v = (ok, s2)" by fastforce
    obtain ok' s3 where s3: "sendEvent (PeerReady (saddr s)) s2 = (ok', s3)" by fastforce
    have "saddr s3 = saddr s"
      using sendEvent_addr(1) [of "PieceDownloaded (saddr s) i b" ?v] sendEvent_addr(1) [of "PeerReady (saddr s)" s2] p(2) s2 s3
      by simp
    then show ?thesis
      using Finished "7.IH"(2) [OF Finished] "7.prems" p s2 s3 by (auto split: if_splits)
  qed (use "7.prems" in simp)
next
  case (11 s xs)
  then show ?case
    using applyCommand_addr [of ChokePeer s] by (cases "applyCommand ChokePeer s") (auto simp del: applyCommand.simps split: if_splits)
next
  case (12 s xs)
  then show ?case
    using applyCommand_addr [of UnchokePeer s] by (cases "applyCommand UnchokePeer s") (auto simp del: applyCommand.simps split: if_splits)
qed simp_all

section \<open>A closed reader ends the session\<close>

lemma fill_not_cancelled: "fill w d s = Stop e s1 \<Longrightarrow> e \<noteq> errCancelled"
  by (induction w d s rule: fill.induct)
    (subst (asm) (2) fill.simps, auto simp: Let_def split: if_splits sum.splits prod.splits option.splits geometry_error.splits)

lemma piece_input_cancelled: "piece_input w x d s = Stop errCancelled s1 \<Longrightarrow> x \<noteq> MessagesClosed"
  by auto

text \<open>What a download does not see of the closed channel is left for the loop around it.\<close>

definition closing :: "'a piece_outcome \<Rightarrow> bool" where
  "closing r = (case r of Panicked s \<Rightarrow> True | Failed e s ys \<Rightarrow> e = errCancelled \<longrightarrow> MessagesClosed \<in> set ys
     | Finished b s ys \<Rightarrow> MessagesClosed \<in> set ys | Waiting d s \<Rightarrow> False)"

lemma downloadLoop_closing: "MessagesClosed \<in> set xs \<Longrightarrow> closing (downloadLoop w d s xs)"
proof (induction w d s xs rule: downloadLoop.induct)
  case (2 w d s x xs)
  show ?case
  proof (cases "remaining d \<le> 0")
    case False
    show ?thesis
    proof (cases "fill w d s")
      case (Stop e s1)
      then show ?thesis using False fill_not_cancelled [OF Stop] by (simp add: closing_def)
    next
      case (Go d1 s1)
      show ?thesis
      proof (cases "piece_input w x d1 s1")
        case (Stop e s2)
        then show ?thesis
          using "2.prems" False Go piece_input_cancelled [of w x d1 s1 s2] by (auto simp: closing_def)
      next
        case Go2: (Go d2 s2)
        then have "x \<noteq> MessagesClosed" by auto
        then show ?thesis using "2.IH" [OF False Go Go2] "2.prems" False Go Go2 by simp
      qed (use False Go in \<open>simp add: closing_def\<close>)
    qed (use False in \<open>simp add: closing_def\<close>)
  qed (use "2.prems" in \<open>simp add: closing_def\<close>)
qed simp

lemma Piece_closing: "MessagesClosed \<in> set xs \<Longrightarrow> closing (Piece w s xs)"
proof -
  assume m: "MessagesClosed \<in> set xs"
  then have b: "closing (downloadBlocks w s xs)"
    using downloadLoop_closing [OF m, of w _ s]
    by (auto simp: downloadBlocks_def closing_def [of "Panicked s"] closing_def [of "Failed _ _ _"] split: sum.split geometry_error.split)
  then show ?thesis by (cases "downloadBlocks w s xs") (auto simp: Piece_def closing_def split: sum.split)
qed

lemma loop_ends: "MessagesClosed \<in> set xs \<Longrightarrow> ended (session_loop s xs)"
proof (induction s xs rule: session_loop.induct)
  case (7 s i len h xs)
  let ?w = "\<lparr>Index = i, ExpectedHash = h, WLength = len\<rparr>"
  have c: "closing (Piece ?w s xs)" using Piece_closing "7.prems" by simp
  show ?case
  proof (cases "Piece ?w s xs")
    case (Failed e s' zs)
    then show ?thesis using c "7.IH"(1) [OF Failed] by (auto simp: closing_def split: prod.split)
  next
    case (Finished b s' zs)
    then show ?thesis using c "7.IH"(2) [OF Finished] by (auto simp: closing_def split: prod.split)
  qed (use c in \<open>simp_all add: closing_def\<close>)
qed (auto split: option.split prod.split simp del: applyCommand.simps)

section \<open>The whole connection\<close>

text \<open>Before its loop a connection either ends at once, whatever it would pick up, or enters the loop.\<close>

definition after_loop :: "'a session_end \<Rightarrow> 'a session_end" where
  "after_loop r = (case r of
     Closed s \<Rightarrow> Closed (leave_session s)
   | Crashed s \<Rightarrow> Closed ((leave_session s)\<lparr>sprogress := map_option PanicRecovered (sprogress (leave_session s))\<rparr>)
   | _ \<Rightarrow> r)"

lemma serveIncoming_enters:
  obtains s2 where "\<And>xs. serveIncoming k s xs = Closed s2" "\<not> NOpen (Net (sconn s2))"
  | s2 where "\<And>xs. serveIncoming k s xs = after_loop (session_loop s2 xs)" "saddr s2 = saddr s" "live s2 = live s"
proof -
  obtain ok s1 where j: "sendEvent (PeerJoined (saddr s) k) (s\<lparr>sprogress := map_option PeerConnected (sprogress s)\<rparr>) = (ok, s1)"
    by fastforce
  obtain ok' s2 where d: "declare_state (peerBitfieldFor s1) = (ok', s2)" by fastforce
  have s2: "saddr s2 = saddr s" "live s2 = live s"
    using declare_state_same [OF d] sendEvent_same [OF j] by (simp_all add: same_session_def peerBitfieldFor_def)
  show thesis
  proof (cases "ok \<and> ok'")
    case True
    have "serveIncoming k s xs = after_loop (session_loop s2 xs)" for xs
      using True j d by (simp add: serveIncoming_def runConnection_def after_loop_def split: session_end.split)
    then show ?thesis using that(2) s2 by blast
  next
    case False
    then show ?thesis
      using that(1) [of "if ok then leave_session s2 else hang_up s1"] j d leave_session_evs(2) [of s2]
      by (auto simp: serveIncoming_def runConnection_def hang_up_def net_close_def)
  qed
qed

lemma connection_ends:
  assumes "MessagesClosed \<in> set xs"
  shows "\<exists>s2. serveIncoming k s xs = Closed s2 \<and> \<not> NOpen (Net (sconn s2))"
proof (cases rule: serveIncoming_enters [of k s])
  case (2 s2)
  then show ?thesis
    using loop_ends [OF assms, of s2] leave_session_evs(2) by (cases "session_loop s2 xs") (auto simp: after_loop_def)
qed blast

lemma connection_gives_up:
  assumes "serveIncoming k s xs = Busy w d s1" "x = Deadline \<or> x = MessagesClosed" "live s = (\<lambda>_. True)"
  shows "\<exists>s2. serveIncoming k s (xs @ x # ys) = Closed s2 \<and>
    evs s2 = evs s1 @ [PieceFailed (saddr s) (Index w), PeerLeft (saddr s)] \<and> \<not> NOpen (Net (sconn s2))"
proof (cases rule: serveIncoming_enters [of k s])
  case (1 s2)
  then show ?thesis using assms(1) by simp
next
  case (2 s2)
  then have l: "session_loop s2 xs = Busy w d s1"
    using assms(1) by (cases "session_loop s2 xs") (simp_all add: after_loop_def)
  have "same_session s2 s1"
    using session_loop_reports [where s = s2 and xs = xs, OF order.refl] l by (simp add: reports_def)
  then have s1: "saddr s1 = saddr s" "live s1 = (\<lambda>_. True)" using 2(2,3) assms(3) by (simp_all add: same_session_def)
  show ?thesis
    using loop_gives_up [OF l assms(2), of ys] 2(1) [of "xs @ x # ys"] s1 2(2)
    by (simp add: after_loop_def leave_session_evs sendEvent_def)
qed

section \<open>Properties\<close>

text \<open>
  C25. A connection whose reader has stopped ends: whatever else it picked up, in whatever order, the
  session returns with its socket closed - also out of the middle of a piece, which does not watch
  the context. As cancelling the context closes every socket, no connection survives a shutdown.
\<close>

theorem disconnection_ends_session:
  assumes "MessagesClosed \<in> set xs"
  shows "\<exists>s2. serveIncoming k s xs = Closed s2 \<and> \<not> NOpen (Net (sconn s2))"
  by (rule connection_ends [OF assms])

text \<open>
  C24. No peer holds a piece hostage: a connection that waits in the middle of a piece gives it back as soon
  as the piece times out or the reader stops - the coordinator hears of the failed piece and that
  the peer is gone, in this order and nothing else, and the socket is closed.
\<close>

theorem silent_peer_gives_piece_back:
  assumes "serveIncoming k s xs = Busy w d s1" "x = Deadline \<or> x = MessagesClosed" "live s = (\<lambda>_. True)"
  shows "\<exists>s2. serveIncoming k s (xs @ x # ys) = Closed s2 \<and>
    evs s2 = evs s1 @ [PieceFailed (saddr s) (Index w), PeerLeft (saddr s)] \<and> \<not> NOpen (Net (sconn s2))"
  by (rule connection_gives_up [OF assms])

text \<open>A peer that unchokes us, is assigned a piece and then says nothing.\<close>

definition silent_inputs :: "input list" where
  "silent_inputs = [Msg 0 UnchokeMsg, Cmd (AssignPiece 1 3 [])]"

lemma silent_waits:
  "case serveIncoming 0 demo_session silent_inputs of
     Busy w d s1 \<Rightarrow> Index w = 1 \<and> evs s1 = [PeerJoined 7 0, UnchokeReceived 7] | _ \<Rightarrow> False"
  by code_simp

theorem disconnection_ends_session_witness:
  "\<exists>s2. serveIncoming 0 demo_session (silent_inputs @ [MessagesClosed, Cmd Pause]) = Closed s2 \<and> \<not> NOpen (Net (sconn s2))"
  using disconnection_ends_session [of "silent_inputs @ [MessagesClosed, Cmd Pause]" 0 demo_session] by simp

theorem silent_peer_gives_piece_back_witness:
  "\<exists>s2. serveIncoming 0 demo_session (silent_inputs @ [Deadline]) = Closed s2 \<and>
    evs s2 = [PeerJoined 7 0, UnchokeReceived 7, PieceFailed 7 1, PeerLeft 7]"
proof -
  obtain w d s1 where b: "serveIncoming 0 demo_session silent_inputs = Busy w d s1" "Index w = 1"
    "evs s1 = [PeerJoined 7 0, UnchokeReceived 7]"
    using silent_waits by (auto split: session_end.splits)
  have "live demo_session = (\<lambda>_. True)" "saddr demo_session = 7" by (simp_all add: demo_session_def)
  then show ?thesis using silent_peer_gives_piece_back [OF b(1), of Deadline "[]"] b(2,3) by auto
qed

end
