(* ===== verification/System_Race.thy ===== *)
theory System_Race
  imports System_Props Session_End
begin

text \<open>
  A whole run of the program that goes wrong, step by step: what two sessions report, what the
  coordinator makes of it, the client they form, and the command fed by that client.
\<close>

section \<open>Sessions\<close>

lemma fill_evs: "evs (loop_session (fill w d s)) = evs s"
proof -
  have "reports (\<lambda>_. False) s (loop_session (fill w d s))" by (rule fill_reports)
  then show ?thesis by (auto simp: reports_def list_all_iff)
qed

lemma take_block_evs: "evs (loop_session (take_block now w msg d s)) = evs s"
  by (simp add: take_block_def Let_def split: sum.split)

lemma last_input:
  assumes "downloadLoop w d s [Msg now msg] = Finished b s' ys" "0 < remaining d" "ID msg = MsgPiece"
  shows "ys = [] \<and> evs s' = evs s"
proof (cases "fill w d s")
  case (Go d1 s1)
  then have 1: "evs s1 = evs s" using fill_evs [of w d s] by simp
  show ?thesis
  proof (cases "take_block now w msg d1 s1")
    case Go2: (Go d2 s2)
    then have "evs s2 = evs s1" using take_block_evs [of now w msg d1 s1] by simp
    then show ?thesis using assms Go Go2 1 by (auto split: if_splits loop_result.splits)
  qed (use assms Go in auto)
qed (use assms in auto)

definition race_round :: "input list" where
  "race_round = [Cmd (AssignPiece 0 3 (sha1_Sum [97, 98, 99])), Msg 0 (PieceMsg 0 0 [97, 98, 99])]"

text \<open>An idle session that is given the piece and gets it.\<close>

definition race_idle :: "'a \<Rightarrow> 'a Coordinator.event list \<Rightarrow> 'a session \<Rightarrow> bool" where
  "race_idle a es s \<longleftrightarrow> no_faults s \<and> spieceCount s = 2 \<and> saddr s = a \<and> evs s = es"

lemma race_round_delivers:
  assumes "race_idle a es s"
  shows "\<exists>s'. race_idle a (es @ [PieceDownloaded a 0 [97, 98, 99], PeerReady a]) s' \<and>
    (\<forall>xs. session_loop s (race_round @ xs) = session_loop s' xs)"
proof -
  let ?h = "sha1_Sum [97, 98, 99]"
  let ?w = "\<lparr>Index = 0, ExpectedHash = ?h, WLength = 3\<rparr>"
  let ?m = "Msg 0 (PieceMsg 0 0 [97, 98, 99])"
  have s: "no_faults s" "spieceCount s = 2" "saddr s = a" "evs s = es" using assms by (simp_all add: race_idle_def)
  have p: "ParsePiecePayload (Payload (PieceMsg 0 0 [97, 98, 99])) 2 3 = Inr \<lparr>PIndex = 0, PBegin = 0, Block = [97, 98, 99]\<rparr>"
    "ID (PieceMsg 0 0 [97, 98, 99]) = MsgPiece" by code_simp+
  have n: "nat (nblocks ?w) = 1" "nblocks ?w = 1" by (simp_all add: nblocks_def BlockSize_def)
  have w: "work_ok ?w" by (simp add: work_ok_def BlockSize_def)
  have "\<exists>s1 ys. Piece ?w s [?m] = Finished [97, 98, 99] s1 ys"
    by (rule honest_piece_finishes [OF w])
      (use s p n in \<open>simp_all add: BlockSize_def block_of_def block_end_def msg_ids\<close>)
  then obtain s1 ys where P: "Piece ?w s [?m] = Finished [97, 98, 99] s1 ys" by blast
  then have "downloadBlocks ?w s [?m] = Finished [97, 98, 99] s1 ys"
    by (auto simp: Piece_def split: piece_outcome.splits sum.splits if_splits)
  from last_input [OF this [unfolded downloadBlocks_start(1) [OF w]] _ p(2)] have ys: "ys = []" "evs s1 = es"
    by (simp_all add: n(2) s(4))
  have "same_session s s1" using Piece_reports(1) [of s "[]" ?w "[?m]"] P by (simp add: reports_def)
  then have l: "live s1 = (\<lambda>_. True)" using s(1) by (auto simp: same_session_def no_faults_def)
  obtain e t where v: "via (\<lambda>d w. SendHave d w 0) s1 = (e, t)" by fastforce
  have t: "same_session s t" "evs t = es"
    using via_same [OF v] \<open>same_session s s1\<close> ys(2) by (blast intro: same_session_trans, simp)
  then have tf: "no_faults t" "spieceCount t = 2" "saddr t = a" "live t = (\<lambda>_. True)"
    using s same_no_faults by (auto simp: same_session_def no_faults_def)
  let ?t = "t\<lparr>evs := es @ [PieceDownloaded a 0 [97, 98, 99], PeerReady a]\<rparr>"
  have "Piece ?w s (?m # xs) = Finished [97, 98, 99] s1 xs" for xs
    using Piece_continues [of ?w s "[?m]" xs] P ys(1) by (simp add: continues_def)
  then have "session_loop s (race_round @ xs) = session_loop ?t xs" for xs
    using v l tf(4) t(2) s(3) by (simp add: race_round_def sendEvent_def)
  moreover have "race_idle a (es @ [PieceDownloaded a 0 [97, 98, 99], PeerReady a]) ?t"
    using tf by (simp add: race_idle_def no_faults_def)
  ultimately show ?thesis by blast
qed

text \<open>A connection to a peer that has the first piece of two, and no slice of its own but from \<open>nx\<close> on.\<close>

definition race_session :: "addr_port \<Rightarrow> nat \<Rightarrow> addr_port session" where
  "race_session a nx = abc_session\<lparr>saddr := a, spieceCount := 2, snext := nx\<rparr>"

definition race_hello :: "input list" where
  "race_hello = [Msg 0 (BitfieldMsg [0x80]), Msg 0 UnchokeMsg]"

lemma race_greets:
  "\<exists>r. race_idle a [PeerJoined a k, BitfieldReceived a (Suc nx), UnchokeReceived a] r \<and>
    (\<forall>xs. serveIncoming k (race_session a nx) (race_hello @ xs) = after_loop (session_loop r xs))"
proof -
  let ?s0 = "(race_session a nx)\<lparr>evs := [PeerJoined a k]\<rparr>"
  obtain ok s1 where d: "declare_state (peerBitfieldFor ?s0) = (ok, s1)" by fastforce
  have "case declare_state (peerBitfieldFor ?s0) of (ok, s1) \<Rightarrow> ok \<and>
     (case handleMessage 0 (BitfieldMsg [0x80]) s1 of Some (ok, s2) \<Rightarrow> ok \<and>
      (case handleMessage 0 UnchokeMsg s2 of Some (ok, s3) \<Rightarrow> ok \<and> 
         evs s3 = [PeerJoined a k, BitfieldReceived a (Suc nx), UnchokeReceived a] | None \<Rightarrow> False) | None \<Rightarrow> False)"
    by code_simp
  then obtain s2 s3 where m: "ok" "handleMessage 0 (BitfieldMsg [0x80]) s1 = Some (True, s2)" "handleMessage 0 UnchokeMsg s2 = Some (True, s3)"
    "evs s3 = [PeerJoined a k, BitfieldReceived a (Suc nx), UnchokeReceived a]"
    using d by (auto split: option.splits prod.splits)
  have "same_session ?s0 s3"
    using declare_state_same [OF d] handleMessage_same [OF m(2)] handleMessage_same [OF m(3)]
    by (auto simp: peerBitfieldFor_def same_session_def)
  then have "race_idle a [PeerJoined a k, BitfieldReceived a (Suc nx), UnchokeReceived a] s3"
    using m(4) by (auto simp: race_idle_def same_session_def no_faults_def race_session_def abc_session_def)
  moreover have "serveIncoming k (race_session a nx) (race_hello @ xs) = after_loop (session_loop s3 xs)" for xs
  proof -
    have "sendEvent (PeerJoined (saddr (race_session a nx)) k) ((race_session a nx)\<lparr>sprogress := map_option PeerConnected (sprogress (race_session a nx))\<rparr>) =
      (True, ?s0)"
      by (simp add: race_session_def abc_session_def sendEvent_def)
    then show ?thesis
      using d m(1-3) by (simp add: serveIncoming_def runConnection_def after_loop_def race_hello_def split: session_end.split)
  qed
  ultimately show ?thesis by blast
qed

definition race_connection :: "addr_port \<Rightarrow> nat \<Rightarrow> nat \<Rightarrow> input list \<Rightarrow> nat \<Rightarrow> addr_port connection" where
  "race_connection a k nx xs h = \<lparr>cstart = race_session a nx, cchan = k, cinputs = xs, chandled = h\<rparr>"

lemma race_reports:
  fixes a k nx
  defines "hello \<equiv> [PeerJoined a k, BitfieldReceived a (Suc nx), UnchokeReceived a]"
    and "got \<equiv> [PieceDownloaded a 0 [97, 98, 99], PeerReady a]"
  shows "reported (race_connection a k nx race_hello h) = hello"
    "reported (race_connection a k nx (race_hello @ race_round) h) = hello @ got"
    "reported (race_connection a k nx (race_hello @ race_round @ race_round) h) = hello @ got @ got"
    "reported (race_connection a k nx (race_hello @ [Cmd (AssignPiece 0 3 (sha1_Sum [97, 98, 99])), MessagesClosed]) h) =
      hello @ [PieceFailed a 0, PeerLeft a]"
proof -
  obtain r where r: "race_idle a hello r" "\<And>xs. serveIncoming k (race_session a nx) (race_hello @ xs) = after_loop (session_loop r xs)"
    using race_greets [of a k nx] unfolding hello_def by blast
  obtain r1 where r1: "race_idle a (hello @ got) r1" "\<And>xs. session_loop r (race_round @ xs) = session_loop r1 xs"
    using race_round_delivers [OF r(1)] unfolding got_def by blast
  obtain r2 where r2: "race_idle a ((hello @ got) @ got) r2" "\<And>xs. session_loop r1 (race_round @ xs) = session_loop r2 xs"
    using race_round_delivers [OF r1(1)] unfolding got_def by blast
  note rep = reported_def race_connection_def
  show "reported (race_connection a k nx race_hello h) = hello"
    using r(2) [of "[]"] r(1) by (simp add: rep after_loop_def race_idle_def)
  show "reported (race_connection a k nx (race_hello @ race_round) h) = hello @ got"
    using r(2) [of race_round] r1(2) [of "[]"] r1(1) by (simp add: rep after_loop_def race_idle_def)
  show "reported (race_connection a k nx (race_hello @ race_round @ race_round) h) = hello @ got @ got"
    using r(2) [of "race_round @ race_round"] r1(2) [of race_round] r2(2) [of "[]"] r2(1)
    by (simp add: rep after_loop_def race_idle_def)
  let ?w = "\<lparr>Index = 0, ExpectedHash = sha1_Sum [97, 98, 99], WLength = 3\<rparr>"
  have w: "work_ok ?w" "nblocks ?w = 1" by (simp_all add: work_ok_def BlockSize_def nblocks_def)
  let ?d = "\<lparr>buf = replicate 3 0, requested = [False], received = [False], outstanding = 0, remaining = 1\<rparr>"
  have D: "downloadBlocks ?w r [MessagesClosed] = downloadLoop ?w ?d r [MessagesClosed]"
    using downloadBlocks_start(1) [OF w(1), of r "[MessagesClosed]"] w(2) by (simp add: numeral_eq_Suc)
  obtain d1 s1 where f: "fill ?w ?d r = Go d1 s1" "same_session r s1" "evs s1 = evs r"
    using fill_spec [OF w(1) downloadBlocks_start(2) [OF w(1)], of r] r(1) w(2)
    by (auto simp: race_idle_def no_faults_def numeral_eq_Suc split: loop_result.splits)
  have "Piece ?w r [MessagesClosed] = Failed ConnectionClosed s1 []"
    unfolding Piece_def D using f(1) by simp
  then have "session_loop r [Cmd (AssignPiece 0 3 (sha1_Sum [97, 98, 99])), MessagesClosed] = Closed (s1\<lparr>evs := evs s1 @ [PieceFailed a 0]\<rparr>)"
    using f(2,3) r(1) by (simp add: sendEvent_def race_idle_def same_session_def no_faults_def)
  then show "reported (race_connection a k nx (race_hello @ [Cmd (AssignPiece 0 3 (sha1_Sum [97, 98, 99])), MessagesClosed]) h) =
      hello @ [PieceFailed a 0, PeerLeft a]"
    using r(2) [of "[Cmd (AssignPiece 0 3 (sha1_Sum [97, 98, 99])), MessagesClosed]"] r(1) f(2,3)
    by (simp add: rep after_loop_def race_idle_def leave_session_evs same_session_def no_faults_def)
qed

section \<open>Coordinator\<close>

text \<open>Two peers with the first of two pieces; nobody has the second.\<close>

definition race_peer :: addr_port where
  "race_peer = \<lparr>Addr = Addr4 [10, 0, 0, 2], Port = 6881\<rparr>"

definition race_coord :: "bytes \<Rightarrow> addr_port coordinator" where
  "race_coord h = NewCoordinator 2 3 6 [h, replicate 20 0] (Some (NewProgress 2)) (Some NewRateTracker) (\<lambda>_. []) 0"

definition slice_made :: "bitfield \<Rightarrow> 'a coordinator \<Rightarrow> 'a coordinator" where
  "slice_made bf c = c\<lparr>slices := (slices c)(nextSlice c := bf), nextSlice := Suc (nextSlice c)\<rparr>"

definition chan_emptied :: "nat \<Rightarrow> 'a coordinator \<Rightarrow> 'a coordinator" where
  "chan_emptied k c = c\<lparr>chans := (chans c)(k := [])\<rparr>"

abbreviation race_handle :: "addr_port Coordinator.event \<Rightarrow> addr_port coordinator \<Rightarrow> addr_port coordinator option" where
  "race_handle \<equiv> handle 0 (\<lambda>_. True) True"

text \<open>Both peers join, and the first is given the piece; then endgame gives it to the second as well.\<close>

definition race_joined :: "bytes \<Rightarrow> (addr_port coordinator list) option" where
  "race_joined h = do {
     c1 \<leftarrow> race_handle (PeerJoined abc_peer 0) (race_coord h);
     c2 \<leftarrow> race_handle (BitfieldReceived abc_peer 1) (slice_made [0x80] c1);
     c3 \<leftarrow> race_handle (UnchokeReceived abc_peer) c2;
     c4 \<leftarrow> race_handle (PeerJoined race_peer 1) (chan_emptied 0 c3);
     c5 \<leftarrow> race_handle (BitfieldReceived race_peer 3) (slice_made [0x80] c4);
     c6 \<leftarrow> race_handle (UnchokeReceived race_peer) c5;
     Some [c1, c2, c3, c4, c5, c6]
   }"

definition race_ticked :: "addr_port coordinator \<Rightarrow> addr_port coordinator option" where
  "race_ticked c = tick 0 (\<lambda>_ _. True) [0] [abc_peer, race_peer] [abc_peer, race_peer] c"

text \<open>The first delivers, the second fails although the piece is there, and the first is asked again.\<close>

definition race_lost :: "bytes \<Rightarrow> addr_port coordinator \<Rightarrow> (addr_port coordinator list) option" where
  "race_lost d c6 = do {
     c7 \<leftarrow> race_ticked c6;
     c8 \<leftarrow> race_handle (PieceDownloaded abc_peer 0 d) (chan_emptied 1 c7);
     c9 \<leftarrow> race_handle (PieceFailed race_peer 0) c8;
     c10 \<leftarrow> race_handle (PeerReady abc_peer) c9;
     c11 \<leftarrow> race_handle (PieceDownloaded abc_peer 0 d) (chan_emptied 0 c10);
     Some [c7, c8, c9, c10, c11]
   }"

lemma race_evaluated:
  "map_option (\<lambda>cs. chans (cs ! 2) 0) (race_joined h) = Some [AssignPiece 0 3 h]"
  "map_option (\<lambda>ds. (chans (ds ! 0) 1, chans (ds ! 3) 0, results (ds ! 4), pieces (ds ! 4)))
     (do {cs \<leftarrow> race_joined h; race_lost d (cs ! 5)}) =
   Some ([AssignPiece 0 3 h], [AssignPiece 0 3 h], [(0, d), (0, d)], [pieceComplete, pieceMissing])"
  "map_option (\<lambda>cs. if i = 0 then assignments (cs ! 5) 0 \<noteq> None else assignments (cs ! 5) i = None) (race_joined h) = Some True"
  "map_option (\<lambda>cs. if b = abc_peer then peers (cs ! 5) abc_peer \<noteq> None else if b = race_peer then peers (cs ! 5) race_peer \<noteq> None
     else peers (cs ! 5) b = None) (race_joined h) = Some True"
proof -
  show "map_option (\<lambda>cs. chans (cs ! 2) 0) (race_joined h) = Some [AssignPiece 0 3 h]"
    unfolding race_joined_def by code_simp
  show "map_option (\<lambda>ds. (chans (ds ! 0) 1, chans (ds ! 3) 0, results (ds ! 4), pieces (ds ! 4)))
     (do {cs \<leftarrow> race_joined h; race_lost d (cs ! 5)}) =
   Some ([AssignPiece 0 3 h], [AssignPiece 0 3 h], [(0, d), (0, d)], [pieceComplete, pieceMissing])"
    unfolding race_joined_def race_lost_def race_ticked_def by code_simp
  show "map_option (\<lambda>cs. if i = 0 then assignments (cs ! 5) 0 \<noteq> None else assignments (cs ! 5) i = None) (race_joined h) = Some True"
    unfolding race_joined_def by (code_simp; simp)
  show "map_option (\<lambda>cs. if b = abc_peer then peers (cs ! 5) abc_peer \<noteq> None else if b = race_peer then peers (cs ! 5) race_peer \<noteq> None
     else peers (cs ! 5) b = None) (race_joined h) = Some True"
    unfolding race_joined_def by (code_simp; simp add: race_peer_def abc_peer_def)
qed

lemma race_coordinates:
  obtains c1 c2 c3 c4 c5 c6 c7 c8 c9 c10 c11 where
    "race_handle (PeerJoined abc_peer 0) (race_coord h) = Some c1"
    "race_handle (BitfieldReceived abc_peer 1) (slice_made [0x80] c1) = Some c2"
    "race_handle (UnchokeReceived abc_peer) c2 = Some c3" "chans c3 0 = [AssignPiece 0 3 h]"
    "race_handle (PeerJoined race_peer 1) (chan_emptied 0 c3) = Some c4"
    "race_handle (BitfieldReceived race_peer 3) (slice_made [0x80] c4) = Some c5"
    "race_handle (UnchokeReceived race_peer) c5 = Some c6"
    "tick_step c6 c7" "chans c7 1 = [AssignPiece 0 3 h]"
    "race_handle (PieceDownloaded abc_peer 0 d) (chan_emptied 1 c7) = Some c8"
    "race_handle (PieceFailed race_peer 0) c8 = Some c9"
    "race_handle (PeerReady abc_peer) c9 = Some c10" "chans c10 0 = [AssignPiece 0 3 h]"
    "race_handle (PieceDownloaded abc_peer 0 d) (chan_emptied 0 c10) = Some c11"
    "results c11 = [(0, d), (0, d)]"
proof -
  obtain cs ds where cs: "race_joined h = Some cs" and ds: "race_lost d (cs ! 5) = Some ds"
    and e: "chans (cs ! 2) 0 = [AssignPiece 0 3 h]" "chans (ds ! 0) 1 = [AssignPiece 0 3 h]" "chans (ds ! 3) 0 = [AssignPiece 0 3 h]"
      "results (ds ! 4) = [(0, d), (0, d)]"
    using race_evaluated(1) [of h] race_evaluated(2) [of h d] by (auto split: bind_splits)
  obtain c1 c2 c3 c4 c5 c6 where c: "cs = [c1, c2, c3, c4, c5, c6]"
    "race_handle (PeerJoined abc_peer 0) (race_coord h) = Some c1"
    "race_handle (BitfieldReceived abc_peer 1) (slice_made [0x80] c1) = Some c2"
    "race_handle (UnchokeReceived abc_peer) c2 = Some c3"
    "race_handle (PeerJoined race_peer 1) (chan_emptied 0 c3) = Some c4"
    "race_handle (BitfieldReceived race_peer 3) (slice_made [0x80] c4) = Some c5"
    "race_handle (UnchokeReceived race_peer) c5 = Some c6"
    using cs unfolding race_joined_def by (auto simp del: handle.simps split: bind_splits)
  obtain c7 c8 c9 c10 c11 where l: "ds = [c7, c8, c9, c10, c11]" "race_ticked c6 = Some c7"
    "race_handle (PieceDownloaded abc_peer 0 d) (chan_emptied 1 c7) = Some c8"
    "race_handle (PieceFailed race_peer 0) c8 = Some c9"
    "race_handle (PeerReady abc_peer) c9 = Some c10"
    "race_handle (PieceDownloaded abc_peer 0 d) (chan_emptied 0 c10) = Some c11"
    using ds c(1) unfolding race_lost_def by (auto simp del: handle.simps split: bind_splits)
  have "(assignments c6 i \<noteq> None) = (i = 0)" for i
    using race_evaluated(3) [of i h] cs c(1) by (auto split: if_splits)
  then have a: "dom (assignments c6) = {0}" by (auto simp: dom_def)
  have "(peers c6 b \<noteq> None) = (b \<in> {abc_peer, race_peer})" for b
    using race_evaluated(4) [of b h] cs c(1) by (auto split: if_splits)
  then have "dom (peers c6) = {abc_peer, race_peer}" by (auto simp: dom_def)
  moreover have "abc_peer \<noteq> race_peer" by (simp add: abc_peer_def race_peer_def)
  ultimately have t: "tick_step c6 c7"
    using l(2) a unfolding race_ticked_def by (intro tick_step.assign) (auto simp: enumerates_def)
  show thesis using that c(2-7) t l(3-6) e c(1) l(1) by auto
qed

section \<open>The client\<close>

definition both :: "addr_port coordinator \<Rightarrow> input list \<Rightarrow> nat \<Rightarrow> input list \<Rightarrow> nat \<Rightarrow> addr_port network" where
  "both c xs i ys j = \<lparr>coord = c, conns = [0 \<mapsto> race_connection abc_peer 0 0 xs i, 1 \<mapsto> race_connection race_peer 1 2 ys j]\<rparr>"

text \<open>Any order of events is allowed in this client.\<close>

abbreviation race_run :: "bytes \<Rightarrow> addr_port network \<Rightarrow> bool" where
  "race_run h \<equiv> client_run (\<lambda>_ _. True) (race_coord h)"

lemma both_receive:
  assumes "race_run h (both c xs i ys j)" "\<not> is_command y"
  shows "race_run h (both c (xs @ [y]) i ys j)" "race_run h (both c xs i (ys @ [y]) j)"
  using client_run.more [OF assms(1) client_step.receives [of _ 0, OF _ assms(2)]]
    client_run.more [OF assms(1) client_step.receives [of _ 1, OF _ assms(2)]]
  by (simp_all add: both_def race_connection_def fun_upd_twist)

lemma both_command:
  assumes "race_run h (both c xs i ys j)"
  shows "chans c 0 = [cmd] \<Longrightarrow> race_run h (both (chan_emptied 0 c) (xs @ [Cmd cmd]) i ys j)"
    "chans c 1 = [cmd] \<Longrightarrow> race_run h (both (chan_emptied 1 c) xs i (ys @ [Cmd cmd]) j)"
  using client_run.more [OF assms(1) client_step.commanded [of _ 0 "race_connection abc_peer 0 0 xs i"]]
    client_run.more [OF assms(1) client_step.commanded [of _ 1 "race_connection race_peer 1 2 ys j"]]
  by (simp_all add: both_def race_connection_def chan_emptied_def fun_upd_twist)

lemma both_handle:
  assumes "race_run h (both c xs i ys j)"
  shows "reported (race_connection abc_peer 0 0 xs i) = es \<Longrightarrow> i < length es \<Longrightarrow> race_handle (es ! i) c = Some c' \<Longrightarrow>
      race_run h (both c' xs (Suc i) ys j)"
    "reported (race_connection race_peer 1 2 ys j) = es \<Longrightarrow> j < length es \<Longrightarrow> race_handle (es ! j) c = Some c' \<Longrightarrow>
      race_run h (both c' xs i ys (Suc j))"
  using client_run.more [OF assms(1) client_step.handles [of _ 0 "race_connection abc_peer 0 0 xs i"]]
    client_run.more [OF assms(1) client_step.handles [of _ 1 "race_connection race_peer 1 2 ys j"]]
  by (simp_all add: both_def race_connection_def fun_upd_twist del: handle.simps)

lemma both_tick:
  assumes "race_run h (both c xs i ys j)"
  shows "tick_step c c' \<Longrightarrow> race_run h (both c' xs i ys j)" "race_run h (both (slice_made bf c) xs i ys j)"
  using client_run.more [OF assms(1) client_step.ticks] tick_step.allocated [of c bf]
  by (simp_all add: both_def slice_made_def)

lemma race_happens:
  obtains n where "race_run (sha1_Sum [97, 98, 99]) n" "results (coord n) = [(0, [97, 98, 99]), (0, [97, 98, 99])]"
proof -
  let ?h = "sha1_Sum [97, 98, 99]"
  let ?d = "[97, 98, 99] :: bytes"
  obtain c1 c2 c3 c4 c5 c6 c7 c8 c9 c10 c11 where c:
    "race_handle (PeerJoined abc_peer 0) (race_coord ?h) = Some c1"
    "race_handle (BitfieldReceived abc_peer 1) (slice_made [0x80] c1) = Some c2"
    "race_handle (UnchokeReceived abc_peer) c2 = Some c3" "chans c3 0 = [AssignPiece 0 3 ?h]"
    "race_handle (PeerJoined race_peer 1) (chan_emptied 0 c3) = Some c4"
    "race_handle (BitfieldReceived race_peer 3) (slice_made [0x80] c4) = Some c5"
    "race_handle (UnchokeReceived race_peer) c5 = Some c6"
    "tick_step c6 c7" "chans c7 1 = [AssignPiece 0 3 ?h]"
    "race_handle (PieceDownloaded abc_peer 0 ?d) (chan_emptied 1 c7) = Some c8"
    "race_handle (PieceFailed race_peer 0) c8 = Some c9"
    "race_handle (PeerReady abc_peer) c9 = Some c10" "chans c10 0 = [AssignPiece 0 3 ?h]"
    "race_handle (PieceDownloaded abc_peer 0 ?d) (chan_emptied 0 c10) = Some c11" "results c11 = [(0, ?d), (0, ?d)]"
    by (rule race_coordinates)
  let ?run = "\<lambda>c xs i ys j. race_run ?h (both c xs i ys j)"
  let ?hello = race_hello
  let ?late = "race_hello @ [Cmd (AssignPiece 0 3 ?h), MessagesClosed]"
  have hello: "race_hello = ([] @ [Msg 0 (BitfieldMsg [0x80])]) @ [Msg 0 UnchokeMsg]" by (simp add: race_hello_def)
  have m: "\<not> is_command (Msg t x)" "\<not> is_command MessagesClosed" for t x by (simp_all add: is_command_def)
  note A = race_reports [of abc_peer 0 0] and B = race_reports [of race_peer 1 2]
  have "?run (race_coord ?h) [] 0 [] 0"
  proof -
    have "race_run ?h \<lparr>coord = race_coord ?h, conns = [0 \<mapsto> race_connection abc_peer 0 0 [] 0]\<rparr>"
      using client_run.more [OF begin_run client_step.connects [of _ 0 "race_session abc_peer 0" "\<lambda>_ _. True" 0]]
      by (simp add: network_of_def race_session_def abc_session_def race_coord_def NewCoordinator_def race_connection_def)
    from client_run.more [OF this client_step.connects [of _ 1 "race_session race_peer 2" "\<lambda>_ _. True" 1]] show ?thesis
      by (simp add: both_def race_session_def abc_session_def race_coord_def NewCoordinator_def race_connection_def)
  qed
  from both_receive(1) [OF both_receive(1) [OF this m(1)] m(1)] have "?run (race_coord ?h) ?hello 0 [] 0" unfolding hello by simp
  from both_receive(2) [OF both_receive(2) [OF this m(1)] m(1)] have "?run (race_coord ?h) ?hello 0 ?hello 0" unfolding hello by simp
  from both_handle(1) [OF this A(1)] c(1) have "?run c1 ?hello 1 ?hello 0" by simp
  from both_handle(1) [OF both_tick(2) [OF this] A(1)] c(2) have "?run c2 ?hello 2 ?hello 0" by (simp add: numeral_2_eq_2)
  from both_handle(1) [OF this A(1)] c(3) have "?run c3 ?hello 3 ?hello 0" by (simp add: eval_nat_numeral)
  from both_command(1) [OF this c(4)] have "?run (chan_emptied 0 c3) (?hello @ [Cmd (AssignPiece 0 3 ?h)]) 3 ?hello 0" .
  from both_receive(1) [OF this m(1)] have "?run (chan_emptied 0 c3) (?hello @ race_round) 3 ?hello 0" by (simp add: race_round_def)
  from both_handle(2) [OF this B(1)] c(5) have "?run c4 (?hello @ race_round) 3 ?hello 1" by simp
  from both_handle(2) [OF both_tick(2) [OF this] B(1)] c(6) have "?run c5 (?hello @ race_round) 3 ?hello 2" by (simp add: eval_nat_numeral)
  from both_handle(2) [OF this B(1)] c(7) have "?run c6 (?hello @ race_round) 3 ?hello 3" by (simp add: eval_nat_numeral)
  from both_command(2) [OF both_tick(1) [OF this c(8)] c(9)]
  have "?run (chan_emptied 1 c7) (?hello @ race_round) 3 (?hello @ [Cmd (AssignPiece 0 3 ?h)]) 3" .
  from both_receive(2) [OF this m(2)] have "?run (chan_emptied 1 c7) (?hello @ race_round) 3 ?late 3" by simp
  from both_handle(1) [OF this A(2)] c(10) have "?run c8 (?hello @ race_round) 4 ?late 3" by (simp add: eval_nat_numeral)
  from both_handle(2) [OF this B(4)] c(11) have "?run c9 (?hello @ race_round) 4 ?late 4" by (simp add: eval_nat_numeral)
  from both_handle(1) [OF this A(2)] c(12) have "?run c10 (?hello @ race_round) 5 ?late 4" by (simp add: eval_nat_numeral)
  from both_receive(1) [OF both_command(1) [OF this c(13)] m(1)]
  have "?run (chan_emptied 0 c10) (?hello @ race_round @ race_round) 5 ?late 4" by (simp add: race_round_def)
  from both_handle(1) [OF this A(3)] c(14) have "?run c11 (?hello @ race_round @ race_round) 6 ?late 4" by (simp add: eval_nat_numeral)
  then show thesis using that c(15) by (simp add: both_def)
qed

section \<open>The program\<close>

text \<open>The torrent: two pieces of three bytes, the second with a hash that zeros do not have; no file yet.\<close>

definition race_torrent :: torrent where
  "race_torrent =
     (let t = empty_torrent\<lparr>Announce := bs ''http://t'', Name := bs ''f'', PieceLength := 3, TotalLength := 6,
        PiecesHashes := [sha1_Sum [97, 98, 99], replicate 20 0], Files := [\<lparr>Path = bs ''f'', FLength = 6\<rparr>]\<rparr>
      in t\<lparr>InfoHash := sha1_Sum (bencode (Dictionary (info_of t)))\<rparr>)"

definition race_env :: download_env where
  "race_env = (tiny_env False)\<lparr>tor := race_torrent\<rparr>"

definition race_start :: startup where
  "race_start = tiny_start\<lparr>Existing := None, ScanOrder := [0, 1]\<rparr>"

definition race_stimuli :: "loop_stimulus list" where
  "race_stimuli = [ResultIn 0 [97, 98, 99] None True 1 no_peers 2, ResultIn 0 [97, 98, 99] None True 3 no_peers 4]"

lemma race_facts: "PieceCount race_torrent = 2" "PieceLength race_torrent = 3" "TotalLength race_torrent = 6"
  "PiecesHashes race_torrent = [sha1_Sum [97, 98, 99], replicate 20 0]" "tor race_env = race_torrent"
  "geom_of race_torrent = (2, 3, 6)" "opts race_env = \<lparr>OptPort = 6881, MaxPeers = 0, OptSeed = False\<rparr>"
  by (simp_all add: race_torrent_def Let_def PieceCount_def race_env_def geom_of_def tiny_env_def)

lemma race_announce: "announce race_env no_peers ev d = (None, d\<lparr>announced := announced d @ [(ev, bytes_left race_torrent d)]\<rparr>)"
  using no_peers_answer
  by (simp add: announce_def race_env_def tiny_env_def race_torrent_def Let_def empty_torrent_def AnnounceAll_def
      flattenTiers_def try_tracker_def BuildAnnounceURL_def)

lemma race_zeros: "sha1_Sum [0, 0, 0] \<noteq> sha1_Sum [97, 98, 99]" "sha1_Sum [0, 0, 0] \<noteq> replicate 20 0"
proof -
  show "sha1_Sum [0, 0, 0] \<noteq> sha1_Sum [97, 98, 99]" by (simp add: sha1_abc sha1_zeros)
  have "hd (sha1_Sum [0, 0, 0]) \<noteq> hd (replicate 20 0)" by (simp add: sha1_zeros)
  then show "sha1_Sum [0, 0, 0] \<noteq> replicate 20 0" by metis
qed

lemma race_geometry: "geometry_ok (2, 3, 6)" "piece_lo (2, 3, 6) 0 = 0" "piece_hi (2, 3, 6) 0 = 3" "piece_lo (2, 3, 6) 1 = 3" "piece_hi (2, 3, 6) 1 = 6"
  by (simp add: geometry_ok.simps) code_simp+

lemma race_opens:
  "open_and_scan race_torrent race_start = Some (Inr (race_coord (sha1_Sum [97, 98, 99]), new_download race_torrent (replicate 6 0)))"
proof -
  let ?hs = "[sha1_Sum [97, 98, 99], replicate 20 0] :: bytes list"
  have c: "fst (Create True True 6 None) = Inr (replicate 6 0)" by (simp add: Create_def truncate_to_def Let_def)
  have v: "VerifyExisting (Opened (replicate 6 0)) [0, 1] 2 3 6 ?hs = Inr [False, False]"
  proof -
    have "set [0, 1] = {..<nat 2}" by auto
    moreover have "slice_of (replicate 6 0) 0 3 = ([0, 0, 0] :: bytes)" "slice_of (replicate 6 0) 3 6 = ([0, 0, 0] :: bytes)" by code_simp+
    moreover have "[0..<nat 2] = [0, 1]" by code_simp
    ultimately show ?thesis
      using VerifyExisting_eq [OF race_geometry(1), of "replicate 6 0" ?hs "[0, 1]"] race_geometry race_zeros by simp
  qed
  have su: "OpenOk race_start" "TruncateOk race_start" "Existing race_start = None" "Reopen race_start = None" "ScanOrder race_start = [0, 1]"
    "FreshSlices race_start = (\<lambda>_. [])" "FreshSlice race_start = 0"
    by (simp_all add: race_start_def tiny_start_def)
  show ?thesis
    using c v by (simp add: open_and_scan_def race_facts su race_coord_def)
qed

lemma race_write: "WritePiece None 0 2 3 6 [97, 98, 99] (replicate 6 0) = (None, [97, 98, 99, 0, 0, 0])"
  "WritePiece None 0 2 3 6 [97, 98, 99] [97, 98, 99, 0, 0, 0] = (None, [97, 98, 99, 0, 0, 0])"
  by code_simp+

lemma race_downloads:
  obtains d where "Download race_env race_start race_stimuli = Returned None d" "dfile d = [97, 98, 99, 0, 0, 0]"
proof -
  let ?d0 = "new_download race_torrent (replicate 6 0)"
  let ?d1 = "?d0\<lparr>announced := [(EventStarted, bytes_left race_torrent ?d0)]\<rparr>"
  have F: "FirstAnnounce race_start = no_peers" "LastAnnounce race_start = no_peers" by (simp_all add: race_start_def tiny_start_def)
  have b: "begins race_env race_start (race_coord (sha1_Sum [97, 98, 99])) ?d0 ?d1"
    using race_opens by (simp add: begins_def race_facts race_announce F new_download_def)
  have "\<exists>d2. enter_loop race_env race_start race_stimuli ?d1 = Return None d2 \<and> dfile d2 = [97, 98, 99, 0, 0, 0]"
    using race_write
    by (simp add: enter_loop_def Let_def race_stimuli_def race_facts take_result_def race_announce new_download_def)
  then show thesis using that Download_begins [OF b] by (auto simp: stop_announce_def race_announce F)
qed

definition race_world :: world where
  "race_world = abc_world\<lparr>Files_at := [bs ''t.torrent'' \<mapsto> torrent_file race_torrent], Start := race_start, Stimuli := race_stimuli\<rparr>"

lemma race_parses: "Parse (torrent_file race_torrent) = Inr race_torrent"
  by (rule Parse_torrent_file)
    (simp add: torrent_ok_def race_torrent_def Let_def validate_None PieceCount_def expected_pieces_def empty_torrent_def
      i64_def sdiv_nonneg name_safe_def MaxStringLength_def info_of_def)

lemma race_startup:
  "(Start race_world)\<lparr>Existing := Files_at race_world (output_path (bs ''.'') race_torrent)\<rparr> = race_start"
proof -
  have path: "output_path (bs ''.'') race_torrent = bs ''./f''" by (simp add: output_path_def race_torrent_def Let_def)
  show ?thesis unfolding path by (simp add: race_world_def) (simp add: race_start_def tiny_start_def)
qed

lemma race_exits:
  obtains d where "main race_world tiny_flags = Exit 0 (Some (race_torrent, d))" "dfile d = [97, 98, 99, 0, 0, 0]"
proof -
  obtain d where D: "Download race_env race_start race_stimuli = Returned None d" "dfile d = [97, 98, 99, 0, 0, 0]"
    by (rule race_downloads)
  have "GeneratePeerID (\<lambda>n. Some (replicate n 7)) = Some (bs ''-GO0001-'' @ replicate 12 7)"
    by code_simp
  then have id: "GeneratePeerID (Rand race_world) = Some (peerID race_env)"
    by (simp add: race_world_def abc_world_def race_env_def tiny_env_def)
  have env: "\<lparr>tor = race_torrent, peerID = peerID race_env, opts = \<lparr>OptPort = 6881, MaxPeers = 0, OptSeed = False\<rparr>,
      urlParser = UrlParser race_world, ipv6Parser = Ipv6Parser race_world\<rparr> = race_env"
    by (simp add: race_world_def abc_world_def race_env_def abc_env_def tiny_env_def)
  have "main race_world tiny_flags = Exit 0 (Some (race_torrent, d))"
  proof (rule main_returns [OF tiny_flags_def _ _ race_parses id])
    show "Files_at race_world (bs ''t.torrent'') = Some (torrent_file race_torrent)" by (simp add: race_world_def)
    have "Stimuli race_world = race_stimuli" by (simp add: race_world_def)
    then show "Download \<lparr>tor = race_torrent, peerID = peerID race_env, opts = \<lparr>OptPort = 6881, MaxPeers = 0, OptSeed = False\<rparr>,
        urlParser = UrlParser race_world, ipv6Parser = Ipv6Parser race_world\<rparr>
      ((Start race_world)\<lparr>Existing := Files_at race_world (output_path (bs ''.'') race_torrent)\<rparr>) (Stimuli race_world) = Returned None d"
      unfolding env race_startup by (simp add: D)
  qed simp
  then show thesis using that D(2) by blast
qed

section \<open>Property\<close>

text \<open>
  C18. The end-to-end guarantee needs its assumption that no failure comes late: here is a whole run - a
  command line, a torrent, two connections and the coordinator - in which every other assumption holds.
  The connection to the peer that is slower in endgame breaks just when the faster one has delivered the
  piece; the coordinator, which hears of the failure last, takes the piece for missing and has it
  downloaded again, the main loop counts it twice, and the command exits 0 with the second piece of the
  file never written.
\<close>

theorem late_failure_ruins_download:
  "\<exists>n d d0. open_and_scan race_torrent ((Start race_world)\<lparr>Existing := Files_at race_world (output_path (outDir tiny_flags) race_torrent)\<rparr>)
      = Some (Inr (race_coord (sha1_Sum [97, 98, 99]), d0)) \<and>
    client_run (\<lambda>_ _. True) (race_coord (sha1_Sum [97, 98, 99])) n \<and> fed_by n (Stimuli race_world) \<and>
    CallerDone \<notin> set (Stimuli race_world) \<and> scan_fits race_torrent (Start race_world) \<and>
    TotalLength race_torrent + PieceLength race_torrent \<le> 2 ^ 63 \<and>
    main race_world tiny_flags = Exit 0 (Some (race_torrent, d)) \<and> \<not> on_disk race_torrent (dfile d) 1"
proof -
  obtain n where n: "race_run (sha1_Sum [97, 98, 99]) n" "results (coord n) = [(0, [97, 98, 99]), (0, [97, 98, 99])]"
    by (rule race_happens)
  obtain d where d: "main race_world tiny_flags = Exit 0 (Some (race_torrent, d))" "dfile d = [97, 98, 99, 0, 0, 0]"
    by (rule race_exits)
  have xs: "Stimuli race_world = race_stimuli" "outDir tiny_flags = bs ''.''" by (simp_all add: race_world_def tiny_flags_def)
  have fed: "fed_by n race_stimuli" unfolding fed_by_def by (rule exI [of _ 2]) (simp add: n(2) race_stimuli_def)
  have "slice_of [97, 98, 99, 0, 0, 0] 3 6 = ([0, 0, 0] :: bytes)" by code_simp
  then have lost: "\<not> on_disk race_torrent (dfile d) 1"
    using race_geometry race_zeros by (simp add: on_disk_def race_facts piece_bytes_def d(2))
  have fits: "scan_fits race_torrent (Start race_world)"
    by (auto simp: scan_fits_def race_facts race_world_def race_start_def tiny_start_def)
  show ?thesis
    unfolding xs race_startup
    by (intro exI [of _ n] exI [of _ d] exI [of _ "new_download race_torrent (replicate 6 0)"] conjI)
      (use race_opens n(1) fed d(1) lost fits in \<open>simp_all add: race_stimuli_def race_facts\<close>)
qed

end
