(* ===== verification/Goroutines.thy ===== *)
theory Goroutines
  imports Prelude
begin

text \<open>
  The goroutines of a download (\<open>download.go\<close>, \<open>coordinator.go\<close>, \<open>worker.go\<close>, \<open>listen.go\<close>): where each of
  them waits, what wakes it up, and the wait groups that count them. What they compute is modelled in
  the other theories; here a state says only at which blocking operation every goroutine stands. The
  questions are whether the wait groups count right, what \<open>wg.Wait()\<close> guarantees when it returns, and
  whether it returns: whether the client can hang when it shuts down.
\<close>

section \<open>Where the goroutines stand\<close>

text \<open>The main goroutine: in its \<open>select\<close>, in \<open>wg.Wait()\<close>, in its deferred calls, returned.\<close>

datatype main_at = MainSelecting | MainWaiting | MainDeferred | MainReturned

text \<open>\<open>Coordinator.Run\<close>: in its \<open>select\<close>, sending a \<open>Result\<close>, returned.\<close>

datatype coord_at = CoordSelecting | CoordSending | CoordReturned

text \<open>The listener's goroutine: never started, in \<open>Serve\<close>, in \<open>Wait\<close>, returned.\<close>

datatype listen_at = ListenOff | ListenServing | ListenWaiting | ListenReturned

text \<open>
  A connection's goroutine: dialling or accepting, sending \<open>PeerJoined\<close>, in the \<open>select\<close> of
  \<open>runConnection\<close>, in that of \<open>downloadBlocks\<close>, in \<open>sendEvent\<close> with what it does next when the event
  is taken, sending \<open>PeerLeft\<close>, returned. Its reader: not started, in \<open>ReadMessage\<close>, sending a message
  to the session, returned.
\<close>

datatype conn_at = Opening | Joining | Looping | Fetching | Reporting conn_at | Leaving | ConnReturned

datatype reader_at = ReaderOff | ReaderReading | ReaderSending | ReaderReturned

record conn_routine =
  dialledOut :: bool
  connAt :: conn_at
  readerAt :: reader_at
  socketOpen :: bool

text \<open>The whole: \<open>wg\<close>, the listener's \<open>handlers\<close>, the results waiting in \<open>resultCh\<close>, the context.\<close>

record goroutines =
  mainAt :: main_at
  ctxDone :: bool
  wg :: int
  buffered :: nat
  coordAt :: coord_at
  listenAt :: listen_at
  lnOpen :: bool
  hwg :: int
  routines :: "conn_routine list"

definition resultsBufferSize :: nat where "resultsBufferSize = 16"

definition spawned :: "bool \<Rightarrow> goroutines" where
  "spawned listening =
     \<lparr>mainAt = MainSelecting, ctxDone = False, wg = (if listening then 2 else 1), buffered = 0, coordAt = CoordSelecting,
      listenAt = (if listening then ListenServing else ListenOff), lnOpen = listening, hwg = 0, routines = []\<rparr>"

definition new_routine :: "bool \<Rightarrow> conn_routine" where
  "new_routine out = \<lparr>dialledOut = out, connAt = Opening, readerAt = ReaderOff, socketOpen = True\<rparr>"

definition put :: "nat \<Rightarrow> conn_routine \<Rightarrow> goroutines \<Rightarrow> goroutines" where
  "put i c s = s\<lparr>routines := (routines s)[i := c]\<rparr>"

text \<open>The end of a connection: the socket is closed, the slot given back, its wait group told.\<close>

definition conn_returns :: "nat \<Rightarrow> goroutines \<Rightarrow> goroutines" where
  "conn_returns i s =
     (let c = routines s ! i; s1 = put i (c\<lparr>connAt := ConnReturned, socketOpen := False\<rparr>) s in
      if dialledOut c then s1\<lparr>wg := wg s1 - 1\<rparr> else s1\<lparr>hwg := hwg s1 - 1\<rparr>)"

text \<open>
  Where a session can be once it has dealt with a message: back at its \<open>select\<close>, reporting an event,
  on its way out; out of a piece also with the piece, to report \<open>PieceDownloaded\<close> and \<open>PeerReady\<close>, or
  with a failure, to report \<open>PieceFailed\<close> and leave.
\<close>

fun may_follow :: "conn_at \<Rightarrow> conn_at \<Rightarrow> bool" where
  "may_follow Looping x \<longleftrightarrow> x \<in> {Looping, Reporting Looping, Leaving}"
| "may_follow Fetching x \<longleftrightarrow> x \<in> {Fetching, Reporting Fetching, Reporting (Reporting Looping), Reporting Leaving, Leaving}"
| "may_follow _ x \<longleftrightarrow> False"

section \<open>Steps\<close>

text \<open>
  The steps towards an end: a \<open>select\<close> takes its \<open>ctx.Done()\<close> or finds its channel closed, a wait is
  over, a deadline or a failed call ends an operation, a goroutine returns, a message on its way is
  dealt with.
\<close>

inductive closing_step :: "goroutines \<Rightarrow> goroutines \<Rightarrow> bool" where
  main_sees: "mainAt s = MainSelecting \<Longrightarrow> ctxDone s \<Longrightarrow> closing_step s (s\<lparr>mainAt := MainWaiting\<rparr>)"
| main_waited: "mainAt s = MainWaiting \<Longrightarrow> wg s = 0 \<Longrightarrow> closing_step s (s\<lparr>mainAt := MainDeferred\<rparr>)"
| main_returns: "mainAt s = MainDeferred \<Longrightarrow> closing_step s (s\<lparr>mainAt := MainReturned, ctxDone := True, lnOpen := False\<rparr>)"
| result_dropped: "coordAt s = CoordSending \<Longrightarrow> ctxDone s \<Longrightarrow> closing_step s (s\<lparr>coordAt := CoordSelecting\<rparr>)"
| coord_returns: "coordAt s = CoordSelecting \<Longrightarrow> ctxDone s \<Longrightarrow>
    closing_step s (s\<lparr>coordAt := CoordReturned, wg := wg s - 1\<rparr>)"
| listener_closes: "lnOpen s \<Longrightarrow> ctxDone s \<Longrightarrow> closing_step s (s\<lparr>lnOpen := False\<rparr>)"
| serve_returns: "listenAt s = ListenServing \<Longrightarrow> \<not> lnOpen s \<Longrightarrow> closing_step s (s\<lparr>listenAt := ListenWaiting\<rparr>)"
| listener_returns: "listenAt s = ListenWaiting \<Longrightarrow> hwg s = 0 \<Longrightarrow>
    closing_step s (s\<lparr>listenAt := ListenReturned, wg := wg s - 1\<rparr>)"
| open_fails: "i < length (routines s) \<Longrightarrow> connAt (routines s ! i) = Opening \<Longrightarrow> closing_step s (conn_returns i s)"
| opens: "i < length (routines s) \<Longrightarrow> connAt (routines s ! i) = Opening \<Longrightarrow>
    closing_step s (put i ((routines s ! i)\<lparr>connAt := Joining\<rparr>) s)"
| join_refused: "i < length (routines s) \<Longrightarrow> connAt (routines s ! i) = Joining \<Longrightarrow> ctxDone s \<Longrightarrow>
    closing_step s (conn_returns i s)"
| socket_closes: "i < length (routines s) \<Longrightarrow> connAt (routines s ! i) \<notin> {Opening, ConnReturned} \<Longrightarrow>
    socketOpen (routines s ! i) \<Longrightarrow> ctxDone s \<Longrightarrow>
    closing_step s (put i ((routines s ! i)\<lparr>socketOpen := False\<rparr>) s)"
| read_fails: "i < length (routines s) \<Longrightarrow> readerAt (routines s ! i) = ReaderReading \<Longrightarrow>
    closing_step s (put i ((routines s ! i)\<lparr>readerAt := ReaderReturned\<rparr>) s)"
| reader_released: "i < length (routines s) \<Longrightarrow> readerAt (routines s ! i) = ReaderSending \<Longrightarrow>
    connAt (routines s ! i) = ConnReturned \<Longrightarrow>
    closing_step s (put i ((routines s ! i)\<lparr>readerAt := ReaderReturned\<rparr>) s)"
| message_taken: "i < length (routines s) \<Longrightarrow> readerAt (routines s ! i) = ReaderSending \<Longrightarrow>
    may_follow (connAt (routines s ! i)) x \<Longrightarrow>
    closing_step s (put i ((routines s ! i)\<lparr>readerAt := ReaderReading, connAt := x\<rparr>) s)"
| loop_left: "i < length (routines s) \<Longrightarrow> connAt (routines s ! i) = Looping \<Longrightarrow>
    closing_step s (put i ((routines s ! i)\<lparr>connAt := Leaving\<rparr>) s)"
| piece_fails: "i < length (routines s) \<Longrightarrow> connAt (routines s ! i) = Fetching \<Longrightarrow> x \<in> {Reporting Leaving, Leaving} \<Longrightarrow>
    closing_step s (put i ((routines s ! i)\<lparr>connAt := x\<rparr>) s)"
| report_refused: "i < length (routines s) \<Longrightarrow> connAt (routines s ! i) = Reporting x \<Longrightarrow> ctxDone s \<Longrightarrow>
    y = Leaving \<or> x = Fetching \<and> y = Reporting Leaving \<Longrightarrow>
    closing_step s (put i ((routines s ! i)\<lparr>connAt := y\<rparr>) s)"
| leave_refused: "i < length (routines s) \<Longrightarrow> connAt (routines s ! i) = Leaving \<Longrightarrow> ctxDone s \<Longrightarrow>
    closing_step s (conn_returns i s)"

text \<open>
  \<open>loop_left\<close> and \<open>piece_fails\<close> need no condition: a write can fail and a piece time out at any time; a
  closed \<open>messages\<close> or context is one of the reasons. The other steps are the client's work: results,
  new connections, events the coordinator takes, messages that arrive, commands.
\<close>

inductive working_step :: "goroutines \<Rightarrow> goroutines \<Rightarrow> bool" where
  cancel_called: "mainAt s = MainSelecting \<Longrightarrow> working_step s (s\<lparr>ctxDone := True\<rparr>)"
| completes: "mainAt s = MainSelecting \<Longrightarrow> working_step s (s\<lparr>ctxDone := True, mainAt := MainWaiting\<rparr>)"
| main_fails: "mainAt s = MainSelecting \<Longrightarrow> working_step s (s\<lparr>mainAt := MainDeferred\<rparr>)"
| result_taken: "mainAt s = MainSelecting \<Longrightarrow> buffered s = Suc n \<Longrightarrow> working_step s (s\<lparr>buffered := n\<rparr>)"
| dials: "mainAt s \<in> {MainSelecting, MainDeferred} \<Longrightarrow>
    working_step s (s\<lparr>routines := routines s @ [new_routine True], wg := wg s + 1\<rparr>)"
| accepts: "listenAt s = ListenServing \<Longrightarrow> lnOpen s \<Longrightarrow>
    working_step s (s\<lparr>routines := routines s @ [new_routine False], hwg := hwg s + 1\<rparr>)"
| result_sent: "coordAt s = CoordSending \<Longrightarrow> buffered s < resultsBufferSize \<Longrightarrow>
    working_step s (s\<lparr>coordAt := CoordSelecting, buffered := Suc (buffered s)\<rparr>)"
| join_taken: "i < length (routines s) \<Longrightarrow> connAt (routines s ! i) = Joining \<Longrightarrow> coordAt s = CoordSelecting \<Longrightarrow>
    x \<in> {Looping, Leaving} \<Longrightarrow>
    working_step s (put i ((routines s ! i)\<lparr>connAt := x, readerAt := ReaderReading\<rparr>) s)"
| report_taken: "i < length (routines s) \<Longrightarrow> connAt (routines s ! i) = Reporting x \<Longrightarrow> coordAt s = CoordSelecting \<Longrightarrow>
    to = CoordSelecting \<or> x = Reporting Looping \<and> to = CoordSending \<Longrightarrow>
    working_step s (put i ((routines s ! i)\<lparr>connAt := x\<rparr>) (s\<lparr>coordAt := to\<rparr>))"
| leave_taken: "i < length (routines s) \<Longrightarrow> connAt (routines s ! i) = Leaving \<Longrightarrow> coordAt s = CoordSelecting \<Longrightarrow>
    working_step s (conn_returns i s)"
| message_arrives: "i < length (routines s) \<Longrightarrow> readerAt (routines s ! i) = ReaderReading \<Longrightarrow> socketOpen (routines s ! i) \<Longrightarrow>
    working_step s (put i ((routines s ! i)\<lparr>readerAt := ReaderSending\<rparr>) s)"
| piece_assigned: "i < length (routines s) \<Longrightarrow> connAt (routines s ! i) = Looping \<Longrightarrow>
    working_step s (put i ((routines s ! i)\<lparr>connAt := Fetching\<rparr>) s)"
| piece_cancelled: "i < length (routines s) \<Longrightarrow> connAt (routines s ! i) = Fetching \<Longrightarrow>
    working_step s (put i ((routines s ! i)\<lparr>connAt := Reporting Looping\<rparr>) s)"

inductive running :: "goroutines \<Rightarrow> bool" where
  spawn: "running (spawned listening)"
| close: "running s \<Longrightarrow> closing_step s s' \<Longrightarrow> running s'"
| work: "running s \<Longrightarrow> working_step s s' \<Longrightarrow> running s'"

inductive_cases closing_stepE: "closing_step s s'"
inductive_cases working_stepE: "working_step s s'"

section \<open>Counting\<close>

definition total_of :: "(conn_routine \<Rightarrow> nat) \<Rightarrow> goroutines \<Rightarrow> nat" where
  "total_of f s = sum_list (map f (routines s))"

lemma total_of_put [simp]:
  assumes "i < length (routines s)"
  shows "total_of f (put i c s) + f (routines s ! i) = total_of f s + f c"
  using assms elem_le_sum_list [of i "map f (routines s)"]
  by (simp add: total_of_def put_def map_update sum_list_update)

lemma total_of_frame [simp]:
  "total_of f (s\<lparr>mainAt := a\<rparr>) = total_of f s" "total_of f (s\<lparr>ctxDone := b\<rparr>) = total_of f s"
  "total_of f (s\<lparr>wg := k\<rparr>) = total_of f s" "total_of f (s\<lparr>buffered := n\<rparr>) = total_of f s"
  "total_of f (s\<lparr>coordAt := d\<rparr>) = total_of f s" "total_of f (s\<lparr>listenAt := l\<rparr>) = total_of f s"
  "total_of f (s\<lparr>lnOpen := b\<rparr>) = total_of f s" "total_of f (s\<lparr>hwg := k\<rparr>) = total_of f s"
  "total_of f (s\<lparr>routines := routines s @ [c]\<rparr>) = total_of f s + f c"
  by (simp_all add: total_of_def)

lemma total_of_zero: "total_of f s = 0 \<longleftrightarrow> (\<forall>c \<in> set (routines s). f c = 0)"
  by (auto simp: total_of_def)

lemma put_fields [simp]:
  "mainAt (put i c s) = mainAt s" "ctxDone (put i c s) = ctxDone s" "wg (put i c s) = wg s" "buffered (put i c s) = buffered s"
  "coordAt (put i c s) = coordAt s" "listenAt (put i c s) = listenAt s" "lnOpen (put i c s) = lnOpen s" "hwg (put i c s) = hwg s"
  "routines (put i c s) = (routines s)[i := c]"
  by (simp_all add: put_def)

definition live_on :: "bool \<Rightarrow> conn_routine \<Rightarrow> nat" where
  "live_on out c = (if dialledOut c = out \<and> connAt c \<noteq> ConnReturned then 1 else 0)"

text \<open>
  A reader runs from \<open>PeerJoined\<close> on; a session that has returned has closed its socket; and what follows
  a report is one of the places the code reports from.
\<close>

definition routine_ok :: "conn_routine \<Rightarrow> bool" where
  "routine_ok c = (case connAt c of
     Opening \<Rightarrow> readerAt c = ReaderOff
   | Joining \<Rightarrow> readerAt c = ReaderOff
   | ConnReturned \<Rightarrow> \<not> socketOpen c
   | Reporting x \<Rightarrow> readerAt c \<noteq> ReaderOff \<and> x \<in> {Looping, Fetching, Leaving, Reporting Looping}
   | _ \<Rightarrow> readerAt c \<noteq> ReaderOff)"

definition goroutines_ok :: "goroutines \<Rightarrow> bool" where
  "goroutines_ok s \<longleftrightarrow>
     wg s = (if coordAt s = CoordReturned then 0 else 1) + (if listenAt s \<in> {ListenServing, ListenWaiting} then 1 else 0) +
       int (total_of (live_on True) s) \<and>
     hwg s = int (total_of (live_on False) s) \<and>
     buffered s \<le> resultsBufferSize \<and>
     (mainAt s = MainWaiting \<longrightarrow> ctxDone s) \<and>
     (coordAt s = CoordReturned \<longrightarrow> ctxDone s) \<and>
     (lnOpen s \<longrightarrow> listenAt s = ListenServing) \<and>
     (listenAt s \<in> {ListenOff, ListenReturned} \<longrightarrow> total_of (live_on False) s = 0) \<and>
     (\<forall>c \<in> set (routines s). routine_ok c)"

text \<open>A step of one connection that keeps it alive.\<close>

lemma put_ok:
  assumes "goroutines_ok s" "i < length (routines s)" "routine_ok c"
    "dialledOut c = dialledOut (routines s ! i)" "connAt (routines s ! i) = ConnReturned \<longleftrightarrow> connAt c = ConnReturned"
  shows "goroutines_ok (put i c s)"
proof -
  have "live_on b c = live_on b (routines s ! i)" for b using assms(4,5) by (simp add: live_on_def)
  then have "total_of (live_on b) (put i c s) = total_of (live_on b) s" for b
    using total_of_put [OF assms(2), of "live_on b" c] by simp
  then show ?thesis
    using assms(1,3) by (auto simp: goroutines_ok_def dest: set_update_subset_insert [THEN subsetD])
qed

lemma conn_returns_ok:
  assumes "goroutines_ok s" "i < length (routines s)" "connAt (routines s ! i) \<noteq> ConnReturned"
  shows "goroutines_ok (conn_returns i s)"
proof -
  let ?c = "routines s ! i"
  let ?s = "put i (?c\<lparr>connAt := ConnReturned, socketOpen := False\<rparr>) s"
  have t: "total_of (live_on b) ?s + live_on b ?c = total_of (live_on b) s" for b
    using total_of_put [OF assms(2), of "live_on b" "?c\<lparr>connAt := ConnReturned, socketOpen := False\<rparr>"] by (simp add: live_on_def)
  have c: "\<forall>c \<in> set (routines ?s). routine_ok c"
    using assms(1) by (auto simp: goroutines_ok_def routine_ok_def dest: set_update_subset_insert [THEN subsetD])
  show ?thesis
  proof (cases "dialledOut ?c")
    case True
    then have "int (total_of (live_on True) ?s) = int (total_of (live_on True) s) - 1"
      "total_of (live_on False) ?s = total_of (live_on False) s"
      using t [of True] t [of False] assms(3) by (simp_all add: live_on_def)
    then show ?thesis using assms(1) c True by (simp add: goroutines_ok_def conn_returns_def Let_def)
  next
    case False
    then have "int (total_of (live_on False) ?s) = int (total_of (live_on False) s) - 1"
      "total_of (live_on True) ?s = total_of (live_on True) s"
      using t [of True] t [of False] assms(3) by (simp_all add: live_on_def)
    moreover have "total_of (live_on False) s \<noteq> 0" using t [of False] False assms(3) by (simp add: live_on_def)
    ultimately show ?thesis using assms(1) c False by (simp add: goroutines_ok_def conn_returns_def Let_def)
  qed
qed

lemma nth_ok: "goroutines_ok s \<Longrightarrow> i < length (routines s) \<Longrightarrow> routine_ok (routines s ! i)"
  by (simp add: goroutines_ok_def)

lemma may_follow_cases:
  assumes "may_follow a x"
  shows "a \<in> {Looping, Fetching}" "x \<in> {Looping, Fetching, Leaving} \<or> (\<exists>y. x = Reporting y)"
  using assms by (cases a; auto)+

lemma closing_step_ok: "closing_step s s' \<Longrightarrow> goroutines_ok s \<Longrightarrow> goroutines_ok s'"
proof (induction rule: closing_step.induct)
  case (message_taken i s x)
  have "routine_ok ((routines s ! i)\<lparr>readerAt := ReaderReading, connAt := x\<rparr>)" "x \<noteq> ConnReturned"
    using message_taken(3) by (cases "connAt (routines s ! i)"; auto simp: routine_ok_def)+
  moreover have "connAt (routines s ! i) \<noteq> ConnReturned" using message_taken(3) by auto
  ultimately show ?case by (intro put_ok [OF message_taken(4,1)]) simp_all
next
  case (report_refused i s x y)
  show ?case
    by (rule put_ok [OF report_refused(5,1)])
      (use report_refused(2,4) nth_ok [OF report_refused(5,1)] in \<open>auto simp: routine_ok_def\<close>)
next
  case (piece_fails i s x)
  show ?case
    by (rule put_ok [OF piece_fails(4,1)])
      (use piece_fails(2,3) nth_ok [OF piece_fails(4,1)] in \<open>auto simp: routine_ok_def\<close>)
next
  case (loop_left i s)
  show ?case
    by (rule put_ok [OF loop_left(3,1)]) (use loop_left(2) nth_ok [OF loop_left(3,1)] in \<open>auto simp: routine_ok_def\<close>)
next
  case (reader_released i s)
  show ?case
    by (rule put_ok [OF reader_released(4,1)])
      (use reader_released(3) nth_ok [OF reader_released(4,1)] in \<open>auto simp: routine_ok_def\<close>)
next
  case (read_fails i s)
  show ?case
    by (rule put_ok [OF read_fails(3,1)])
      (use read_fails(2) nth_ok [OF read_fails(3,1)] in \<open>auto simp: routine_ok_def split: conn_at.splits\<close>)
next
  case (socket_closes i s)
  show ?case
    by (rule put_ok [OF socket_closes(5,1)])
      (use socket_closes(2) nth_ok [OF socket_closes(5,1)] in \<open>auto simp: routine_ok_def split: conn_at.splits\<close>)
next
  case (opens i s)
  show ?case
    by (rule put_ok [OF opens(3,1)]) (use opens(2) nth_ok [OF opens(3,1)] in \<open>auto simp: routine_ok_def\<close>)
next
  case (open_fails i s)
  then show ?case by (intro conn_returns_ok) simp_all
next
  case (join_refused i s)
  then show ?case by (intro conn_returns_ok) simp_all
next
  case (leave_refused i s)
  then show ?case by (intro conn_returns_ok) simp_all
qed (simp_all add: goroutines_ok_def)

lemma spawned_conn_ok: "routine_ok (new_routine out)" "live_on b (new_routine out) = (if out = b then 1 else 0)"
  by (simp_all add: routine_ok_def new_routine_def live_on_def)

lemma working_step_ok: "working_step s s' \<Longrightarrow> goroutines_ok s \<Longrightarrow> goroutines_ok s'"
proof (induction rule: working_step.induct)
  case (join_taken i s x)
  show ?case
    by (rule put_ok [OF join_taken(5,1)]) (use join_taken(2,4) in \<open>auto simp: routine_ok_def\<close>)
next
  case (report_taken i s x to)
  have "goroutines_ok (s\<lparr>coordAt := to\<rparr>)" using report_taken(3-5) by (auto simp: goroutines_ok_def)
  moreover have "routine_ok (routines s ! i)" using nth_ok report_taken(1,5) by simp
  ultimately show ?case
    using report_taken(1,2) by (intro put_ok) (auto simp: routine_ok_def)
next
  case (message_arrives i s)
  show ?case
    by (rule put_ok [OF message_arrives(4,1)])
      (use message_arrives(2) nth_ok [OF message_arrives(4,1)] in \<open>auto simp: routine_ok_def split: conn_at.splits\<close>)
next
  case (piece_assigned i s)
  show ?case
    by (rule put_ok [OF piece_assigned(3,1)])
      (use piece_assigned(2) nth_ok [OF piece_assigned(3,1)] in \<open>auto simp: routine_ok_def\<close>)
next
  case (piece_cancelled i s)
  show ?case
    by (rule put_ok [OF piece_cancelled(3,1)])
      (use piece_cancelled(2) nth_ok [OF piece_cancelled(3,1)] in \<open>auto simp: routine_ok_def\<close>)
next
  case (leave_taken i s)
  then show ?case by (intro conn_returns_ok) simp_all
next
  case (accepts s)
  then show ?case by (simp add: goroutines_ok_def spawned_conn_ok)
next
  case (dials s)
  then show ?case by (simp add: goroutines_ok_def spawned_conn_ok)
qed (simp_all add: goroutines_ok_def)

lemma running_ok: "running s \<Longrightarrow> goroutines_ok s"
proof (induction rule: running.induct)
  case (spawn listening)
  show ?case by (simp add: goroutines_ok_def spawned_def total_of_def)
qed (simp_all add: closing_step_ok working_step_ok)

section \<open>Winding down\<close>

text \<open>How many steps every goroutine still has before it at most.\<close>

fun conn_effort :: "conn_at \<Rightarrow> nat" where
  "conn_effort Opening = 7"
| "conn_effort Joining = 6"
| "conn_effort Looping = 5"
| "conn_effort Fetching = 5"
| "conn_effort (Reporting x) = (if x = Leaving then 4 else 5)"
| "conn_effort Leaving = 3"
| "conn_effort ConnReturned = 0"

definition reader_effort :: "reader_at \<Rightarrow> nat" where
  "reader_effort r = (case r of ReaderOff \<Rightarrow> 0 | ReaderReading \<Rightarrow> 1 | ReaderSending \<Rightarrow> 2 | ReaderReturned \<Rightarrow> 0)"

definition routine_effort :: "conn_routine \<Rightarrow> nat" where
  "routine_effort c = conn_effort (connAt c) + reader_effort (readerAt c) + (if socketOpen c then 1 else 0)"

definition effort :: "goroutines \<Rightarrow> nat" where
  "effort s =
     (case mainAt s of MainSelecting \<Rightarrow> 3 | MainWaiting \<Rightarrow> 2 | MainDeferred \<Rightarrow> 1 | MainReturned \<Rightarrow> 0) +
     (case coordAt s of CoordSelecting \<Rightarrow> 1 | CoordSending \<Rightarrow> 2 | CoordReturned \<Rightarrow> 0) +
     (case listenAt s of ListenServing \<Rightarrow> 2 | ListenWaiting \<Rightarrow> 1 | _ \<Rightarrow> 0) +
     (if lnOpen s then 1 else 0) + total_of routine_effort s"

lemma put_effort:
  assumes "i < length (routines s)" "routine_effort c < routine_effort (routines s ! i)"
  shows "effort (put i c s) < effort s"
  using total_of_put [OF assms(1), of routine_effort c] assms(2) by (simp add: effort_def)

lemma returns_effort:
  assumes "i < length (routines s)" "connAt (routines s ! i) \<noteq> ConnReturned"
  shows "effort (conn_returns i s) < effort s"
proof -
  let ?c = "routines s ! i"
  have "0 < conn_effort (connAt ?c)" using assms(2) by (cases "connAt ?c") simp_all
  then have "effort (put i (?c\<lparr>connAt := ConnReturned, socketOpen := False\<rparr>) s) < effort s"
    by (intro put_effort [OF assms(1)]) (simp add: routine_effort_def)
  then show ?thesis by (simp add: conn_returns_def Let_def effort_def)
qed

lemma may_follow_effort: "may_follow a x \<Longrightarrow> conn_effort x \<le> conn_effort a"
  by (cases a) auto

lemma closing_step_effort: "closing_step s s' \<Longrightarrow> effort s' < effort s"
proof (induction rule: closing_step.induct)
  case (message_taken i s x)
  then show ?case
    using may_follow_effort [OF message_taken(3)]
    by (intro put_effort) (simp_all add: routine_effort_def reader_effort_def)
next
  case (report_refused i s x y)
  show ?case by (rule put_effort [OF report_refused(1)]) (use report_refused(2,4) in \<open>auto simp: routine_effort_def\<close>)
next
  case (piece_fails i s x)
  show ?case by (rule put_effort [OF piece_fails(1)]) (use piece_fails(2,3) in \<open>auto simp: routine_effort_def\<close>)
next
  case (loop_left i s)
  show ?case by (rule put_effort [OF loop_left(1)]) (use loop_left(2) in \<open>simp add: routine_effort_def\<close>)
next
  case (reader_released i s)
  show ?case
    by (rule put_effort [OF reader_released(1)]) (use reader_released(2) in \<open>simp add: routine_effort_def reader_effort_def\<close>)
next
  case (read_fails i s)
  show ?case by (rule put_effort [OF read_fails(1)]) (use read_fails(2) in \<open>simp add: routine_effort_def reader_effort_def\<close>)
next
  case (socket_closes i s)
  show ?case by (rule put_effort [OF socket_closes(1)]) (use socket_closes(3) in \<open>simp add: routine_effort_def\<close>)
next
  case (opens i s)
  show ?case by (rule put_effort [OF opens(1)]) (use opens(2) in \<open>simp add: routine_effort_def\<close>)
next
  case (open_fails i s)
  then show ?case by (intro returns_effort) simp_all
next
  case (join_refused i s)
  then show ?case by (intro returns_effort) simp_all
next
  case (leave_refused i s)
  then show ?case by (intro returns_effort) simp_all
qed (simp_all add: effort_def)

text \<open>Everything the download started has returned.\<close>

definition all_returned :: "goroutines \<Rightarrow> bool" where
  "all_returned s \<longleftrightarrow> coordAt s = CoordReturned \<and> listenAt s \<in> {ListenOff, ListenReturned} \<and>
     list_all (\<lambda>c. connAt c = ConnReturned) (routines s)"

definition wound_down :: "goroutines \<Rightarrow> bool" where
  "wound_down s \<longleftrightarrow> mainAt s = MainReturned \<and> all_returned s \<and> \<not> lnOpen s \<and>
     list_all (\<lambda>c. readerAt c \<in> {ReaderOff, ReaderReturned} \<and> \<not> socketOpen c) (routines s)"

lemma waited_for_all: "goroutines_ok s \<Longrightarrow> wg s = 0 \<Longrightarrow> all_returned s"
proof -
  assume ok: "goroutines_ok s" "wg s = 0"
  then have "coordAt s = CoordReturned" "listenAt s \<notin> {ListenServing, ListenWaiting}" "total_of (live_on True) s = 0"
    by (auto simp: goroutines_ok_def split: if_splits)
  moreover from this(2) have "listenAt s \<in> {ListenOff, ListenReturned}" by (cases "listenAt s") simp_all
  moreover from this have "total_of (live_on False) s = 0" using ok(1) by (simp add: goroutines_ok_def)
  moreover have "connAt c = ConnReturned" if "c \<in> set (routines s)" "total_of (live_on True) s = 0" "total_of (live_on False) s = 0" for c
    using that by (cases "dialledOut c") (auto simp: total_of_zero live_on_def split: if_splits)
  ultimately show ?thesis by (simp add: all_returned_def list_all_iff)
qed

text \<open>One connection that has not come to its end can make a step towards it.\<close>

lemma routine_moves:
  assumes "goroutines_ok s" "ctxDone s" "i < length (routines s)" "connAt (routines s ! i) \<noteq> ConnReturned"
  shows "\<exists>s'. closing_step s s'"
proof (cases "connAt (routines s ! i)")
  case Opening
  show ?thesis using closing_step.open_fails [OF assms(3) Opening] by blast
next
  case Joining
  show ?thesis using closing_step.join_refused [OF assms(3) Joining assms(2)] by blast
next
  case Looping
  show ?thesis using closing_step.loop_left [OF assms(3) Looping] by blast
next
  case Fetching
  show ?thesis using closing_step.piece_fails [OF assms(3) Fetching] by blast
next
  case (Reporting x)
  show ?thesis using closing_step.report_refused [OF assms(3) Reporting assms(2)] by blast
next
  case Leaving
  show ?thesis using closing_step.leave_refused [OF assms(3) Leaving assms(2)] by blast
qed (use assms(4) in simp)

lemma reader_moves:
  assumes "i < length (routines s)" "connAt (routines s ! i) = ConnReturned" "readerAt (routines s ! i) \<notin> {ReaderOff, ReaderReturned}"
  shows "\<exists>s'. closing_step s s'"
  using assms closing_step.read_fails closing_step.reader_released by (cases "readerAt (routines s ! i)") blast+

lemma closing_goes_on:
  assumes "goroutines_ok s" "ctxDone s" "\<not> wound_down s"
  shows "\<exists>s'. closing_step s s'"
proof (rule ccontr)
  assume stuck: "\<nexists>s'. closing_step s s'"
  have c: "connAt (routines s ! i) = ConnReturned" "readerAt (routines s ! i) \<in> {ReaderOff, ReaderReturned}"
    "\<not> socketOpen (routines s ! i)" if "i < length (routines s)" for i
  proof -
    show r: "connAt (routines s ! i) = ConnReturned" using routine_moves [OF assms(1,2) that] stuck by blast
    show "readerAt (routines s ! i) \<in> {ReaderOff, ReaderReturned}" using reader_moves [OF that r] stuck by blast
    show "\<not> socketOpen (routines s ! i)" using nth_ok [OF assms(1) that] r by (simp add: routine_ok_def)
  qed
  have "coordAt s = CoordReturned"
    using stuck assms(2) closing_step.result_dropped closing_step.coord_returns by (cases "coordAt s") blast+
  moreover have ln: "\<not> lnOpen s" using stuck assms(2) closing_step.listener_closes by blast
  moreover have h: "total_of (live_on b) s = 0" for b
    using c(1) by (auto simp: total_of_zero live_on_def in_set_conv_nth)
  moreover have "listenAt s \<in> {ListenOff, ListenReturned}"
    using stuck ln closing_step.serve_returns closing_step.listener_returns h [of False] assms(1)
    by (cases "listenAt s") (auto simp: goroutines_ok_def)
  ultimately have "wg s = 0" using assms(1) by (auto simp: goroutines_ok_def)
  then have "mainAt s = MainReturned"
    using stuck assms(2) closing_step.main_sees closing_step.main_waited closing_step.main_returns by (cases "mainAt s") blast+
  then have "wound_down s"
    using c ln waited_for_all [OF assms(1) \<open>wg s = 0\<close>] by (auto simp: wound_down_def list_all_length)
  then show False using assms(3) by blast
qed

lemma closing_run:
  assumes "(closing_step ^^ n) s s'" "running s" "ctxDone s"
  shows "running s' \<and> ctxDone s' \<and> effort s' + n \<le> effort s"
  using assms(1)
proof (induction n arbitrary: s')
  case 0
  then show ?case using assms by simp
next
  case (Suc n)
  then obtain t where t: "running t" "ctxDone t" "effort t + n \<le> effort s" and st: "closing_step t s'" by auto
  have "ctxDone s'" using st t(2) by (induction rule: closing_step.induct) (simp_all add: conn_returns_def Let_def)
  moreover have "effort s' < effort t" by (rule closing_step_effort [OF st])
  ultimately show ?case using running.close [OF t(1) st] t(3) by simp
qed

section \<open>Properties\<close>

text \<open>
  C26. The wait groups count right: \<open>wg\<close> is never negative - which would be a panic - and when
  \<open>wg.Wait()\<close> returns, the coordinator, the listener, every worker and every handler of an accepted
  connection have returned, although only the listener waits for the handlers.
\<close>

theorem wait_means_all_returned:
  assumes "running s"
  shows "0 \<le> wg s \<and> 0 \<le> hwg s \<and> buffered s \<le> resultsBufferSize \<and> (wg s = 0 \<longrightarrow> all_returned s)"
  using running_ok [OF assms] waited_for_all [of s] by (simp add: goroutines_ok_def)


text \<open>A worker in the middle of a piece and a handler that accepts, when the user cancels.\<close>

definition busy_client :: goroutines where
  "busy_client = (spawned True)\<lparr>ctxDone := True, wg := 3, hwg := 1,
     routines := [\<lparr>dialledOut = True, connAt = Fetching, readerAt = ReaderSending, socketOpen = True\<rparr>, new_routine False]\<rparr>"

lemma busy_client_running: "running busy_client"
proof -
  let ?s1 = "(spawned True)\<lparr>routines := [new_routine True], wg := 3\<rparr>"
  let ?s2 = "put 0 ((new_routine True)\<lparr>connAt := Joining\<rparr>) ?s1"
  let ?s3 = "put 0 ((new_routine True)\<lparr>connAt := Looping, readerAt := ReaderReading\<rparr>) ?s2"
  let ?s4 = "put 0 ((new_routine True)\<lparr>connAt := Fetching, readerAt := ReaderReading\<rparr>) ?s3"
  let ?s5 = "put 0 ((new_routine True)\<lparr>connAt := Fetching, readerAt := ReaderSending\<rparr>) ?s4"
  let ?s6 = "?s5\<lparr>routines := routines ?s5 @ [new_routine False], hwg := 1\<rparr>"
  have "running ?s1" using running.work [OF running.spawn working_step.dials, of True] by (simp add: spawned_def)
  then have "running ?s2" using running.close [OF _ closing_step.opens, of ?s1 0] by (simp add: new_routine_def)
  then have "running ?s3"
    using running.work [OF _ working_step.join_taken, of ?s2 0 Looping] by (simp add: new_routine_def spawned_def)
  then have "running ?s4"
    using running.work [OF _ working_step.piece_assigned, of ?s3 0] by (simp add: new_routine_def)
  then have "running ?s5"
    using running.work [OF _ working_step.message_arrives, of ?s4 0] by (simp add: new_routine_def)
  then have "running ?s6"
    using running.work [OF _ working_step.accepts, of ?s5] by (simp add: spawned_def)
  then have "running (?s6\<lparr>ctxDone := True\<rparr>)"
    using running.work [OF _ working_step.cancel_called, of ?s6] by (simp add: spawned_def)
  moreover have "?s6\<lparr>ctxDone := True\<rparr> = busy_client"
    by (simp add: busy_client_def put_def new_routine_def spawned_def)
  ultimately show ?thesis by simp
qed


theorem wait_means_all_returned_witness: "0 \<le> wg busy_client \<and> 0 \<le> hwg busy_client"
  using wait_means_all_returned [OF busy_client_running] by simp

text \<open>
  What \<open>wg.Wait()\<close> does not cover: the deferred announce runs after it and can start a worker, which
  is still dialling when the download returns.
\<close>

lemma worker_outlives_return:
  "\<exists>s. running s \<and> mainAt s = MainReturned \<and> wg s = 1 \<and> map connAt (routines s) = [Opening]"
proof -
  let ?s1 = "(spawned False)\<lparr>ctxDone := True, mainAt := MainWaiting\<rparr>"
  let ?s2 = "?s1\<lparr>coordAt := CoordReturned, wg := 0\<rparr>"
  let ?s3 = "?s2\<lparr>mainAt := MainDeferred\<rparr>"
  let ?s4 = "?s3\<lparr>routines := [new_routine True], wg := 1\<rparr>"
  have "running ?s1" using running.work [OF running.spawn working_step.completes, of False] by (simp add: spawned_def)
  then have "running ?s2" using running.close [OF _ closing_step.coord_returns, of ?s1] by (simp add: spawned_def)
  then have "running ?s3" using running.close [OF _ closing_step.main_waited, of ?s2] by simp
  then have "running ?s4" using running.work [OF _ working_step.dials, of ?s3] by (simp add: spawned_def)
  then have "running (?s4\<lparr>mainAt := MainReturned, ctxDone := True, lnOpen := False\<rparr>)"
    using running.close [OF _ closing_step.main_returns, of ?s4] by simp
  then show ?thesis by (intro exI conjI) (assumption, simp_all add: new_routine_def)
qed

end
