(* ===== verification/Progress_Display.thy ===== *)
theory Progress_Display
  imports Rates Bencode_Encode
begin

text \<open>
  The status block: \<open>Progress.Render\<close> (\<open>progress.go\<close>) builds its lines, the closures \<open>redraw\<close> and
  \<open>endBlock\<close> of \<open>Download\<close> (\<open>download.go\<close>) print it over the previous one. Of package \<open>fmt\<close> the verbs the
  code uses are written out; rates and percentages are rationals, so a tie is rounded to even where
  Go rounds the nearest \<open>float64\<close>.
\<close>

section \<open>The verbs of \<open>fmt\<close>\<close>

text \<open>\<open>%d\<close>, \<open>%.kf\<close>, and the paddings \<open>%-10s\<close> and \<open>%5s\<close>.\<close>

definition round_even :: "rat \<Rightarrow> int" where
  "round_even x =
     (let f = \<lfloor>x\<rfloor>; r = x - of_int f in
      if r < 1 / 2 then f else if r > 1 / 2 then f + 1 else if even f then f else f + 1)"

definition fmt_fixed :: "nat \<Rightarrow> rat \<Rightarrow> bytes" where
  "fmt_fixed k x =
     (let n = round_even (\<bar>x\<bar> * 10 ^ k); ds = show_nat (nat n);
          padded = replicate (k + 1 - length ds) 48 @ ds;
          cut = length padded - k
      in (if x < 0 then [45] else []) @ take cut padded @ [46] @ drop cut padded)"

definition pad_right :: "nat \<Rightarrow> bytes \<Rightarrow> bytes" where
  "pad_right w s = s @ replicate (w - length s) 32"

definition pad_left :: "nat \<Rightarrow> bytes \<Rightarrow> bytes" where
  "pad_left w s = replicate (w - length s) 32 @ s"

text \<open>\<open>Duration.Round\<close> to the second, halves away from zero, and \<open>Duration.String\<close> of whole seconds.\<close>

definition round_second :: "int \<Rightarrow> int" where
  "round_second d =
     (let r = \<bar>d\<bar> mod Second; m = (if r + r < Second then \<bar>d\<bar> - r else \<bar>d\<bar> + Second - r)
      in if d < 0 then (if m \<le> 2 ^ 63 then - m else - (2 ^ 63)) else (if m < 2 ^ 63 then m else 2 ^ 63 - 1))"

text \<open>The nine digits of the fraction, without trailing zeros; rounding leaves none but at the limits.\<close>

definition fraction_text :: "int \<Rightarrow> bytes" where
  "fraction_text ns =
     (let ds = show_nat (nat ns); padded = replicate (9 - length ds) 48 @ ds
      in if ns = 0 then [] else 46 # rev (dropWhile (\<lambda>b. b = 48) (rev padded)))"

definition duration_text :: "int \<Rightarrow> bytes" where
  "duration_text d =
     (let u = \<bar>d\<bar>; total = u div Second; h = total div 3600; m = total div 60 mod 60; s = total mod 60
      in (if d < 0 then [45] else []) @
         (if h > 0 then show_int h @ bs ''h'' else []) @
         (if total div 60 > 0 then show_int m @ bs ''m'' else []) @
         show_int s @ fraction_text (u mod Second) @ bs ''s'')"

section \<open>\<open>Render\<close>\<close>

definition ansi :: "string \<Rightarrow> bytes" where
  "ansi s = 27 # bs s"

definition ansiReset where "ansiReset = ansi ''[0m''"
definition ansiBold where "ansiBold = ansi ''[1m''"
definition ansiGreen where "ansiGreen = ansi ''[32m''"
definition ansiCyan where "ansiCyan = ansi ''[36m''"
definition ansiYellow where "ansiYellow = ansi ''[33m''"
definition ansiMagenta where "ansiMagenta = ansi ''[35m''"
definition ansiGray where "ansiGray = ansi ''[90m''"
definition clearLine where "clearLine = ansi ''[2K''"

text \<open>\<open>strings.Repeat\<close> panics when the count is negative.\<close>

definition repeat_byte :: "byte \<Rightarrow> int \<Rightarrow> bytes option" where
  "repeat_byte b n = (if n < 0 then None else Some (replicate (nat n) b))"

definition bar :: "progress \<Rightarrow> bytes option" where
  "bar p =
     (case (repeat_byte 61 (bar_filled p), repeat_byte 32 (barWidth - bar_filled p)) of
        (Some full, Some room) \<Rightarrow> Some (ansiGreen @ full @ ansiReset @ ansiGray @ room @ ansiReset)
      | _ \<Rightarrow> None)"

text \<open>One row of the table: the label padded to ten, then the value.\<close>

definition row :: "string \<Rightarrow> bytes \<Rightarrow> bytes" where
  "row label value = clearLine @ bs ''  '' @ pad_right 10 (bs label) @ bs '' '' @ value"

definition coloured :: "bytes \<Rightarrow> bytes \<Rightarrow> bytes" where
  "coloured colour s = colour @ s @ ansiReset"

definition Render :: "int \<Rightarrow> int \<Rightarrow> bool \<Rightarrow> progress \<Rightarrow> bytes list option" where
  "Render now totalBytes seeding p =
     (if seeding then
        let uploaded = bytesUploaded p;
            ratio = (if totalBytes > 0 then of_int uploaded / of_int totalBytes else 0 :: rat)
        in Some
          [[],
           clearLine @ ansiBold @ ansiGreen @ bs ''SEEDING'' @ ansiReset,
           [],
           row ''Peers'' (coloured ansiMagenta (show_int (activePeers p))),
           row ''Upload'' (coloured ansiGreen (fmt_fixed 1 (ProgressUploadRate now p / 1024) @ bs '' KiB/s'')),
           row ''Uploaded'' (fmt_fixed 1 (of_int uploaded / (1024 * 1024)) @ bs '' MiB''),
           row ''Ratio'' (coloured ansiYellow (fmt_fixed 2 ratio)),
           []]
      else map_option (\<lambda>b.
          [[],
           clearLine @ bs ''['' @ b @ bs ''] '' @ coloured ansiBold (pad_left 5 (fmt_fixed 1 (Percent p)) @ bs ''%''),
           [],
           row ''Pieces'' (show_int (piecesDone p) @ bs ''/'' @ show_int (ProgressPieces p)),
           row ''Speed'' (coloured ansiCyan (fmt_fixed 1 (Rate now p / 1024) @ bs '' KiB/s'')),
           row ''Peers'' (coloured ansiMagenta (show_int (activePeers p))),
           row ''ETA'' (coloured ansiYellow (duration_text (round_second (ETA now totalBytes p)))),
           []]) (bar p))"

section \<open>Redrawing in place\<close>

text \<open>
  What reaches the terminal: the sequence that moves the cursor up by the lines of the previous block,
  and the lines, each ended by a newline. The closure keeps \<open>linesDrawn\<close>.
\<close>

definition redraw :: "bytes list \<Rightarrow> int \<Rightarrow> bytes \<times> int" where
  "redraw ls linesDrawn =
     ((if linesDrawn > 0 then ansi ''['' @ show_int linesDrawn @ bs ''A'' else []) @ concat (map (\<lambda>l. l @ [10]) ls),
      int (length ls))"

definition endBlock :: "int \<Rightarrow> int" where
  "endBlock linesDrawn = 0"

section \<open>The block keeps its place\<close>

text \<open>Nothing \<open>Render\<close> prints contains a newline.\<close>

definition one_line :: "bytes \<Rightarrow> bool" where
  "one_line s \<longleftrightarrow> 10 \<notin> set s"

lemma one_line_append [simp]: "one_line (s @ t) \<longleftrightarrow> one_line s \<and> one_line t"
  by (simp add: one_line_def)

lemma one_line_digits [simp]: "one_line (show_nat n)" "one_line (show_int i)"
proof -
  have "\<not> is_digit 10" by (simp add: is_digit_def word_le_def)
  then show n: "one_line (show_nat n)" for n
    using show_nat_digits [of n] by (auto simp: one_line_def list_all_iff)
  show "one_line (show_int i)" by (simp add: show_int_def n) (simp add: n [unfolded one_line_def] one_line_def)
qed

lemma one_line_parts [simp]:
  "one_line []" "one_line (replicate k b) \<longleftrightarrow> k = 0 \<or> b \<noteq> 10" "one_line (b # s) \<longleftrightarrow> b \<noteq> 10 \<and> one_line s"
  "one_line s \<Longrightarrow> one_line (take k s)" "one_line s \<Longrightarrow> one_line (drop k s)" "one_line s \<Longrightarrow> one_line (dropWhile P s)"
  "one_line (rev s) = one_line s"
  by (auto simp: one_line_def dest: in_set_takeD in_set_dropD set_dropWhileD)

lemma one_line_verbs [simp]: "one_line (fmt_fixed k x)" "one_line s \<Longrightarrow> one_line (pad_right w s)" "one_line s \<Longrightarrow> one_line (pad_left w s)"
  "one_line (duration_text d)"
  by (auto simp: fmt_fixed_def pad_right_def pad_left_def duration_text_def fraction_text_def Let_def)

lemma one_line_colours [simp]: "one_line ansiReset" "one_line ansiBold" "one_line ansiGreen" "one_line ansiCyan" "one_line ansiYellow"
  "one_line ansiMagenta" "one_line ansiGray" "one_line clearLine"
  by code_simp+

text \<open>
  With counters that are not negative \<open>Render\<close> does not panic, always prints eight lines, and the number
  of lines the next redraw moves up over is the number of newlines printed; the bar has forty cells.
\<close>

theorem render_keeps_its_place:
  assumes "0 \<le> piecesDone p" "0 \<le> ProgressPieces p"
  shows "\<exists>ls b. Render now totalBytes seeding p = Some ls \<and> length ls = 8 \<and>
    int (count_list (fst (redraw ls 0)) 10) = snd (redraw ls 0) \<and>
    bar p = Some b \<and> int (count_list b 61) = bar_filled p \<and> count_list b 61 + count_list b 32 = 40"
proof -
  have "0 \<le> bar_filled p"
    using assms by (simp add: bar_filled_def Percent_def barWidth_def Let_def)
  moreover have cap: "bar_filled p \<le> 40" by (simp add: bar_filled_def barWidth_def Let_def)
  ultimately obtain b where b: "bar p = Some b" "b = ansiGreen @ replicate (nat (bar_filled p)) 61 @ ansiReset @ ansiGray @
      replicate (nat (40 - bar_filled p)) 32 @ ansiReset"
    by (simp add: bar_def repeat_byte_def barWidth_def)
  have other: "count_list (replicate k x) y = (if x = y then k else 0)" for k and x y :: byte by (induction k) auto
  have "count_list s 61 = 0 \<and> count_list s 32 = 0" if "s \<in> {ansiGreen, ansiReset, ansiGray}" for s
    using that by (elim insertE emptyE; hypsubst) code_simp+
  then have cells: "int (count_list b 61) = bar_filled p" "count_list b 61 + count_list b 32 = 40"
    using \<open>0 \<le> bar_filled p\<close> cap by (simp_all add: b(2) other)
  have ob: "one_line b" by (simp add: b(2))
  obtain ls where ls: "Render now totalBytes seeding p = Some ls" "length ls = 8" "list_all one_line ls"
    using b(1) ob by (cases seeding) (simp_all add: Render_def row_def coloured_def Let_def del: bs_Cons, simp_all)
  have "count_list (concat (map (\<lambda>l. l @ [10]) ls)) 10 = length ls" if "list_all one_line ls" for ls
    using that by (induction ls) (simp_all add: one_line_def count_notin)
  then show ?thesis using ls b(1) cells by (simp add: redraw_def)
qed

end
